(* ===== verification/Router_Prelude.thy ===== *)
theory Router_Prelude
  imports Main "HOL-Library.Word" "HOL-Library.Char_ord" "HOL-Library.List_Lexorder" "HOL-Library.Sublist"
begin

text \<open>
  Shared vocabulary of the router's verification library. It fixes the machine integers, models the
  parts of the Rust standard library that the router's own code calls on byte slices and strings
  (ASCII case folding, UTF-8 validation and lossy decoding, substring search, splitting, joining,
  replacing, trimming, integer parsing and printing) and proves the generic facts the component
  theories rest on.

  A byte (\<open>u8\<close>) is a \<^typ>\<open>char\<close>, which has exactly eight bits in HOL; a byte slice and a
  \<open>str\<close> are both lists of bytes, a \<open>str\<close> being one that passes \<open>from_utf8\<close>. Byte offsets of
  the source are therefore list positions here.

  The search routine \<open>memchr\<close> comes from a third-party package. It is a parameter \<open>mc\<close> of every
  definition that calls it, and \<open>memchr_spec mc\<close> is its documented behaviour: the index of the
  first occurrence.
\<close>

section \<open>Types and theorem collections\<close>

type_synonym u8 = "8 word"
type_synonym u16 = "16 word"
type_synonym u32 = "32 word"
type_synonym u64 = "64 word"
type_synonym bytes = "char list"
type_synonym memchr_fn = "char \<Rightarrow> bytes \<Rightarrow> nat option"

named_theorems router_defs \<open>definitions unfolded together in branch-by-branch proofs\<close>
named_theorems str_simps \<open>equations of the string routines on structured arguments\<close>

abbreviation usize_max :: nat where
  "usize_max \<equiv> 2 ^ 64 - 1"

abbreviation NL :: char where
  "NL \<equiv> CHR 0x0A"

section \<open>Bytes and ASCII\<close>

definition byte :: "char \<Rightarrow> nat" where
  "byte c = of_char c"

definition ascii_lower :: "char \<Rightarrow> char" where
  "ascii_lower c = (if 65 \<le> byte c \<and> byte c \<le> 90 then char_of (byte c + 32) else c)"

definition ascii_upper :: "char \<Rightarrow> char" where
  "ascii_upper c = (if 97 \<le> byte c \<and> byte c \<le> 122 then char_of (byte c - 32) else c)"

definition to_ascii_lowercase :: "bytes \<Rightarrow> bytes" where
  "to_ascii_lowercase s = map ascii_lower s"

definition to_ascii_uppercase :: "bytes \<Rightarrow> bytes" where
  "to_ascii_uppercase s = map ascii_upper s"

definition eq_ignore_ascii_case :: "bytes \<Rightarrow> bytes \<Rightarrow> bool" where
  "eq_ignore_ascii_case a b \<longleftrightarrow> to_ascii_lowercase a = to_ascii_lowercase b"

definition is_ascii_digit :: "char \<Rightarrow> bool" where
  "is_ascii_digit c \<longleftrightarrow> 48 \<le> byte c \<and> byte c \<le> 57"

section \<open>UTF-8\<close>

definition is_cont :: "char \<Rightarrow> bool" where
  "is_cont c \<longleftrightarrow> 128 \<le> byte c \<and> byte c \<le> 191"

text \<open>
  \<open>utf8_step\<close> looks at the head of a byte sequence. Its result is \<open>(ok, n)\<close>: the first \<open>n\<close>
  bytes are one encoded scalar value (\<open>ok\<close>), or they are the maximal invalid prefix that the
  lossy decoder replaces by one replacement character.
\<close>

definition cont_at :: "bytes \<Rightarrow> nat \<Rightarrow> bool" where
  "cont_at s i \<longleftrightarrow> i < length s \<and> is_cont (s ! i)"

definition second_ok :: "nat \<Rightarrow> bytes \<Rightarrow> bool" where
  "second_ok b s \<longleftrightarrow> 1 < length s \<and>
     (let c = byte (s ! 1) in
        (b = 224 \<and> 160 \<le> c \<and> c \<le> 191)
      \<or> (225 \<le> b \<and> b \<le> 236 \<and> 128 \<le> c \<and> c \<le> 191)
      \<or> (b = 237 \<and> 128 \<le> c \<and> c \<le> 159)
      \<or> (238 \<le> b \<and> b \<le> 239 \<and> 128 \<le> c \<and> c \<le> 191)
      \<or> (b = 240 \<and> 144 \<le> c \<and> c \<le> 191)
      \<or> (241 \<le> b \<and> b \<le> 243 \<and> 128 \<le> c \<and> c \<le> 191)
      \<or> (b = 244 \<and> 128 \<le> c \<and> c \<le> 143))"

definition utf8_step :: "bytes \<Rightarrow> bool \<times> nat" where
  "utf8_step s =
     (let b = byte (hd s) in
      if b < 128 then (True, 1)
      else if 194 \<le> b \<and> b \<le> 223 then (if cont_at s 1 then (True, 2) else (False, 1))
      else if 224 \<le> b \<and> b \<le> 239 then
        (if \<not> second_ok b s then (False, 1)
         else if cont_at s 2 then (True, 3) else (False, 2))
      else if 240 \<le> b \<and> b \<le> 244 then
        (if \<not> second_ok b s then (False, 1)
         else if \<not> cont_at s 2 then (False, 2)
         else if cont_at s 3 then (True, 4) else (False, 3))
      else (False, 1))"

lemma utf8_step_pos: "0 < snd (utf8_step s)"
  by (auto simp: utf8_step_def Let_def)

lemma utf8_step_shrinks:
  "(ok, n) = utf8_step s \<Longrightarrow> length (drop n (c # cs)) < Suc (length cs)"
  using utf8_step_pos [of s] by (cases n) (auto dest: sym)

function valid_utf8 :: "bytes \<Rightarrow> bool" where
  "valid_utf8 [] = True"
| "valid_utf8 (c # cs) =
     (case utf8_step (c # cs) of (ok, n) \<Rightarrow> ok \<and> valid_utf8 (drop n (c # cs)))"
  by pat_completeness auto
termination
  by (relation "measure length") (auto dest: utf8_step_shrinks)

definition from_utf8 :: "bytes \<Rightarrow> bytes option" where
  "from_utf8 s = (if valid_utf8 s then Some s else None)"

definition replacement_char :: bytes where
  "replacement_char = [CHR 0xEF, CHR 0xBF, CHR 0xBD]"

function from_utf8_lossy :: "bytes \<Rightarrow> bytes" where
  "from_utf8_lossy [] = []"
| "from_utf8_lossy (c # cs) =
     (case utf8_step (c # cs) of (ok, n) \<Rightarrow>
        (if ok then take n (c # cs) else replacement_char) @ from_utf8_lossy (drop n (c # cs)))"
  by pat_completeness auto
termination
  by (relation "measure length") (auto dest: utf8_step_shrinks)

declare valid_utf8.simps(2) [simp del] from_utf8_lossy.simps(2) [simp del]

section \<open>Searching, splitting, joining and replacing\<close>

definition starts_with :: "bytes \<Rightarrow> bytes \<Rightarrow> bool" where
  "starts_with s p \<longleftrightarrow> take (length p) s = p"

definition ends_with :: "bytes \<Rightarrow> bytes \<Rightarrow> bool" where
  "ends_with s p \<longleftrightarrow> length p \<le> length s \<and> drop (length s - length p) s = p"

definition strip_prefix :: "bytes \<Rightarrow> bytes \<Rightarrow> bytes option" where
  "strip_prefix s p = (if starts_with s p then Some (drop (length p) s) else None)"

definition strip_suffix :: "bytes \<Rightarrow> bytes \<Rightarrow> bytes option" where
  "strip_suffix s p = (if ends_with s p then Some (take (length s - length p) s) else None)"

text \<open>\<open>str::find\<close> with a string pattern: the offset of the first occurrence.\<close>

fun find_sub :: "bytes \<Rightarrow> bytes \<Rightarrow> nat option" where
  "find_sub [] p = (if p = [] then Some 0 else None)"
| "find_sub (c # cs) p =
     (if starts_with (c # cs) p then Some 0 else map_option Suc (find_sub cs p))"

definition contains_sub :: "bytes \<Rightarrow> bytes \<Rightarrow> bool" where
  "contains_sub s p \<longleftrightarrow> find_sub s p \<noteq> None"

fun position :: "('a \<Rightarrow> bool) \<Rightarrow> 'a list \<Rightarrow> nat option" where
  "position P [] = None"
| "position P (x # xs) = (if P x then Some 0 else map_option Suc (position P xs))"

definition rposition :: "('a \<Rightarrow> bool) \<Rightarrow> 'a list \<Rightarrow> nat option" where
  "rposition P xs = map_option (\<lambda>i. length xs - 1 - i) (position P (rev xs))"

fun split_on :: "char \<Rightarrow> bytes \<Rightarrow> bytes list" where
  "split_on x [] = [[]]"
| "split_on x (c # cs) =
     (if c = x then [] # split_on x cs
      else (case split_on x cs of [] \<Rightarrow> [[c]] | q # qs \<Rightarrow> (c # q) # qs))"

definition split_once :: "char \<Rightarrow> bytes \<Rightarrow> (bytes \<times> bytes) option" where
  "split_once x s =
     map_option (\<lambda>i. (take i s, drop (Suc i) s)) (position (\<lambda>c. c = x) s)"

definition rsplit_once :: "char \<Rightarrow> bytes \<Rightarrow> (bytes \<times> bytes) option" where
  "rsplit_once x s =
     map_option (\<lambda>i. (take i s, drop (Suc i) s)) (rposition (\<lambda>c. c = x) s)"

text \<open>\<open>s.rsplit(x).next()\<close>, which always yields a piece: the last one.\<close>

definition rsplit_next :: "char \<Rightarrow> bytes \<Rightarrow> bytes" where
  "rsplit_next x s = last (split_on x s)"

fun join :: "bytes \<Rightarrow> bytes list \<Rightarrow> bytes" where
  "join sep [] = []"
| "join sep [p] = p"
| "join sep (p # q # ps) = p @ sep @ join sep (q # ps)"

text \<open>
  \<open>str::replace\<close> for a non-empty pattern, the only use the router makes of it: occurrences are
  replaced from left to right and do not overlap.
\<close>

function replace_sub :: "bytes \<Rightarrow> bytes \<Rightarrow> bytes \<Rightarrow> bytes" where
  "replace_sub p w [] = []"
| "replace_sub p w (c # cs) =
     (if p \<noteq> [] \<and> starts_with (c # cs) p then w @ replace_sub p w (drop (length p) (c # cs))
      else c # replace_sub p w cs)"
  by pat_completeness auto
termination
  by (relation "measure (\<lambda>(p, w, s). length s)") auto

declare replace_sub.simps(2) [simp del]

section \<open>White space\<close>

text \<open>
  \<open>ws_len s\<close> is the encoded length of the character with the Unicode property White\_Space at the
  head of \<open>s\<close>, and 0 if there is none.
\<close>

definition ws_len :: "bytes \<Rightarrow> nat" where
  "ws_len s =
     (if s \<noteq> [] \<and> (9 \<le> byte (hd s) \<and> byte (hd s) \<le> 13 \<or> byte (hd s) = 32) then 1
      else if starts_with s [CHR 0xC2, CHR 0x85] \<or> starts_with s [CHR 0xC2, CHR 0xA0] then 2
      else if starts_with s [CHR 0xE1, CHR 0x9A, CHR 0x80]
           \<or> starts_with s [CHR 0xE2, CHR 0x81, CHR 0x9F]
           \<or> starts_with s [CHR 0xE3, CHR 0x80, CHR 0x80]
           \<or> (2 < length s \<and> starts_with s [CHR 0xE2, CHR 0x80]
              \<and> (let c = byte (s ! 2) in 128 \<le> c \<and> c \<le> 138 \<or> c = 168 \<or> c = 169 \<or> c = 175)) then 3
      else 0)"

definition ws_end_len :: "bytes \<Rightarrow> nat" where
  "ws_end_len s =
     (if s \<noteq> [] \<and> ws_len [last s] = 1 then 1
      else if 2 \<le> length s \<and> ws_len (drop (length s - 2) s) = 2 then 2
      else if 3 \<le> length s \<and> ws_len (drop (length s - 3) s) = 3 then 3
      else 0)"

function trim_start :: "bytes \<Rightarrow> bytes" where
  "trim_start s = (if s = [] \<or> ws_len s = 0 then s else trim_start (drop (ws_len s) s))"
  by pat_completeness auto
termination
  by (relation "measure length") auto

function trim_end :: "bytes \<Rightarrow> bytes" where
  "trim_end s = (if s = [] \<or> ws_end_len s = 0 then s else trim_end (take (length s - ws_end_len s) s))"
  by pat_completeness auto
termination
  by (relation "measure length") auto

definition trim :: "bytes \<Rightarrow> bytes" where
  "trim s = trim_end (trim_start s)"

declare trim_start.simps [simp del] trim_end.simps [simp del]

section \<open>Integers as text\<close>

definition digits_value :: "bytes \<Rightarrow> nat" where
  "digits_value ds = foldl (\<lambda>n c. 10 * n + (byte c - 48)) 0 ds"

text \<open>\<open>str::parse\<close> for an unsigned integer below \<open>bound\<close>: an optional plus sign, then digits.\<close>

definition parse_unsigned :: "nat \<Rightarrow> bytes \<Rightarrow> nat option" where
  "parse_unsigned bound s =
     (let ds = (if starts_with s ''+'' then tl s else s)
      in if ds = [] \<or> \<not> list_all is_ascii_digit ds then None
         else if digits_value ds < bound then Some (digits_value ds) else None)"

definition parse_usize :: "bytes \<Rightarrow> nat option" where
  "parse_usize = parse_unsigned (2 ^ 64)"

definition parse_u8 :: "bytes \<Rightarrow> u8 option" where
  "parse_u8 s = map_option of_nat (parse_unsigned (2 ^ 8) s)"

definition parse_u16 :: "bytes \<Rightarrow> u16 option" where
  "parse_u16 s = map_option of_nat (parse_unsigned (2 ^ 16) s)"

definition parse_i64 :: "bytes \<Rightarrow> int option" where
  "parse_i64 s =
     (let neg = starts_with s ''-'';
          ds = (if starts_with s ''+'' \<or> neg then tl s else s);
          v = (if neg then - int (digits_value ds) else int (digits_value ds))
      in if ds = [] \<or> \<not> list_all is_ascii_digit ds then None
         else if - (2 ^ 63) \<le> v \<and> v < 2 ^ 63 then Some v else None)"

fun nat_to_string :: "nat \<Rightarrow> bytes" where
  "nat_to_string n =
     (if n < 10 then [char_of (48 + n)] else nat_to_string (n div 10) @ [char_of (48 + n mod 10)])"

declare nat_to_string.simps [simp del]

definition int_to_string :: "int \<Rightarrow> bytes" where
  "int_to_string n = (if n < 0 then CHR ''-'' # nat_to_string (nat (- n)) else nat_to_string (nat n))"

text \<open>
  The grammar \<open>f64::from_str\<close> accepts: an optional sign, then \<open>inf\<close>, \<open>infinity\<close> or \<open>nan\<close> in any
  case, or decimal digits with an optional point (at least one digit on some side) and an optional
  exponent.
\<close>

definition strip_sign :: "bytes \<Rightarrow> bytes" where
  "strip_sign s = (case s of [] \<Rightarrow> [] | c # cs \<Rightarrow> if c = CHR ''+'' \<or> c = CHR ''-'' then cs else s)"

definition exponent_ok :: "bytes \<Rightarrow> bool" where
  "exponent_ok s \<longleftrightarrow>
     (case s of [] \<Rightarrow> True
      | c # cs \<Rightarrow> (c = CHR ''e'' \<or> c = CHR ''E'') \<and> strip_sign cs \<noteq> [] \<and> list_all is_ascii_digit (strip_sign cs))"

definition number_ok :: "bytes \<Rightarrow> bool" where
  "number_ok s =
     (let whole = takeWhile is_ascii_digit s; rest = dropWhile is_ascii_digit s
      in case rest of
           [] \<Rightarrow> whole \<noteq> []
         | c # cs \<Rightarrow>
             if c = CHR ''.'' then
               (whole \<noteq> [] \<or> takeWhile is_ascii_digit cs \<noteq> []) \<and> exponent_ok (dropWhile is_ascii_digit cs)
             else whole \<noteq> [] \<and> exponent_ok rest)"

definition is_f64_text :: "bytes \<Rightarrow> bool" where
  "is_f64_text s \<longleftrightarrow>
     (let b = strip_sign s; l = to_ascii_lowercase b
      in l = ''inf'' \<or> l = ''infinity'' \<or> l = ''nan'' \<or> number_ok b)"

section \<open>The memchr interface\<close>

definition memchr_spec :: "memchr_fn \<Rightarrow> bool" where
  "memchr_spec mc \<longleftrightarrow> (\<forall>c s. mc c s = position (\<lambda>b. b = c) s)"

definition memchr_ref :: memchr_fn where
  "memchr_ref c s = position (\<lambda>b. b = c) s"

section \<open>Generic lemmas\<close>

subsection \<open>Bytes and case folding\<close>

lemma byte_lt: "byte c < 256"
  unfolding byte_def using nat_of_char_less_256 [of c] by simp

lemma byte_char_of [simp]: "n < 256 \<Longrightarrow> byte (char_of n) = n"
  by (simp add: byte_def)

lemma byte_eq_iff: "byte c = byte d \<longleftrightarrow> c = d"
  by (simp add: byte_def)

lemma ascii_lower_idem [simp]: "ascii_lower (ascii_lower c) = ascii_lower c"
  using byte_lt [of c] by (auto simp: ascii_lower_def)

lemma ascii_upper_idem [simp]: "ascii_upper (ascii_upper c) = ascii_upper c"
  using byte_lt [of c] by (auto simp: ascii_upper_def)

lemma ascii_lower_upper [simp]: "ascii_lower (ascii_upper c) = ascii_lower c"
  using byte_lt [of c] by (auto simp: ascii_upper_def ascii_lower_def byte_eq_iff [symmetric])

lemma to_ascii_lowercase_idem [simp]:
  "to_ascii_lowercase (to_ascii_lowercase s) = to_ascii_lowercase s"
  by (simp add: to_ascii_lowercase_def)

lemma length_to_ascii_lowercase [simp]: "length (to_ascii_lowercase s) = length s"
  by (simp add: to_ascii_lowercase_def)

lemma length_to_ascii_uppercase [simp]: "length (to_ascii_uppercase s) = length s"
  by (simp add: to_ascii_uppercase_def)

lemma to_ascii_uppercase_append [simp]:
  "to_ascii_uppercase (s @ t) = to_ascii_uppercase s @ to_ascii_uppercase t"
  by (simp add: to_ascii_uppercase_def)

lemma eq_ignore_ascii_case_refl [simp]: "eq_ignore_ascii_case s s"
  by (simp add: eq_ignore_ascii_case_def)

lemma eq_ignore_ascii_case_sym: "eq_ignore_ascii_case s t \<longleftrightarrow> eq_ignore_ascii_case t s"
  by (auto simp: eq_ignore_ascii_case_def)

lemma eq_ignore_ascii_case_trans:
  "eq_ignore_ascii_case s t \<Longrightarrow> eq_ignore_ascii_case t u \<Longrightarrow> eq_ignore_ascii_case s u"
  by (simp add: eq_ignore_ascii_case_def)

lemma eq_ignore_ascii_case_lower [simp]:
  "eq_ignore_ascii_case s (to_ascii_lowercase t) \<longleftrightarrow> eq_ignore_ascii_case s t"
  by (simp add: eq_ignore_ascii_case_def)

subsection \<open>UTF-8\<close>

lemma utf8_step_ascii: "byte c < 128 \<Longrightarrow> utf8_step (c # cs) = (True, 1)"
  by (simp add: utf8_step_def)

lemma valid_utf8_ascii_Cons: "byte c < 128 \<Longrightarrow> valid_utf8 (c # cs) = valid_utf8 cs"
  by (simp add: valid_utf8.simps utf8_step_ascii)

lemma valid_utf8_ascii: "list_all (\<lambda>c. byte c < 128) s \<Longrightarrow> valid_utf8 s"
  by (induction s) (simp_all add: valid_utf8_ascii_Cons)

lemma from_utf8_lossy_valid [simp]: "valid_utf8 s \<Longrightarrow> from_utf8_lossy s = s"
proof (induction s rule: valid_utf8.induct)
  case 1
  then show ?case by simp
next
  case (2 c cs)
  obtain ok n where st: "utf8_step (c # cs) = (ok, n)"
    by (cases "utf8_step (c # cs)")
  with "2.prems" have ok: ok and rest: "valid_utf8 (drop n (c # cs))"
    by (simp_all add: valid_utf8.simps)
  from "2.IH" st ok rest have "from_utf8_lossy (drop n (c # cs)) = drop n (c # cs)"
    by simp
  with st ok show ?case
    by (simp only: from_utf8_lossy.simps prod.case if_True append_take_drop_id)
qed

lemma from_utf8_Some_iff [simp]: "from_utf8 s = Some t \<longleftrightarrow> t = s \<and> valid_utf8 s"
  by (auto simp: from_utf8_def)

subsection \<open>Prefixes and substrings\<close>

lemma starts_with_append [simp]: "starts_with (p @ s) p"
  by (simp add: starts_with_def)

lemma starts_with_iff: "starts_with s p \<longleftrightarrow> (\<exists>t. s = p @ t)"
  unfolding starts_with_def by (metis append_eq_conv_conj append_take_drop_id)

lemma starts_with_Nil [simp]: "starts_with s []" "starts_with [] p \<longleftrightarrow> p = []"
  by (auto simp: starts_with_def)

lemma starts_with_Cons [simp]: "starts_with (c # s) (d # p) \<longleftrightarrow> c = d \<and> starts_with s p"
  by (auto simp: starts_with_def)

lemma ends_with_iff: "ends_with s p \<longleftrightarrow> (\<exists>t. s = t @ p)"
proof
  assume "ends_with s p"
  then have "s = take (length s - length p) s @ p"
    by (metis append_take_drop_id ends_with_def)
  then show "\<exists>t. s = t @ p" ..
qed (auto simp: ends_with_def)

lemma find_sub_SomeD:
  "find_sub s p = Some i \<Longrightarrow> starts_with (drop i s) p \<and> i \<le> length s \<and>
     (\<forall>j < i. \<not> starts_with (drop j s) p)"
proof (induction s arbitrary: i)
  case Nil
  then show ?case by (auto split: if_splits)
next
  case (Cons c cs)
  show ?case
  proof (cases "starts_with (c # cs) p")
    case True
    with Cons.prems show ?thesis by auto
  next
    case False
    with Cons.prems obtain k where "find_sub cs p = Some k" "i = Suc k" by auto
    with Cons.IH [of k] False show ?thesis by (auto simp: less_Suc_eq_0_disj)
  qed
qed

lemma find_sub_bound: "find_sub s p = Some i \<Longrightarrow> i + length p \<le> length s"
  by (drule find_sub_SomeD) (auto simp: starts_with_iff dest: arg_cong [of _ _ length])

lemma find_sub_None_iff: "find_sub s p = None \<longleftrightarrow> (\<forall>t u. s \<noteq> t @ p @ u)"
proof (induction s)
  case Nil
  then show ?case by auto
next
  case (Cons c cs)
  have "(\<exists>t u. c # cs = t @ p @ u) \<longleftrightarrow>
      starts_with (c # cs) p \<or> (\<exists>t u. cs = t @ p @ u)"
  proof
    assume "\<exists>t u. c # cs = t @ p @ u"
    then obtain t u where "c # cs = t @ p @ u" by blast
    then show "starts_with (c # cs) p \<or> (\<exists>t u. cs = t @ p @ u)"
      by (cases t) (auto simp: starts_with_iff)
  next
    assume "starts_with (c # cs) p \<or> (\<exists>t u. cs = t @ p @ u)"
    then show "\<exists>t u. c # cs = t @ p @ u"
      by (metis append_Cons append_Nil starts_with_iff)
  qed
  with Cons.IH show ?case by auto
qed

lemma contains_sub_iff: "contains_sub s p \<longleftrightarrow> (\<exists>t u. s = t @ p @ u)"
  unfolding contains_sub_def by (auto simp: find_sub_None_iff)

subsection \<open>Positions and pieces\<close>

lemma position_append [str_simps]:
  "position P (xs @ ys) =
     (case position P xs of Some i \<Rightarrow> Some i | None \<Rightarrow> map_option (\<lambda>i. length xs + i) (position P ys))"
  by (induction xs) (cases "position P ys"; auto split: option.splits)+

lemma position_None_iff: "position P xs = None \<longleftrightarrow> (\<forall>x \<in> set xs. \<not> P x)"
  by (induction xs) auto

lemma position_skip: "x \<notin> set xs \<Longrightarrow> position (\<lambda>b. b = x) (xs @ x # ys) = Some (length xs)"
  by (induction xs) auto

lemma position_absent: "x \<notin> set xs \<Longrightarrow> position (\<lambda>b. b = x) xs = None"
  by (auto simp: position_None_iff)

lemma position_SomeD:
  "position P xs = Some i \<Longrightarrow> i < length xs \<and> P (xs ! i) \<and> (\<forall>j < i. \<not> P (xs ! j))"
  by (induction xs arbitrary: i) (auto simp: less_Suc_eq_0_disj nth_Cons' split: if_splits)

lemma position_takeWhile:
  "position P xs = Some i \<Longrightarrow> take i xs = takeWhile (\<lambda>x. \<not> P x) xs"
  by (induction xs arbitrary: i) (auto split: if_splits)

lemma split_on_nonempty [simp]: "split_on x s \<noteq> []"
  by (induction s) (auto split: list.splits)

lemma split_on_append:
  "x \<notin> set p \<Longrightarrow> split_on x (p @ x # s) = p # split_on x s"
  by (induction p) auto

lemma split_on_absent: "x \<notin> set p \<Longrightarrow> split_on x p = [p]"
  by (induction p) auto

lemma split_on_join:
  "ps \<noteq> [] \<Longrightarrow> \<forall>p \<in> set ps. x \<notin> set p \<Longrightarrow> split_on x (join [x] ps) = ps"
  by (induction "[x]" ps rule: join.induct) (auto simp: split_on_absent split_on_append)

lemma join_split_on: "join [x] (split_on x s) = s"
proof (induction s)
  case Nil
  then show ?case by simp
next
  case (Cons c cs)
  show ?case
  proof (cases "split_on x cs")
    case Nil
    then show ?thesis by simp
  next
    case (Cons q qs)
    with Cons.IH show ?thesis by (cases qs) auto
  qed
qed

lemma split_on_parts: "p \<in> set (split_on x s) \<Longrightarrow> x \<notin> set p"
  by (induction s arbitrary: p) (auto split: list.splits if_splits)

lemma split_once_skip: "x \<notin> set a \<Longrightarrow> split_once x (a @ x # b) = Some (a, b)"
  by (simp add: split_once_def position_skip)

lemma rsplit_once_skip: "x \<notin> set b \<Longrightarrow> rsplit_once x (a @ x # b) = Some (a, b)"
  using position_skip [of x "rev b" "rev a"] by (simp add: rsplit_once_def rposition_def)

lemma rsplit_once_None_iff: "rsplit_once x s = None \<longleftrightarrow> x \<notin> set s"
  by (auto simp: rsplit_once_def rposition_def position_None_iff)

lemma rsplit_once_SomeD: "rsplit_once x s = Some (a, b) \<Longrightarrow> s = a @ x # b \<and> x \<notin> set b"
proof -
  assume eq: "rsplit_once x s = Some (a, b)"
  then have "x \<in> set s" using rsplit_once_None_iff [of x s] by fastforce
  then obtain a' b' where "s = a' @ x # b'" "x \<notin> set b'" by (metis split_list_last)
  with eq show ?thesis by (simp add: rsplit_once_skip)
qed

lemma split_on_concat: "split_on x (a @ x # s) = split_on x a @ split_on x s"
proof (induction a)
  case (Cons c a)
  then show ?case by (cases "split_on x a") auto
qed simp

lemma rsplit_next_skip: "x \<notin> set b \<Longrightarrow> rsplit_next x (a @ x # b) = b"
  by (simp add: rsplit_next_def split_on_concat split_on_absent)

lemma rsplit_next_absent: "x \<notin> set b \<Longrightarrow> rsplit_next x b = b"
  by (simp add: rsplit_next_def split_on_absent)

subsection \<open>Integers as text\<close>

lemma digits_value_snoc: "digits_value (ds @ [c]) = 10 * digits_value ds + (byte c - 48)"
  by (simp add: digits_value_def)

lemma nat_to_string_digits: "list_all is_ascii_digit (nat_to_string n)"
proof (induction n rule: nat_to_string.induct)
  case (1 n)
  have "n mod 10 < 10" by simp
  with 1 show ?case
    by (subst nat_to_string.simps) (auto simp: is_ascii_digit_def list_all_iff)
qed

lemma nat_to_string_nonempty [simp]: "nat_to_string n \<noteq> []"
  by (subst nat_to_string.simps) simp

lemma digits_value_nat_to_string: "digits_value (nat_to_string n) = n"
proof (induction n rule: nat_to_string.induct)
  case (1 n)
  have "n mod 10 < 10" by simp
  with 1 show ?case
    by (subst nat_to_string.simps) (auto simp: digits_value_snoc digits_value_def)
qed

lemma nat_to_string_inj: "nat_to_string m = nat_to_string n \<longleftrightarrow> m = n"
  by (metis digits_value_nat_to_string)

lemma digit_not: "is_ascii_digit c \<Longrightarrow> c \<noteq> CHR ''+''" "is_ascii_digit c \<Longrightarrow> c \<noteq> CHR '':''"
  "is_ascii_digit c \<Longrightarrow> c \<noteq> CHR ''-''" "is_ascii_digit c \<Longrightarrow> c \<noteq> CHR ''$''"
  by (auto simp: is_ascii_digit_def byte_def)

lemma parse_unsigned_digits:
  assumes "ds \<noteq> []" and "list_all is_ascii_digit ds"
  shows "parse_unsigned bound ds = (if digits_value ds < bound then Some (digits_value ds) else None)"
  using assms by (cases ds) (auto simp: parse_unsigned_def dest: digit_not)

lemma parse_unsigned_nat_to_string:
  "n < bound \<Longrightarrow> parse_unsigned bound (nat_to_string n) = Some n"
  by (simp add: parse_unsigned_digits nat_to_string_digits digits_value_nat_to_string)

lemma parse_unsigned_bound: "parse_unsigned bound s = Some n \<Longrightarrow> n < bound"
  by (auto simp: parse_unsigned_def Let_def split: if_splits)

lemma parse_i64_int_to_string:
  assumes "- (2 ^ 63) \<le> n" and "n < 2 ^ 63"
  shows "parse_i64 (int_to_string n) = Some n"
proof -
  have ne: "nat_to_string k \<noteq> [] \<and> list_all is_ascii_digit (nat_to_string k)" for k
    by (simp add: nat_to_string_digits)
  then have "\<not> starts_with (nat_to_string k) ''-''" "\<not> starts_with (nat_to_string k) ''+''" for k
    using ne [of k] by (cases "nat_to_string k"; auto dest: digit_not)+
  with ne assms show ?thesis
    by (auto simp: parse_i64_def int_to_string_def digits_value_nat_to_string)
qed

lemma int_to_string_chars: "c \<in> set (int_to_string n) \<Longrightarrow> c = CHR ''-'' \<or> is_ascii_digit c"
  using nat_to_string_digits by (auto simp: int_to_string_def list_all_iff split: if_splits)

lemma from_utf8_lossy_high:
  "\<not> valid_utf8 s \<Longrightarrow> \<exists>c \<in> set (from_utf8_lossy s). 128 \<le> byte c"
proof (induction s rule: from_utf8_lossy.induct)
  case (2 c cs)
  obtain ok n where step: "utf8_step (c # cs) = (ok, n)" by fastforce
  have "\<exists>c \<in> set replacement_char. 128 \<le> byte c" by (simp add: replacement_char_def byte_def)
  with 2 step show ?case
    by (cases ok) (auto simp: valid_utf8.simps(2) from_utf8_lossy.simps(2))
qed simp

lemma ascii_lower_high: "128 \<le> byte c \<Longrightarrow> ascii_lower c = c"
  by (simp add: ascii_lower_def)

lemma ascii_lower_ascii: "byte c < 128 \<Longrightarrow> byte (ascii_lower c) < 128"
  by (simp add: ascii_lower_def)

lemma lossy_not_ascii_name:
  assumes "\<not> valid_utf8 n" and "list_all (\<lambda>c. byte c < 128) t"
  shows "\<not> eq_ignore_ascii_case (from_utf8_lossy n) t"
proof
  assume "eq_ignore_ascii_case (from_utf8_lossy n) t"
  then have "ascii_lower ` set (from_utf8_lossy n) = ascii_lower ` set t"
    by (metis eq_ignore_ascii_case_def to_ascii_lowercase_def set_map)
  moreover obtain c where "c \<in> set (from_utf8_lossy n)" "128 \<le> byte c"
    using from_utf8_lossy_high [OF assms(1)] by blast
  ultimately have "c \<in> ascii_lower ` set t" by (metis ascii_lower_high imageI)
  with assms(2) \<open>128 \<le> byte c\<close> show False
    by (fastforce simp: list_all_iff dest: ascii_lower_ascii)
qed

subsection \<open>The memchr interface\<close>

lemma memchr_specD: "memchr_spec mc \<Longrightarrow> mc = memchr_ref"
  by (auto simp: memchr_spec_def memchr_ref_def fun_eq_iff)

lemma memchr_spec_ref [simp]: "memchr_spec memchr_ref"
  by (simp add: memchr_spec_def memchr_ref_def)

end
