(* ===== verification/Ilp_Keys.thy ===== *)
theory Ilp_Keys
  imports Router_Prelude
begin

text \<open>
  Key extraction from ILP lines, \<open>routing/keys.rs\<close>: the measurement name and the value of the
  shard-key tag of the first line of a payload. \<open>Cow\<close> keeps apart the two outcomes of the source,
  a slice of the input and a freshly built string; \<open>mc\<close> is the third-party \<open>memchr\<close>.
\<close>

datatype Cow = Borrowed string | Owned string

fun into_owned :: "Cow \<Rightarrow> string" where
  "into_owned (Borrowed s) = s"
| "into_owned (Owned s) = s"

definition line_end :: "memchr_fn \<Rightarrow> bytes \<Rightarrow> nat" where
  "line_end mc body = (case mc NL body of Some i \<Rightarrow> i | None \<Rightarrow> length body)"

definition measurement_from_ilp_bytes :: "memchr_fn \<Rightarrow> bytes \<Rightarrow> string option" where
  "measurement_from_ilp_bytes mc body =
     (if body = [] then None
      else let line = take (line_end mc body) body;
               name_end = min (case mc CHR '','' line of Some i \<Rightarrow> i | None \<Rightarrow> length line)
                              (case mc CHR '' '' line of Some i \<Rightarrow> i | None \<Rightarrow> length line)
           in if name_end = 0 then None else from_utf8 (take name_end line))"

definition measurement_from_ilp :: "memchr_fn \<Rightarrow> bytes \<Rightarrow> string option" where
  "measurement_from_ilp mc body = measurement_from_ilp_bytes mc body"

definition tag_name_eq :: "bytes \<Rightarrow> string \<Rightarrow> bool" where
  "tag_name_eq name tag_name =
     (case from_utf8 name of None \<Rightarrow> False | Some n \<Rightarrow> eq_ignore_ascii_case n tag_name)"

definition tag_value :: "bytes \<Rightarrow> Cow" where
  "tag_value value =
     (case from_utf8 value of Some s \<Rightarrow> Borrowed s | None \<Rightarrow> Owned (from_utf8_lossy value))"

text \<open>The loop over the comma-separated tags; \<open>None\<close> when it runs to its end.\<close>

fun find_tag :: "memchr_fn \<Rightarrow> string \<Rightarrow> bytes list \<Rightarrow> Cow option" where
  "find_tag mc tag_name [] = None"
| "find_tag mc tag_name (tag # tags) =
     (case mc CHR ''='' tag of
        Some eq \<Rightarrow> if tag_name_eq (take eq tag) tag_name then Some (tag_value (drop (eq + 1) tag))
                   else find_tag mc tag_name tags
      | None \<Rightarrow> find_tag mc tag_name tags)"

definition shard_key_from_ilp_cow :: "memchr_fn \<Rightarrow> bytes \<Rightarrow> string \<Rightarrow> Cow" where
  "shard_key_from_ilp_cow mc body tag_name =
     (if body = [] then Owned tag_name
      else let line = take (line_end mc body) body
           in case mc CHR '','' line of
                None \<Rightarrow> Owned tag_name
              | Some tags_start \<Rightarrow>
                  let tags = drop (tags_start + 1) line;
                      tag_section = (case mc CHR '' '' tags of Some sp \<Rightarrow> take sp tags | None \<Rightarrow> tags)
                  in case find_tag mc tag_name (split_on CHR '','' tag_section) of
                       Some c \<Rightarrow> c | None \<Rightarrow> Owned tag_name)"

definition shard_key_from_ilp :: "memchr_fn \<Rightarrow> bytes \<Rightarrow> string \<Rightarrow> string" where
  "shard_key_from_ilp mc body tag_name = into_owned (shard_key_from_ilp_cow mc body tag_name)"

section \<open>Rendered lines\<close>

text \<open>
  The reference side of the round trip: a line rendered from a measurement, a list of tags and the
  rest of the line (fields and timestamp).
\<close>

definition render_tag :: "bytes \<times> bytes \<Rightarrow> bytes" where
  "render_tag nv = fst nv @ CHR ''='' # snd nv"

definition render_line :: "bytes \<Rightarrow> (bytes \<times> bytes) list \<Rightarrow> bytes \<Rightarrow> bytes" where
  "render_line m tags rest =
     m @ CHR '','' # join [CHR '',''] (map render_tag tags) @ CHR '' '' # rest"

definition plain_tag :: "bytes \<times> bytes \<Rightarrow> bool" where
  "plain_tag nv \<longleftrightarrow>
     set (fst nv) \<inter> {CHR '','', CHR '' '', CHR ''='', NL} = {}
   \<and> set (snd nv) \<inter> {CHR '','', CHR '' '', NL} = {}"

definition plain_name :: "bytes \<Rightarrow> bool" where
  "plain_name m \<longleftrightarrow> set m \<inter> {CHR '','', CHR '' '', NL} = {}"

section \<open>Lemmas\<close>

lemma line_end_ref: "take (line_end memchr_ref body) body = takeWhile (\<lambda>b. b \<noteq> NL) body"
proof (cases "position (\<lambda>b. b = NL) body")
  case None
  then have "\<forall>b \<in> set body. b \<noteq> NL" by (simp add: position_None_iff)
  then have "takeWhile (\<lambda>b. b \<noteq> NL) body = body" by (simp add: takeWhile_eq_all_conv)
  moreover from None have "take (line_end memchr_ref body) body = body"
    by (simp add: line_end_def memchr_ref_def)
  ultimately show ?thesis by (simp only:)
next
  case (Some i)
  then show ?thesis by (simp add: line_end_def memchr_ref_def position_takeWhile)
qed

lemma first_line_append:
  "takeWhile (\<lambda>b. b \<noteq> NL) (l @ NL # rest) = takeWhile (\<lambda>b. b \<noteq> NL) l"
  by (induction l) auto

lemma shard_key_first_line:
  "shard_key_from_ilp_cow memchr_ref body tag =
     shard_key_from_ilp_cow memchr_ref (takeWhile (\<lambda>b. b \<noteq> NL) body) tag"
proof -
  let ?l = "takeWhile (\<lambda>b. b \<noteq> NL) body"
  have "takeWhile (\<lambda>b. b \<noteq> NL) ?l = ?l" by (simp only: takeWhile_idem)
  then show ?thesis
    by (simp add: shard_key_from_ilp_cow_def line_end_ref Let_def memchr_ref_def)
qed

lemma measurement_first_line:
  "measurement_from_ilp_bytes memchr_ref body = measurement_from_ilp_bytes memchr_ref (takeWhile (\<lambda>b. b \<noteq> NL) body)"
proof -
  let ?l = "takeWhile (\<lambda>b. b \<noteq> NL) body"
  have "takeWhile (\<lambda>b. b \<noteq> NL) ?l = ?l" by (simp only: takeWhile_idem)
  then show ?thesis
    by (auto simp: measurement_from_ilp_bytes_def line_end_ref Let_def memchr_ref_def min_def)
qed

lemma find_tag_rendered:
  "\<forall>nv \<in> set tags. plain_tag nv \<Longrightarrow>
     find_tag memchr_ref t (map render_tag tags) =
       map_option (\<lambda>nv. tag_value (snd nv)) (find (\<lambda>nv. tag_name_eq (fst nv) t) tags)"
  by (induction tags)
    (auto simp: memchr_ref_def render_tag_def plain_tag_def position_skip)

lemma join_chars:
  "c \<in> set (join sep ps) \<Longrightarrow> c \<in> set sep \<or> (\<exists>p \<in> set ps. c \<in> set p)"
  by (induction sep ps rule: join.induct) auto

lemma rendered_no_space:
  "\<forall>nv \<in> set tags. plain_tag nv \<Longrightarrow>
     CHR '' '' \<notin> set (join [CHR '',''] (map render_tag tags))
   \<and> NL \<notin> set (join [CHR '',''] (map render_tag tags))"
  by (fastforce dest!: join_chars simp: render_tag_def plain_tag_def)

lemma rendered_no_comma: "plain_tag nv \<Longrightarrow> CHR '','' \<notin> set (render_tag nv)"
  by (auto simp: render_tag_def plain_tag_def)

lemma into_owned_tag_value: "into_owned (tag_value v) = from_utf8_lossy v"
  by (auto simp: tag_value_def from_utf8_def)

lemma shard_key_rendered_line:
  assumes "plain_name m" and "tags \<noteq> []" and plain: "\<forall>nv \<in> set tags. plain_tag nv"
    and "NL \<notin> set rest"
  shows "shard_key_from_ilp_cow memchr_ref (render_line m tags rest) t =
    (case find (\<lambda>nv. tag_name_eq (fst nv) t) tags of
       Some nv \<Rightarrow> tag_value (snd nv) | None \<Rightarrow> Owned t)"
proof -
  let ?ts = "join [CHR '',''] (map render_tag tags)"
  note nosp = rendered_no_space [OF plain]
  have line: "takeWhile (\<lambda>b. b \<noteq> NL) (render_line m tags rest) = render_line m tags rest"
    using assms nosp by (auto simp: render_line_def plain_name_def takeWhile_eq_all_conv)
  have comma: "memchr_ref CHR '','' (render_line m tags rest) = Some (length m)"
    using assms(1) by (simp add: memchr_ref_def render_line_def position_skip plain_name_def)
  have space: "memchr_ref CHR '' '' (?ts @ CHR '' '' # rest) = Some (length ?ts)"
    using nosp by (simp add: memchr_ref_def position_skip)
  have pieces: "split_on CHR '','' ?ts = map render_tag tags"
    using assms(2) plain by (intro split_on_join) (auto dest: rendered_no_comma)
  have nonempty: "render_line m tags rest \<noteq> []" by (simp add: render_line_def)
  have tags_part: "drop (Suc (length m)) (render_line m tags rest) = ?ts @ CHR '' '' # rest"
    by (simp add: render_line_def)
  show ?thesis
    by (simp add: shard_key_from_ilp_cow_def line_end_ref line nonempty comma space
        pieces tags_part find_tag_rendered [OF plain] split: option.splits)
qed

lemma measurement_rendered_line:
  assumes "plain_name m" and "m \<noteq> []" and "valid_utf8 m" and "\<forall>nv \<in> set tags. plain_tag nv"
    and "NL \<notin> set rest"
  shows "measurement_from_ilp_bytes memchr_ref (render_line m tags rest) = Some m"
proof -
  note nosp = rendered_no_space [OF assms(4)]
  have line: "takeWhile (\<lambda>b. b \<noteq> NL) (render_line m tags rest) = render_line m tags rest"
    using assms nosp by (auto simp: render_line_def plain_name_def takeWhile_eq_all_conv)
  have comma: "memchr_ref CHR '','' (render_line m tags rest) = Some (length m)"
    using assms(1) by (simp add: memchr_ref_def render_line_def position_skip plain_name_def)
  have "length m \<le> (case memchr_ref CHR '' '' (render_line m tags rest) of
      Some i \<Rightarrow> i | None \<Rightarrow> length (render_line m tags rest))"
    using assms(1)
    by (auto simp: render_line_def memchr_ref_def position_append plain_name_def position_absent
        split: option.splits)
  moreover have "render_line m tags rest \<noteq> []" "take (length m) (render_line m tags rest) = m"
    by (simp_all add: render_line_def)
  ultimately show ?thesis
    using assms(2,3) by (simp add: measurement_from_ilp_bytes_def line_end_ref line comma)
qed


end
