(* ===== verification/Router_Config.thy ===== *)
theory Router_Config
  imports Router_Prelude
begin

text \<open>
  The configuration component, \<open>config/mod.rs\<close>: the structures that are read from TOML, their
  defaults, the \<open>host:port\<close> endpoints and the checks \<open>Config::from_file\<close> makes after the
  third-party configuration loader (the parameter \<open>load\<close>) has returned. Every field of a record
  carries a short prefix naming its structure, since HOL field names are global.
\<close>

section \<open>Data\<close>

datatype IpAddr = V4 "32 word" | V6 "128 word"

record SocketAddr =
  sa_ip :: IpAddr
  sa_port :: u16

datatype Endpoint = Endpoint (as_str: string)

record ShardConfig =
  sc_id :: u32
  sc_ilp_address :: Endpoint
  sc_pg_address :: Endpoint
  sc_weight :: u32
  sc_virtual_nodes :: u32

record ListenConfig =
  lc_ilp :: SocketAddr
  lc_pg :: SocketAddr
  lc_stream :: "SocketAddr option"

record ColumnConfig =
  cc_name :: string
  cc_type_name :: string

record TableRoutingConfig =
  tc_name :: string
  tc_sharded :: bool
  tc_shard_key :: "string option"
  tc_columns :: "ColumnConfig list"

record RoutingConfig =
  rc_shard_key :: string
  rc_federated_enabled :: bool
  rc_max_federated_rows :: u64
  rc_scan_allow_order_by :: bool
  rc_pg_pool_size :: nat
  rc_tables :: "TableRoutingConfig list"

record PgAuthConfig =
  pa_user :: string
  pa_password :: string
  pa_database :: string

record HealthCheckConfig =
  hc_interval_secs :: u64
  hc_timeout_secs :: u64
  hc_exclude_unhealthy :: bool
  hc_min_healthy_shards :: nat

record MetricsConfig =
  mc_enabled :: bool
  mc_address :: "SocketAddr option"

record StreamConfig =
  st_enabled :: bool
  st_broadcast_capacity :: nat
  st_replay_window :: nat
  st_topic_tags :: "string list"
  st_topic_missing :: string
  st_max_client_lag_drops :: u32

record RustFsConfig =
  rf_endpoint :: "string option"
  rf_bucket :: "string option"
  rf_prefix :: string
  rf_access_key :: "string option"
  rf_secret_key :: "string option"
  rf_region :: string
  rf_allow_http :: bool

record IngestCheckpointConfig =
  ic_path :: string

record IngestReconcileConfig =
  ir_enabled :: bool
  ir_interval_secs :: u64
  ir_startup_scan :: bool

record NautilusIngestConfig =
  ni_trade_table :: string
  ni_quote_table :: string

record IngestConfig =
  ig_enabled :: bool
  ig_listen :: "SocketAddr option"
  ig_mailbox_capacity :: nat
  ig_rustfs :: RustFsConfig
  ig_checkpoint :: IngestCheckpointConfig
  ig_reconcile :: IngestReconcileConfig
  ig_nautilus :: NautilusIngestConfig

record Config =
  cfg_listen :: ListenConfig
  cfg_shards :: "ShardConfig list"
  cfg_routing :: RoutingConfig
  cfg_pg :: PgAuthConfig
  cfg_health_check :: HealthCheckConfig
  cfg_metrics :: MetricsConfig
  cfg_stream :: StreamConfig
  cfg_ingest :: IngestConfig

section \<open>Defaults\<close>

definition default_weight :: u32 where "default_weight = 1"
definition default_vnodes :: u32 where "default_vnodes = 128"

definition default_pg_auth :: PgAuthConfig where
  "default_pg_auth = \<lparr> pa_user = ''admin'', pa_password = ''quest'', pa_database = ''qdb'' \<rparr>"

text \<open>
  The sections of a configuration document in which keys may be missing, and the values that take their place.
  A key of type \<open>option\<close> here is one with a \<open>serde\<close> default; reading the document is third-party.
\<close>

definition default_table_sharded :: bool where "default_table_sharded = True"
definition default_federated_enabled :: bool where "default_federated_enabled = True"
definition default_max_federated_rows :: u64 where "default_max_federated_rows = 1000000"
definition default_pg_pool_size :: nat where "default_pg_pool_size = 4"
definition default_exclude_unhealthy :: bool where "default_exclude_unhealthy = True"
definition default_min_healthy_shards :: nat where "default_min_healthy_shards = 1"
definition default_health_interval :: u64 where "default_health_interval = 5"
definition default_health_timeout :: u64 where "default_health_timeout = 2"

definition or_default :: "'a option \<Rightarrow> 'a \<Rightarrow> 'a" where
  "or_default key d = (case key of Some v \<Rightarrow> v | None \<Rightarrow> d)"

definition read_table :: "string \<Rightarrow> bool option \<Rightarrow> string option \<Rightarrow> ColumnConfig list \<Rightarrow> TableRoutingConfig" where
  "read_table name sharded shard_key columns =
     \<lparr> tc_name = name, tc_sharded = or_default sharded default_table_sharded, tc_shard_key = shard_key, tc_columns = columns \<rparr>"

definition read_routing ::
    "string \<Rightarrow> bool option \<Rightarrow> u64 option \<Rightarrow> bool option \<Rightarrow> nat option \<Rightarrow> TableRoutingConfig list option \<Rightarrow> RoutingConfig" where
  "read_routing shard_key federated max_rows allow_order_by pool_size tables =
     \<lparr> rc_shard_key = shard_key, rc_federated_enabled = or_default federated default_federated_enabled,
       rc_max_federated_rows = or_default max_rows default_max_federated_rows,
       rc_scan_allow_order_by = or_default allow_order_by False,
       rc_pg_pool_size = or_default pool_size default_pg_pool_size, rc_tables = or_default tables [] \<rparr>"

definition read_health_check :: "u64 option \<Rightarrow> u64 option \<Rightarrow> bool option \<Rightarrow> nat option \<Rightarrow> HealthCheckConfig" where
  "read_health_check interval timeout exclude minimum =
     \<lparr> hc_interval_secs = or_default interval default_health_interval, hc_timeout_secs = or_default timeout default_health_timeout,
       hc_exclude_unhealthy = or_default exclude default_exclude_unhealthy,
       hc_min_healthy_shards = or_default minimum default_min_healthy_shards \<rparr>"

definition default_metrics :: MetricsConfig where
  "default_metrics = \<lparr> mc_enabled = False, mc_address = None \<rparr>"

definition default_stream :: StreamConfig where
  "default_stream =
     \<lparr> st_enabled = False, st_broadcast_capacity = 1024, st_replay_window = 1000,
       st_topic_tags = [''symbol''], st_topic_missing = ''*'', st_max_client_lag_drops = 50 \<rparr>"

definition default_rustfs :: RustFsConfig where
  "default_rustfs =
     \<lparr> rf_endpoint = None, rf_bucket = None, rf_prefix = '''', rf_access_key = None,
       rf_secret_key = None, rf_region = ''us-east-1'', rf_allow_http = True \<rparr>"

definition default_ingest_checkpoint :: IngestCheckpointConfig where
  "default_ingest_checkpoint = \<lparr> ic_path = ''./ingest.checkpoint.json'' \<rparr>"

definition default_ingest_reconcile :: IngestReconcileConfig where
  "default_ingest_reconcile =
     \<lparr> ir_enabled = True, ir_interval_secs = 300, ir_startup_scan = True \<rparr>"

definition default_nautilus :: NautilusIngestConfig where
  "default_nautilus = \<lparr> ni_trade_table = ''trade_ticks'', ni_quote_table = ''quote_ticks'' \<rparr>"

definition default_ingest :: IngestConfig where
  "default_ingest =
     \<lparr> ig_enabled = False, ig_listen = None, ig_mailbox_capacity = 256,
       ig_rustfs = default_rustfs, ig_checkpoint = default_ingest_checkpoint,
       ig_reconcile = default_ingest_reconcile, ig_nautilus = default_nautilus \<rparr>"

section \<open>Operations\<close>

definition host_port :: "Endpoint \<Rightarrow> string + (string \<times> u16)" where
  "host_port e =
     (case rsplit_once CHR '':'' (as_str e) of
        None \<Rightarrow> Inl (''invalid endpoint address: '' @ as_str e)
      | Some (host, port_str) \<Rightarrow>
          (case parse_u16 port_str of
             None \<Rightarrow> Inl (''invalid endpoint port in: '' @ as_str e)
           | Some port \<Rightarrow> Inr (host, port)))"

definition from_file :: "(string \<Rightarrow> string + Config) \<Rightarrow> string \<Rightarrow> string + Config" where
  "from_file load path =
     (case load path of
        Inl e \<Rightarrow> Inl e
      | Inr config \<Rightarrow>
          if st_enabled (cfg_stream config) \<and> lc_stream (cfg_listen config) = None then
            Inl ''stream.enabled requires listen.stream to be set''
          else if ig_enabled (cfg_ingest config) \<and> ig_listen (cfg_ingest config) = None then
            Inl ''ingest.enabled requires ingest.listen to be set''
          else Inr config)"

section \<open>Lemmas\<close>

lemma parse_u16_nat_to_string: "n < 2 ^ 16 \<Longrightarrow> parse_u16 (nat_to_string n) = Some (of_nat n)"
  by (simp add: parse_u16_def parse_unsigned_nat_to_string)

lemma colon_notin_digits: "CHR '':'' \<notin> set (nat_to_string n)"
  using nat_to_string_digits [of n] by (auto simp: list_all_iff dest: digit_not)

lemma host_port_render:
  "host_port (Endpoint (host @ '':'' @ nat_to_string (unat port))) = Inr (host, port)"
proof -
  have "unat port < 2 ^ 16" using unsigned_less [where ?'a = nat and w = port] by simp
  then show ?thesis
    by (simp add: host_port_def rsplit_once_skip colon_notin_digits parse_u16_nat_to_string)
qed

lemma host_port_InrD:
  assumes "host_port e = Inr (host, port)"
  shows "\<exists>ps. as_str e = host @ '':'' @ ps \<and> CHR '':'' \<notin> set ps \<and> parse_u16 ps = Some port"
  using assms
  by (auto simp: host_port_def split: option.splits dest: rsplit_once_SomeD)

lemma from_file_Inr_iff:
  "from_file load path = Inr config \<longleftrightarrow>
     load path = Inr config
     \<and> (st_enabled (cfg_stream config) \<longrightarrow> lc_stream (cfg_listen config) \<noteq> None)
     \<and> (ig_enabled (cfg_ingest config) \<longrightarrow> ig_listen (cfg_ingest config) \<noteq> None)"
  by (auto simp: from_file_def split: sum.splits if_splits)

end
