(* ===== verification/Table_Registry.thy ===== *)
theory Table_Registry
  imports Router_Config
begin

text \<open>
  The table registry, \<open>routing/schema.rs\<close>: routing metadata per table, keyed by the lower-cased
  table name. The hash map of the source is a HOL map; \<open>from_config\<close> inserts the configured tables
  in order, so a later table of the same name replaces an earlier one.
\<close>

record TableRegistry =
  tr_tables :: "string \<rightharpoonup> TableRoutingConfig"

definition registry_default :: TableRegistry where
  "registry_default = \<lparr> tr_tables = Map.empty \<rparr>"

definition registry_insert :: "TableRoutingConfig \<Rightarrow> (string \<rightharpoonup> TableRoutingConfig) \<Rightarrow> (string \<rightharpoonup> TableRoutingConfig)" where
  "registry_insert t m = m(to_ascii_lowercase (tc_name t) \<mapsto> t)"

definition registry_from_config :: "TableRoutingConfig list \<Rightarrow> string \<Rightarrow> TableRegistry" where
  "registry_from_config tables default_shard_key =
     \<lparr> tr_tables = fold registry_insert tables Map.empty \<rparr>"

definition registry_get :: "TableRegistry \<Rightarrow> string \<Rightarrow> TableRoutingConfig option" where
  "registry_get r name = tr_tables r (to_ascii_lowercase name)"

definition is_sharded :: "TableRegistry \<Rightarrow> string \<Rightarrow> bool" where
  "is_sharded r name = (case registry_get r name of None \<Rightarrow> True | Some t \<Rightarrow> tc_sharded t)"

definition shard_key_for :: "TableRegistry \<Rightarrow> string \<Rightarrow> string \<Rightarrow> string" where
  "shard_key_for r name dflt =
     (case registry_get r name of
        None \<Rightarrow> dflt
      | Some t \<Rightarrow> (case tc_shard_key t of None \<Rightarrow> dflt | Some k \<Rightarrow> k))"

section \<open>Lemmas\<close>

lemma registry_get_default [simp]: "registry_get registry_default name = None"
  by (simp add: registry_get_def registry_default_def)

lemma fold_registry_insert:
  "fold registry_insert ts m (to_ascii_lowercase name) =
     (case find (\<lambda>t. eq_ignore_ascii_case (tc_name t) name) (rev ts) of
        Some t \<Rightarrow> Some t | None \<Rightarrow> m (to_ascii_lowercase name))"
proof (induction ts rule: rev_induct)
  case Nil
  then show ?case by simp
next
  case (snoc t ts)
  then show ?case
    by (auto simp: registry_insert_def eq_ignore_ascii_case_def)
qed

lemma registry_get_from_config:
  "registry_get (registry_from_config ts k) name =
     find (\<lambda>t. eq_ignore_ascii_case (tc_name t) name) (rev ts)"
  by (simp add: registry_get_def registry_from_config_def fold_registry_insert split: option.splits)

lemma registry_get_case_insensitive:
  "eq_ignore_ascii_case a b \<Longrightarrow> registry_get r a = registry_get r b"
  by (simp add: registry_get_def eq_ignore_ascii_case_def)

text \<open>
  The registry answers with the configured table whose name equals the requested one up to
  ASCII case, the last one if several do, and with nothing if none does; the shard-key column of a
  name is then that table's own key, or the default when the table is unknown or declares none.
\<close>

theorem registry_lookup_is_last_match:
  "registry_get (registry_from_config ts k) name =
     find (\<lambda>t. eq_ignore_ascii_case (tc_name t) name) (rev ts)
   \<and> shard_key_for (registry_from_config ts k) name dflt =
     (case find (\<lambda>t. eq_ignore_ascii_case (tc_name t) name) (rev ts) of
        Some t \<Rightarrow> (case tc_shard_key t of Some key \<Rightarrow> key | None \<Rightarrow> dflt)
      | None \<Rightarrow> dflt)"
  by (simp add: shard_key_for_def registry_get_from_config split: option.splits)

end
