(* ===== verification/Stream_Row.thy ===== *)
theory Stream_Row
  imports Ilp_Keys Table_Registry
begin

text \<open>
  Rows of the live stream, \<open>stream/row.rs\<close>, and their topics, \<open>stream/topic.rs\<close>: the ILP line parser
  of the stream side, which is separate from the key extraction of the routing side.

  A float field carries the text it was parsed from, accepted by the grammar of \<open>f64::from_str\<close>; the
  number that text denotes plays no role before the row is encoded.
\<close>

datatype IlpField = Float string | Integer int | Bool bool | String string

record IlpRow =
  row_measurement :: string
  row_tags :: "(string \<times> string) list"
  row_fields :: "(string \<times> IlpField) list"
  row_timestamp_ns :: "int option"

abbreviation DQUOTE :: char where
  "DQUOTE \<equiv> CHR 0x22"

section \<open>Parsing\<close>

definition split_at_first :: "memchr_fn \<Rightarrow> bytes \<Rightarrow> char \<Rightarrow> (bytes \<times> bytes) option" where
  "split_at_first mc haystack needle =
     map_option (\<lambda>i. (take i haystack, drop (i + 1) haystack)) (mc needle haystack)"

definition parse_scalar :: "string \<Rightarrow> IlpField option" where
  "parse_scalar s =
     (if s \<in> {''t'', ''T'', ''true'', ''TRUE''} then Some (Bool True)
      else if s \<in> {''f'', ''F'', ''false'', ''FALSE''} then Some (Bool False)
      else if is_f64_text s then Some (Float s) else None)"

definition parse_field_value :: "bytes \<Rightarrow> IlpField option" where
  "parse_field_value raw =
     (if raw = [] then None
      else if hd raw = DQUOTE then
        (if length raw - 1 < 1 then None
         else Some (String (from_utf8_lossy (take (length raw - 2) (drop 1 raw)))))
      else if ends_with raw ''i'' \<and> 1 < length raw then
        (case from_utf8 (take (length raw - 1) raw) of
           None \<Rightarrow> None
         | Some s \<Rightarrow> map_option Integer (parse_i64 s))
      else (case from_utf8 raw of None \<Rightarrow> None | Some s \<Rightarrow> parse_scalar s))"

text \<open>One iteration of the tag loop and of the field loop: the entry pushed, if any.\<close>

definition parse_tag :: "memchr_fn \<Rightarrow> bytes \<Rightarrow> (string \<times> string) option" where
  "parse_tag mc tag =
     map_option (\<lambda>eq. (from_utf8_lossy (take eq tag), from_utf8_lossy (drop (eq + 1) tag)))
       (mc CHR ''='' tag)"

definition parse_field :: "memchr_fn \<Rightarrow> bytes \<Rightarrow> (string \<times> IlpField) option" where
  "parse_field mc field =
     (case mc CHR ''='' field of
        None \<Rightarrow> None
      | Some eq \<Rightarrow>
          map_option (\<lambda>v. (from_utf8_lossy (take eq field), v)) (parse_field_value (drop (eq + 1) field)))"

definition parse_tags :: "memchr_fn \<Rightarrow> bytes \<Rightarrow> (string \<times> string) list" where
  "parse_tags mc section =
     (if section = [] then [] else List.map_filter (parse_tag mc) (split_on CHR '','' section))"

definition parse_fields :: "memchr_fn \<Rightarrow> bytes \<Rightarrow> (string \<times> IlpField) list" where
  "parse_fields mc section =
     (if section = [] then [] else List.map_filter (parse_field mc) (split_on CHR '','' section))"

definition split_timestamp :: "bytes \<Rightarrow> bytes \<times> int option" where
  "split_timestamp section =
     (if section = [] then (section, None)
      else let sp = rposition (\<lambda>b. b = CHR '' '') section;
               ts_start = (case sp of Some i \<Rightarrow> i + 1 | None \<Rightarrow> length section);
               ts = (if ts_start < length section then
                       (case from_utf8 (drop ts_start section) of
                          None \<Rightarrow> None | Some s \<Rightarrow> parse_i64 s)
                     else None);
               fields_end = (case sp of Some i \<Rightarrow> i | None \<Rightarrow> length section)
           in (take fields_end section, ts))"

definition parse_ilp_row :: "memchr_fn \<Rightarrow> bytes \<Rightarrow> IlpRow option" where
  "parse_ilp_row mc line0 =
     (if line0 = [] then None
      else let line = (case strip_suffix line0 [NL] of Some l \<Rightarrow> l | None \<Rightarrow> line0)
           in if line = [] then None
              else case split_at_first mc line CHR '','' of
                     None \<Rightarrow> None
                   | Some (measurement, rest) \<Rightarrow>
                       if measurement = [] then None
                       else let (tags_section, fields_section) =
                                  (case mc CHR '' '' rest of
                                     Some space \<Rightarrow> (take space rest, drop (space + 1) rest)
                                   | None \<Rightarrow> (rest, []));
                                (fields_bytes, timestamp_ns) = split_timestamp fields_section
                            in Some \<lparr> row_measurement = from_utf8_lossy measurement,
                                      row_tags = parse_tags mc tags_section,
                                      row_fields = parse_fields mc fields_bytes,
                                      row_timestamp_ns = timestamp_ns \<rparr>)"

section \<open>Topics\<close>

definition topic_part :: "IlpRow \<Rightarrow> StreamConfig \<Rightarrow> string \<Rightarrow> string" where
  "topic_part row config tag =
     (case find (\<lambda>nv. eq_ignore_ascii_case (fst nv) tag) (row_tags row) of
        Some nv \<Rightarrow> snd nv | None \<Rightarrow> st_topic_missing config)"

definition derive_topic :: "IlpRow \<Rightarrow> StreamConfig \<Rightarrow> string" where
  "derive_topic row config = join ''@'' (map (topic_part row config) (st_topic_tags config))"

definition is_broadcastable :: "string \<Rightarrow> TableRegistry \<Rightarrow> bool" where
  "is_broadcastable measurement registry =
     (case registry_get registry measurement of Some t \<Rightarrow> tc_sharded t | None \<Rightarrow> False)"

section \<open>Rendered rows\<close>

text \<open>
  The reference side of the round trip: the text of a row, and the rows whose text is unambiguous
  (names and values are valid UTF-8 without the separators of their section; integers fit 64 bits).
\<close>

fun render_field_value :: "IlpField \<Rightarrow> bytes" where
  "render_field_value (Float s) = s"
| "render_field_value (Integer n) = int_to_string n @ ''i''"
| "render_field_value (Bool b) = (if b then ''t'' else ''f'')"
| "render_field_value (String s) = [DQUOTE] @ s @ [DQUOTE]"

definition render_field :: "string \<times> IlpField \<Rightarrow> bytes" where
  "render_field nf = fst nf @ CHR ''='' # render_field_value (snd nf)"

definition render_row :: "IlpRow \<Rightarrow> bytes" where
  "render_row row =
     render_line (row_measurement row) (row_tags row)
       (join [CHR '',''] (map render_field (row_fields row)) @
        (case row_timestamp_ns row of Some ts \<Rightarrow> CHR '' '' # int_to_string ts | None \<Rightarrow> []))"

fun plain_field_value :: "IlpField \<Rightarrow> bool" where
  "plain_field_value (Float s) = is_f64_text s"
| "plain_field_value (Integer n) = (- (2 ^ 63) \<le> n \<and> n < 2 ^ 63)"
| "plain_field_value (Bool b) = True"
| "plain_field_value (String s) = (valid_utf8 s \<and> set s \<inter> {CHR '','', CHR '' '', NL} = {})"

definition plain_field :: "string \<times> IlpField \<Rightarrow> bool" where
  "plain_field nf \<longleftrightarrow>
     valid_utf8 (fst nf) \<and> set (fst nf) \<inter> {CHR '','', CHR '' '', CHR ''='', NL} = {}
   \<and> plain_field_value (snd nf)"

definition plain_row :: "IlpRow \<Rightarrow> bool" where
  "plain_row row \<longleftrightarrow>
     plain_name (row_measurement row) \<and> row_measurement row \<noteq> [] \<and> valid_utf8 (row_measurement row)
   \<and> row_tags row \<noteq> [] \<and> row_fields row \<noteq> []
   \<and> (\<forall>nv \<in> set (row_tags row). plain_tag nv \<and> valid_utf8 (fst nv) \<and> valid_utf8 (snd nv))
   \<and> (\<forall>nf \<in> set (row_fields row). plain_field nf)
   \<and> (case row_timestamp_ns row of Some ts \<Rightarrow> - (2 ^ 63) \<le> ts \<and> ts < 2 ^ 63 | None \<Rightarrow> True)"

section \<open>Lemmas\<close>

subsection \<open>The characters of a float\<close>

lemma strip_sign_chars: "c \<in> set s \<Longrightarrow> c \<in> set (strip_sign s) \<or> c = CHR ''+'' \<or> c = CHR ''-''"
  by (cases s) (auto simp: strip_sign_def)

lemma exponent_chars:
  "exponent_ok s \<Longrightarrow> c \<in> set s \<Longrightarrow> is_ascii_digit c \<or> c \<in> set ''eE+-''"
  using strip_sign_chars [of c "tl s"] by (cases s) (auto simp: exponent_ok_def list_all_iff)

lemma number_chars:
  assumes "number_ok s" and "c \<in> set s"
  shows "is_ascii_digit c \<or> c \<in> set ''.eE+-''"
proof -
  have split: "set t = set (takeWhile is_ascii_digit t) \<union> set (dropWhile is_ascii_digit t)" for t
    by (metis set_append takeWhile_dropWhile_id)
  consider "c \<in> set (takeWhile is_ascii_digit s)" | "c \<in> set (dropWhile is_ascii_digit s)"
    using assms(2) split [of s] by blast
  then show ?thesis
  proof cases
    case 1
    then show ?thesis by (auto dest: set_takeWhileD)
  next
    case 2
    then obtain d ds where d: "dropWhile is_ascii_digit s = d # ds" "c = d \<or> c \<in> set ds"
      by (cases "dropWhile is_ascii_digit s") auto
    show ?thesis
    proof (cases "d = CHR ''.''")
      case True
      with assms(1) d(1) have "exponent_ok (dropWhile is_ascii_digit ds)"
        by (auto simp: number_ok_def Let_def)
      with d(2) True split [of ds] show ?thesis by (auto dest: set_takeWhileD exponent_chars)
    next
      case False
      with assms(1) d(1) have "exponent_ok (d # ds)" by (auto simp: number_ok_def Let_def)
      with d(2) show ?thesis by (auto dest!: exponent_chars [where c = c])
    qed
  qed
qed

definition float_char :: "char \<Rightarrow> bool" where
  "float_char c \<longleftrightarrow> is_ascii_digit c \<or> c \<in> set ''.+-'' \<or> ascii_lower c \<in> set ''infinityaed''"

lemma f64_chars:
  assumes "is_f64_text s" and "c \<in> set s"
  shows "float_char c"
proof -
  let ?b = "strip_sign s"
  have word: "float_char c" if "to_ascii_lowercase ?b = w" "set w \<subseteq> set ''infinityaed''" for w
  proof -
    from that have "ascii_lower ` set ?b \<subseteq> set ''infinityaed''"
      by (metis set_map to_ascii_lowercase_def)
    then have "float_char c" if "c \<in> set ?b" using that unfolding float_char_def by blast
    moreover have "float_char CHR ''+''" "float_char CHR ''-''" by (simp_all add: float_char_def)
    ultimately show ?thesis using strip_sign_chars [OF assms(2)] by blast
  qed
  have low: "ascii_lower CHR ''E'' = CHR ''e''" "ascii_lower CHR ''e'' = CHR ''e''"
    by code_simp+
  have num: "float_char c" if "number_ok ?b"
    using strip_sign_chars [OF assms(2)] number_chars [OF that, of c] low by (auto simp: float_char_def)
  from assms(1) show ?thesis
    using word [of "''inf''"] word [of "''infinity''"] word [of "''nan''"] num
    by (auto simp: is_f64_text_def Let_def)
qed

lemma not_float_chars:
  "\<not> float_char CHR '',''" "\<not> float_char CHR '' ''" "\<not> float_char NL" "\<not> float_char DQUOTE"
  by (simp_all add: float_char_def is_ascii_digit_def byte_def ascii_lower_def)

lemma float_char_ascii: "float_char c \<Longrightarrow> byte c < 128"
  by (cases "byte c < 128") (auto simp: float_char_def ascii_lower_high is_ascii_digit_def byte_def)

lemma f64_not_word [simp]:
  "\<not> is_f64_text []" "\<not> is_f64_text ''t''" "\<not> is_f64_text ''T''" "\<not> is_f64_text ''true''"
  "\<not> is_f64_text ''TRUE''" "\<not> is_f64_text ''f''" "\<not> is_f64_text ''F''" "\<not> is_f64_text ''false''"
  "\<not> is_f64_text ''FALSE''"
  by code_simp+

lemma strip_sign_last: "strip_sign s \<noteq> [] \<Longrightarrow> last (strip_sign s) = last s"
  by (cases s) (auto simp: strip_sign_def)

lemma f64_last:
  assumes "is_f64_text s"
  shows "last s \<noteq> CHR ''i''"
proof -
  let ?b = "strip_sign s"
  have word: "last s \<noteq> CHR ''i''" if "to_ascii_lowercase ?b = w" "w \<noteq> []" "last w \<noteq> CHR ''i''" for w
  proof -
    from that have "?b \<noteq> []" by (auto simp: to_ascii_lowercase_def)
    moreover from this that have "ascii_lower (last ?b) = last w"
      by (metis last_map to_ascii_lowercase_def)
    ultimately have "ascii_lower (last s) \<noteq> CHR ''i''"
      using that(3) strip_sign_last [of s] by simp
    then show ?thesis by (auto simp: ascii_lower_def byte_def)
  qed
  have num: "last s \<noteq> CHR ''i''" if "number_ok ?b"
  proof -
    from that have "?b \<noteq> []" by (auto simp: number_ok_def Let_def)
    then show ?thesis
      using number_chars [OF that, of "last s"] strip_sign_last [of s] last_in_set [of ?b]
      by (auto simp: is_ascii_digit_def byte_def)
  qed
  from assms show ?thesis
    using word [of "''inf''"] word [of "''infinity''"] word [of "''nan''"] num
    by (auto simp: is_f64_text_def Let_def)
qed

subsection \<open>Fields and tags\<close>

lemma ends_with_single: "ends_with s [c] \<longleftrightarrow> s \<noteq> [] \<and> last s = c"
  by (cases s rule: rev_cases) (auto simp: ends_with_iff)

lemma int_to_string_nonempty [simp]: "int_to_string n \<noteq> []"
  by (simp add: int_to_string_def)

lemma int_to_string_ascii: "list_all (\<lambda>c. byte c < 128) (int_to_string n)"
  by (auto simp: list_all_iff is_ascii_digit_def byte_def dest!: int_to_string_chars)

lemma int_to_string_hd [simp]: "hd (int_to_string n) \<noteq> DQUOTE"
  using int_to_string_chars [of "hd (int_to_string n)" n] by (auto simp: is_ascii_digit_def byte_def)

lemma parse_field_value_render:
  assumes "plain_field_value v"
  shows "parse_field_value (render_field_value v) = Some v"
proof (cases v)
  case (Float s)
  with assms have ok: "is_f64_text s" by simp
  then have "s \<noteq> []" by auto
  moreover have "hd s \<noteq> DQUOTE"
    using f64_chars [OF ok, of "hd s"] \<open>s \<noteq> []\<close> not_float_chars by auto
  moreover have "valid_utf8 s"
    using f64_chars [OF ok] float_char_ascii by (auto intro!: valid_utf8_ascii simp: list_all_iff)
  moreover have "s \<notin> {''t'', ''T'', ''true'', ''TRUE''} \<union> {''f'', ''F'', ''false'', ''FALSE''}"
    using ok by auto
  ultimately show ?thesis
    using Float ok f64_last [OF ok]
    by (simp add: parse_field_value_def ends_with_single parse_scalar_def from_utf8_def)
next
  case (Integer n)
  with assms show ?thesis
    by (simp add: parse_field_value_def ends_with_single
        valid_utf8_ascii int_to_string_ascii parse_i64_int_to_string from_utf8_def Suc_le_eq)
next
  case (Bool b)
  then show ?thesis by (simp add: parse_field_value_def ends_with_single from_utf8_def
        valid_utf8_ascii byte_def parse_scalar_def)
next
  case (String s)
  with assms show ?thesis by (simp add: parse_field_value_def)
qed

lemma field_value_chars:
  assumes "plain_field_value v"
  shows "set (render_field_value v) \<inter> {CHR '','', CHR '' '', NL} = {}"
proof (cases v)
  case (Float s)
  with assms show ?thesis using f64_chars [of s] not_float_chars by auto
qed (use assms in \<open>auto dest!: int_to_string_chars simp: is_ascii_digit_def byte_def\<close>)

lemma field_chars:
  "plain_field nf \<Longrightarrow> set (render_field nf) \<inter> {CHR '','', CHR '' '', NL} = {}"
  using field_value_chars by (fastforce simp: plain_field_def render_field_def)

lemma parse_field_render: "plain_field nf \<Longrightarrow> parse_field memchr_ref (render_field nf) = Some nf"
  by (cases nf) (simp add: parse_field_def render_field_def plain_field_def memchr_ref_def
      position_skip parse_field_value_render)

lemma parse_tag_render:
  "plain_tag nv \<Longrightarrow> valid_utf8 (fst nv) \<Longrightarrow> valid_utf8 (snd nv) \<Longrightarrow>
     parse_tag memchr_ref (render_tag nv) = Some nv"
  by (cases nv) (simp add: parse_tag_def render_tag_def plain_tag_def memchr_ref_def position_skip)

lemma map_filter_inverse:
  "\<forall>x \<in> set xs. f (g x) = Some x \<Longrightarrow> List.map_filter f (map g xs) = xs"
  by (induction xs) (simp_all add: List.map_filter_simps)

lemma join_nonempty: "xs \<noteq> [] \<Longrightarrow> \<forall>x \<in> set xs. x \<noteq> [] \<Longrightarrow> join sep xs \<noteq> []"
  by (cases "(sep, xs)" rule: join.cases) auto

lemma rposition_skip: "x \<notin> set b \<Longrightarrow> rposition (\<lambda>c. c = x) (a @ x # b) = Some (length a)"
  by (simp add: rposition_def position_skip)

lemma rposition_absent: "x \<notin> set b \<Longrightarrow> rposition (\<lambda>c. c = x) b = None"
  by (simp add: rposition_def position_absent)

subsection \<open>Rows\<close>

lemma split_timestamp_render:
  assumes "CHR '' '' \<notin> set fs" and "fs \<noteq> []"
    and "case ts of Some t \<Rightarrow> - (2 ^ 63) \<le> t \<and> t < 2 ^ 63 | None \<Rightarrow> True"
  shows "split_timestamp (fs @ (case ts of Some t \<Rightarrow> CHR '' '' # int_to_string t | None \<Rightarrow> [])) = (fs, ts)"
proof (cases ts)
  case None
  with assms show ?thesis by (simp add: split_timestamp_def rposition_absent)
next
  case (Some t)
  have "CHR '' '' \<notin> set (int_to_string t)"
    by (auto dest!: int_to_string_chars simp: is_ascii_digit_def byte_def)
  with Some assms show ?thesis
    by (simp add: split_timestamp_def rposition_skip from_utf8_def valid_utf8_ascii int_to_string_ascii
        parse_i64_int_to_string)
qed

lemma fields_text:
  assumes "\<forall>nf \<in> set fs. plain_field nf"
  shows "set (join [CHR '',''] (map render_field fs)) \<inter> {CHR '' '', NL} = {}"
  using assms field_chars by (fastforce dest!: join_chars)

lemma parse_fields_render:
  assumes "fs \<noteq> []" and "\<forall>nf \<in> set fs. plain_field nf"
  shows "parse_fields memchr_ref (join [CHR '',''] (map render_field fs)) = fs"
proof -
  have "split_on CHR '','' (join [CHR '',''] (map render_field fs)) = map render_field fs"
    using assms field_chars by (intro split_on_join) auto
  moreover have "join [CHR '',''] (map render_field fs) \<noteq> []"
    using assms(1) by (intro join_nonempty) (auto simp: render_field_def)
  ultimately show ?thesis
    using assms(2) by (simp add: parse_fields_def map_filter_inverse parse_field_render)
qed

lemma parse_tags_render:
  assumes "ts \<noteq> []" and "\<forall>nv \<in> set ts. plain_tag nv \<and> valid_utf8 (fst nv) \<and> valid_utf8 (snd nv)"
  shows "parse_tags memchr_ref (join [CHR '',''] (map render_tag ts)) = ts"
proof -
  have "split_on CHR '','' (join [CHR '',''] (map render_tag ts)) = map render_tag ts"
    using assms by (intro split_on_join) (auto dest: rendered_no_comma)
  moreover have "join [CHR '',''] (map render_tag ts) \<noteq> []"
    using assms(1) by (intro join_nonempty) (auto simp: render_tag_def)
  ultimately show ?thesis
    using assms(2) by (simp add: parse_tags_def map_filter_inverse parse_tag_render)
qed

lemma plain_rowD:
  assumes "plain_row row"
  shows "plain_name (row_measurement row)" "row_measurement row \<noteq> []" "valid_utf8 (row_measurement row)"
    "row_tags row \<noteq> []" "row_fields row \<noteq> []"
    "\<forall>nv \<in> set (row_tags row). plain_tag nv \<and> valid_utf8 (fst nv) \<and> valid_utf8 (snd nv)"
    "\<forall>nf \<in> set (row_fields row). plain_field nf"
    "case row_timestamp_ns row of Some ts \<Rightarrow> - (2 ^ 63) \<le> ts \<and> ts < 2 ^ 63 | None \<Rightarrow> True"
  using assms by (simp_all add: plain_row_def)

lemma parse_ilp_row_sections:
  assumes "plain_name m" and "m \<noteq> []" and "CHR '' '' \<notin> set ts"
  shows "parse_ilp_row memchr_ref ((m @ CHR '','' # ts @ CHR '' '' # rest) @ [NL]) =
    Some \<lparr> row_measurement = from_utf8_lossy m, row_tags = parse_tags memchr_ref ts,
           row_fields = parse_fields memchr_ref (fst (split_timestamp rest)),
           row_timestamp_ns = snd (split_timestamp rest) \<rparr>"
proof -
  have "strip_suffix ((m @ CHR '','' # ts @ CHR '' '' # rest) @ [NL]) [NL] =
      Some (m @ CHR '','' # ts @ CHR '' '' # rest)"
    by (simp add: strip_suffix_def ends_with_single)
  with assms show ?thesis
    by (simp add: parse_ilp_row_def split_at_first_def memchr_ref_def plain_name_def position_skip
        split: prod.splits)
qed

lemma parse_render_row:
  assumes "plain_row row"
  shows "parse_ilp_row memchr_ref (render_row row @ [NL]) = Some row"
proof -
  note d = plain_rowD [OF assms]
  let ?fs = "join [CHR '',''] (map render_field (row_fields row))"
  have fs: "?fs \<noteq> []" "CHR '' '' \<notin> set ?fs"
    using join_nonempty [of "map render_field (row_fields row)"] d(5) fields_text [OF d(7)]
    by (auto simp: render_field_def)
  from d(6) have tags: "CHR '' '' \<notin> set (join [CHR '',''] (map render_tag (row_tags row)))"
    using rendered_no_space [of "row_tags row"] by blast
  show ?thesis
    unfolding render_row_def render_line_def parse_ilp_row_sections [OF d(1,2) tags]
      split_timestamp_render [OF fs(2,1) d(8)]
    by (simp add: parse_tags_render [OF d(4,6)] parse_fields_render [OF d(5,7)] d(3))
qed

subsection \<open>The stream side and the routing side\<close>

lemma tag_name_eq_lossy:
  "list_all (\<lambda>c. byte c < 128) t \<Longrightarrow> tag_name_eq n t = eq_ignore_ascii_case (from_utf8_lossy n) t"
  by (cases "valid_utf8 n") (auto simp: tag_name_eq_def from_utf8_def lossy_not_ascii_name)

lemma find_tag_parsed:
  assumes "list_all (\<lambda>c. byte c < 128) t"
  shows "map_option into_owned (find_tag mc t ps) =
    map_option snd (find (\<lambda>nv. eq_ignore_ascii_case (fst nv) t) (List.map_filter (parse_tag mc) ps))"
  by (induction ps)
    (auto simp: List.map_filter_simps parse_tag_def tag_name_eq_lossy [OF assms] into_owned_tag_value
      split: option.splits)

lemma routed_key_parsed:
  assumes "NL \<notin> set l" and "parse_ilp_row memchr_ref (l @ [NL]) = Some row"
    and t: "list_all (\<lambda>c. byte c < 128) t"
  shows "shard_key_from_ilp memchr_ref (l @ [NL]) t =
    (case find (\<lambda>nv. eq_ignore_ascii_case (fst nv) t) (row_tags row) of Some nv \<Rightarrow> snd nv | None \<Rightarrow> t)"
proof -
  have sfx: "strip_suffix (l @ [NL]) [NL] = Some l" by (simp add: strip_suffix_def ends_with_single)
  from assms(2) obtain i where i: "memchr_ref CHR '','' l = Some i" and "l \<noteq> []"
    by (auto simp: parse_ilp_row_def sfx split_at_first_def split: if_splits option.splits)
  let ?rest = "drop (Suc i) l"
  let ?sec = "case memchr_ref CHR '' '' ?rest of Some sp \<Rightarrow> take sp ?rest | None \<Rightarrow> ?rest"
  from assms(2) i \<open>l \<noteq> []\<close> have tags: "row_tags row = parse_tags memchr_ref ?sec"
    by (auto simp: parse_ilp_row_def sfx split_at_first_def split: if_splits option.splits prod.splits)
  have line: "takeWhile (\<lambda>b. b \<noteq> NL) (l @ [NL]) = l"
    using assms(1) first_line_append [of l "[]"] by (simp add: takeWhile_eq_all_conv) blast
  have key: "shard_key_from_ilp_cow memchr_ref (l @ [NL]) t =
      (case find_tag memchr_ref t (split_on CHR '','' ?sec) of Some c \<Rightarrow> c | None \<Rightarrow> Owned t)"
    unfolding shard_key_from_ilp_cow_def line_end_ref line by (simp add: i Let_def)
  have pieces: "parse_tags memchr_ref ?sec = List.map_filter (parse_tag memchr_ref) (split_on CHR '','' ?sec)"
    by (simp add: parse_tags_def List.map_filter_simps parse_tag_def memchr_ref_def)
  from find_tag_parsed [OF t, of memchr_ref "split_on CHR '','' ?sec"] show ?thesis
    unfolding shard_key_from_ilp_def key tags pieces by (auto split: option.splits)
qed

text \<open>A row for the witnesses.\<close>

definition demo_row :: IlpRow where
  "demo_row = \<lparr> row_measurement = ''trades'', row_tags = [(''symbol'', ''BTC'')],
     row_fields = [(''px'', Float ''1.5''), (''n'', Integer 7)], row_timestamp_ns = Some 9 \<rparr>"

lemma valid_utf8_plain: "list_all (\<lambda>c. of_char c < (128 :: nat)) s \<Longrightarrow> valid_utf8 s"
  by (rule valid_utf8_ascii) (simp add: byte_def)

lemma demo_row_plain: "plain_row demo_row"
proof -
  have "is_f64_text ''1.5''" by code_simp
  then show ?thesis
    by (simp add: plain_row_def demo_row_def plain_name_def plain_tag_def plain_field_def valid_utf8_plain)
qed

section \<open>Properties\<close>

text \<open>
  C30. Round trip of stream rows: the text of every plain row - measurement, tags, float, integer,
  boolean and string fields and an optional timestamp - with its line feed is parsed back as exactly
  that row.
\<close>

theorem row_round_trip:
  assumes "memchr_spec mc" and "plain_row row"
  shows "parse_ilp_row mc (render_row row @ [NL]) = Some row"
  using parse_render_row [OF assms(2)] by (simp add: memchr_specD [OF assms(1)])

theorem row_round_trip_witness:
  "parse_ilp_row memchr_ref (render_row demo_row @ [NL]) = Some demo_row"
  by (rule row_round_trip [OF memchr_spec_ref demo_row_plain])

text \<open>
  The two ILP parsers of the router agree on the key: for any line the stream side parses, well
  formed or not, the value the routing side hashes for an ASCII key column is the value of the first
  tag with that name among the parsed tags, and the column's name when there is none. With that
  column as the only topic tag, a tagged line is published under exactly the key it is routed by.
\<close>

theorem stream_topic_is_routing_key:
  assumes "memchr_spec mc" and "NL \<notin> set l" and "parse_ilp_row mc (l @ [NL]) = Some row"
    and "list_all (\<lambda>c. byte c < 128) t"
  shows "shard_key_from_ilp mc (l @ [NL]) t =
      (case find (\<lambda>nv. eq_ignore_ascii_case (fst nv) t) (row_tags row) of Some nv \<Rightarrow> snd nv | None \<Rightarrow> t)
    \<and> (st_topic_tags config = [t] \<and> (\<exists>nv \<in> set (row_tags row). eq_ignore_ascii_case (fst nv) t) \<longrightarrow>
        derive_topic row config = shard_key_from_ilp mc (l @ [NL]) t)"
proof -
  have mc: "mc = memchr_ref" by (rule memchr_specD [OF assms(1)])
  note key = routed_key_parsed [OF assms(2) assms(3) [unfolded mc] assms(4)]
  have "find (\<lambda>nv. eq_ignore_ascii_case (fst nv) t) (row_tags row) \<noteq> None"
    if "\<exists>nv \<in> set (row_tags row). eq_ignore_ascii_case (fst nv) t"
    using that by (auto simp: find_None_iff)
  with key mc show ?thesis
    by (auto simp: derive_topic_def topic_part_def split: option.splits)
qed

theorem stream_topic_is_routing_key_witness:
  "derive_topic demo_row (default_stream\<lparr>st_topic_tags := [''SYMBOL'']\<rparr>)
     = shard_key_from_ilp memchr_ref (render_row demo_row @ [NL]) ''SYMBOL''"
proof -
  have nl: "NL \<notin> set (render_row demo_row)" by code_simp
  have eq: "eq_ignore_ascii_case ''symbol'' ''SYMBOL''" by code_simp
  show ?thesis
    using stream_topic_is_routing_key [OF memchr_spec_ref nl parse_render_row [OF demo_row_plain],
        of "''SYMBOL''" "default_stream\<lparr>st_topic_tags := [''SYMBOL'']\<rparr>"] eq
    by (simp add: byte_def demo_row_def)
qed

text \<open>
  The stream parser cuts at the last space of the line and at every comma, also inside quoted
  strings: without a timestamp a string field with a space loses its tail, and a line without tags
  is not parsed at all although the routing side reads its measurement.
\<close>

theorem stream_parser_limits:
  "map_option row_fields (parse_ilp_row memchr_ref
      (''e,k=a msg='' @ [DQUOTE] @ ''hello world'' @ [DQUOTE, NL])) = Some [(''msg'', String ''hell'')]
   \<and> parse_ilp_row memchr_ref (''trades px=1 9'' @ [NL]) = None
   \<and> measurement_from_ilp_bytes memchr_ref (''trades px=1 9'' @ [NL]) = Some ''trades''"
proof (intro conjI)
  let ?text = "''msg='' @ DQUOTE # ''hello''" and ?tail = "''world'' @ [DQUOTE]"
  have ts: "parse_i64 ?tail = None" by (simp add: parse_i64_def is_ascii_digit_def byte_def)
  then have "split_timestamp (?text @ CHR '' '' # ?tail) = (?text, None)"
    by (simp add: split_timestamp_def rposition_def split: option.splits)
  moreover have "parse_tags memchr_ref ''k=a'' = [(''k'', ''a'')]" by code_simp
  moreover have "parse_fields memchr_ref ?text = [(''msg'', String ''hell'')]" by code_simp
  ultimately show "map_option row_fields (parse_ilp_row memchr_ref
      (''e,k=a msg='' @ [DQUOTE] @ ''hello world'' @ [DQUOTE, NL])) = Some [(''msg'', String ''hell'')]"
    using parse_ilp_row_sections [of "''e''" "''k=a''" "?text @ CHR '' '' # ?tail"]
    by (simp add: plain_name_def)
  show "parse_ilp_row memchr_ref (''trades px=1 9'' @ [NL]) = None" by code_simp
  show "measurement_from_ilp_bytes memchr_ref (''trades px=1 9'' @ [NL]) = Some ''trades''" by code_simp
qed

end
