(* ===== verification/Stream_Hub.thy ===== *)
theory Stream_Hub
  imports Stream_Row
begin

text \<open>
  The broadcast hub, \<open>stream/hub.rs\<close>. The broadcast channel of the async runtime is a third-party
  package: the parameter \<open>bc\<close> holds its operations as the hub uses them (create, send, number of
  receivers, subscribe, and the drop of a receiver), and \<open>broadcast_laws\<close> is what they do to the
  number of receivers. The MessagePack encoder is the parameter \<open>enc\<close>.

  The state holds the topics, the wildcard channel and its counter (a 64-bit word, since the atomic
  wraps), the wake-ups sent to waiting connections and the metrics the hub sets. A published tick
  gets the next free address, by which the connections recognise it.
\<close>

record StreamTick =
  tick_row :: IlpRow
  tick_wire :: bytes
  tick_ptr :: nat

record 'c broadcast_ops =
  bc_channel :: "nat \<Rightarrow> 'c"
  bc_send :: "StreamTick \<Rightarrow> 'c \<Rightarrow> 'c"
  bc_receiver_count :: "'c \<Rightarrow> nat"
  bc_subscribe :: "'c \<Rightarrow> 'c"
  bc_drop :: "'c \<Rightarrow> 'c"

record 'c TopicChannel =
  ch_tx :: 'c
  ch_replay :: "IlpRow list"

record 'c BroadcastHub =
  hub_topics :: "string \<rightharpoonup> 'c TopicChannel"
  hub_wildcard :: 'c
  hub_wildcard_subscribers :: u64
  hub_config :: StreamConfig
  hub_registry :: TableRegistry
  hub_wakes :: nat
  hub_ticks_published :: nat
  hub_subscribers_gauge :: "string \<rightharpoonup> nat"
  hub_next_ptr :: nat

section \<open>Operations\<close>

definition hub_new :: "'c broadcast_ops \<Rightarrow> StreamConfig \<Rightarrow> TableRegistry \<Rightarrow> 'c BroadcastHub" where
  "hub_new bc config registry =
     \<lparr> hub_topics = Map.empty, hub_wildcard = bc_channel bc (st_broadcast_capacity config),
       hub_wildcard_subscribers = 0, hub_config = config, hub_registry = registry,
       hub_wakes = 0, hub_ticks_published = 0, hub_subscribers_gauge = Map.empty, hub_next_ptr = 0 \<rparr>"

definition wake_waiters :: "'c BroadcastHub \<Rightarrow> 'c BroadcastHub" where
  "wake_waiters hub = hub\<lparr>hub_wakes := Suc (hub_wakes hub)\<rparr>"

definition topic_receiver_count :: "'c broadcast_ops \<Rightarrow> 'c BroadcastHub \<Rightarrow> string \<Rightarrow> nat" where
  "topic_receiver_count bc hub topic =
     (case hub_topics hub topic of Some ch \<Rightarrow> bc_receiver_count bc (ch_tx ch) | None \<Rightarrow> 0)"

definition has_subscribers :: "'c broadcast_ops \<Rightarrow> 'c BroadcastHub \<Rightarrow> bool" where
  "has_subscribers bc hub \<longleftrightarrow>
     hub_wildcard_subscribers hub > 0
   \<or> (\<exists>topic \<in> dom (hub_topics hub). topic_receiver_count bc hub topic > 0)"

definition get_or_create_topic :: "'c broadcast_ops \<Rightarrow> string \<Rightarrow> 'c BroadcastHub \<Rightarrow> 'c TopicChannel" where
  "get_or_create_topic bc topic hub =
     (case hub_topics hub topic of
        Some ch \<Rightarrow> ch
      | None \<Rightarrow> \<lparr> ch_tx = bc_channel bc (st_broadcast_capacity (hub_config hub)), ch_replay = [] \<rparr>)"

function trim_window :: "nat \<Rightarrow> 'a list \<Rightarrow> 'a list" where
  "trim_window n xs = (if length xs > n then trim_window n (tl xs) else xs)"
  by pat_completeness auto
termination
  by (relation "measure (\<lambda>(n, xs). length xs)") auto

declare trim_window.simps [simp del]

definition replay_push :: "nat \<Rightarrow> 'a \<Rightarrow> 'a list \<Rightarrow> 'a list" where
  "replay_push window row replay = trim_window window (replay @ [row])"

definition record_stream_tick_published :: "'c BroadcastHub \<Rightarrow> 'c BroadcastHub" where
  "record_stream_tick_published hub = hub\<lparr>hub_ticks_published := Suc (hub_ticks_published hub)\<rparr>"

definition record_stream_subscriber :: "string \<Rightarrow> nat \<Rightarrow> 'c BroadcastHub \<Rightarrow> 'c BroadcastHub" where
  "record_stream_subscriber topic count hub =
     hub\<lparr>hub_subscribers_gauge := (hub_subscribers_gauge hub)(topic \<mapsto> count)\<rparr>"

definition send_to_topic :: "'c broadcast_ops \<Rightarrow> string \<Rightarrow> StreamTick \<Rightarrow> 'c BroadcastHub \<Rightarrow> 'c BroadcastHub" where
  "send_to_topic bc topic tick hub =
     (let channel = get_or_create_topic bc topic hub;
          receiver_count = bc_receiver_count bc (ch_tx channel);
          replay = (if receiver_count > 0
                    then replay_push (st_replay_window (hub_config hub)) (tick_row tick) (ch_replay channel)
                    else ch_replay channel);
          channel' = \<lparr> ch_tx = bc_send bc tick (ch_tx channel), ch_replay = replay \<rparr>
      in wake_waiters (record_stream_tick_published
           (hub\<lparr>hub_topics := (hub_topics hub)(topic \<mapsto> channel')\<rparr>)))"

definition publish ::
    "'c broadcast_ops \<Rightarrow> memchr_fn \<Rightarrow> (IlpRow \<Rightarrow> bytes option) \<Rightarrow> bytes \<Rightarrow> 'c BroadcastHub \<Rightarrow> 'c BroadcastHub" where
  "publish bc mc enc line hub =
     (if \<not> has_subscribers bc hub then hub
      else case measurement_from_ilp_bytes mc line of
        None \<Rightarrow> hub
      | Some measurement \<Rightarrow>
          if \<not> is_broadcastable measurement (hub_registry hub) then hub
          else case parse_ilp_row mc line of
            None \<Rightarrow> hub
          | Some row \<Rightarrow>
              let topic = derive_topic row (hub_config hub);
                  wildcard = hub_wildcard_subscribers hub > 0;
                  topic_subs = topic_receiver_count bc hub topic > 0
              in if \<not> wildcard \<and> \<not> topic_subs then hub
                 else case enc row of
                   None \<Rightarrow> hub
                 | Some wire \<Rightarrow>
                     let tick = \<lparr> tick_row = row, tick_wire = wire, tick_ptr = hub_next_ptr hub \<rparr>;
                         hub1 = hub\<lparr>hub_next_ptr := Suc (hub_next_ptr hub)\<rparr>;
                         hub2 = (if topic_subs then send_to_topic bc topic tick hub1 else hub1)
                     in if wildcard
                        then wake_waiters (hub2\<lparr>hub_wildcard := bc_send bc tick (hub_wildcard hub2)\<rparr>)
                        else hub2)"

definition subscribe :: "'c broadcast_ops \<Rightarrow> string \<Rightarrow> 'c BroadcastHub \<Rightarrow> 'c BroadcastHub" where
  "subscribe bc topic hub =
     (let channel = get_or_create_topic bc topic hub;
          hub1 = record_stream_subscriber topic (bc_receiver_count bc (ch_tx channel)) hub;
          channel' = channel\<lparr>ch_tx := bc_subscribe bc (ch_tx channel)\<rparr>
      in wake_waiters (hub1\<lparr>hub_topics := (hub_topics hub1)(topic \<mapsto> channel')\<rparr>))"

definition subscribe_wildcard :: "'c broadcast_ops \<Rightarrow> 'c BroadcastHub \<Rightarrow> 'c BroadcastHub" where
  "subscribe_wildcard bc hub =
     wake_waiters (hub\<lparr>hub_wildcard_subscribers := hub_wildcard_subscribers hub + 1,
                       hub_wildcard := bc_subscribe bc (hub_wildcard hub)\<rparr>)"

definition unsubscribe_wildcard :: "'c BroadcastHub \<Rightarrow> 'c BroadcastHub" where
  "unsubscribe_wildcard hub =
     wake_waiters (hub\<lparr>hub_wildcard_subscribers := hub_wildcard_subscribers hub - 1\<rparr>)"

definition replay :: "string \<Rightarrow> nat \<Rightarrow> 'c BroadcastHub \<Rightarrow> IlpRow list" where
  "replay topic last_n hub =
     (case hub_topics hub topic of
        Some ch \<Rightarrow> drop (length (ch_replay ch) - last_n) (ch_replay ch)
      | None \<Rightarrow> [])"

text \<open>
  \<open>remove_subscriber\<close> reads the receiver count under one guard, drops the guard and removes the entry
  under another: the check and the removal are separate steps.
\<close>

definition remove_check :: "'c broadcast_ops \<Rightarrow> string \<Rightarrow> 'c BroadcastHub \<Rightarrow> 'c BroadcastHub \<times> bool" where
  "remove_check bc topic hub =
     (case hub_topics hub topic of
        None \<Rightarrow> (hub, False)
      | Some ch \<Rightarrow>
          let count = bc_receiver_count bc (ch_tx ch)
          in (record_stream_subscriber topic count hub, count = 0))"

definition remove_commit :: "string \<Rightarrow> bool \<Rightarrow> 'c BroadcastHub \<Rightarrow> 'c BroadcastHub" where
  "remove_commit topic idle hub =
     wake_waiters (if idle then hub\<lparr>hub_topics := (hub_topics hub)(topic := None)\<rparr> else hub)"

definition remove_subscriber :: "'c broadcast_ops \<Rightarrow> string \<Rightarrow> 'c BroadcastHub \<Rightarrow> 'c BroadcastHub" where
  "remove_subscriber bc topic hub =
     (case remove_check bc topic hub of (hub1, idle) \<Rightarrow> remove_commit topic idle hub1)"

section \<open>Specification vocabulary\<close>

definition broadcast_laws :: "'c broadcast_ops \<Rightarrow> bool" where
  "broadcast_laws bc \<longleftrightarrow>
     (\<forall>n. bc_receiver_count bc (bc_channel bc n) = 0)
   \<and> (\<forall>t c. bc_receiver_count bc (bc_send bc t c) = bc_receiver_count bc c)
   \<and> (\<forall>c. bc_receiver_count bc (bc_subscribe bc c) = Suc (bc_receiver_count bc c))
   \<and> (\<forall>c. bc_receiver_count bc (bc_drop bc c) = bc_receiver_count bc c - 1)"

text \<open>The channel that only counts its receivers and remembers what was sent, for the witnesses.\<close>

definition ref_bc :: "(nat \<times> StreamTick list) broadcast_ops" where
  "ref_bc = \<lparr> bc_channel = (\<lambda>_. (0, [])), bc_send = (\<lambda>t c. (fst c, snd c @ [t])),
     bc_receiver_count = fst, bc_subscribe = (\<lambda>c. (Suc (fst c), snd c)), bc_drop = (\<lambda>c. (fst c - 1, snd c)) \<rparr>"

definition last_n :: "nat \<Rightarrow> 'a list \<Rightarrow> 'a list" where
  "last_n n xs = drop (length xs - n) xs"

text \<open>The row a line contributes to a topic, when the hub publishes it there.\<close>

definition published_row ::
    "memchr_fn \<Rightarrow> (IlpRow \<Rightarrow> bytes option) \<Rightarrow> StreamConfig \<Rightarrow> TableRegistry \<Rightarrow> string \<Rightarrow> bytes \<Rightarrow> IlpRow option" where
  "published_row mc enc config registry topic line =
     (case measurement_from_ilp_bytes mc line of
        None \<Rightarrow> None
      | Some m \<Rightarrow>
          if \<not> is_broadcastable m registry then None
          else case parse_ilp_row mc line of
            None \<Rightarrow> None
          | Some row \<Rightarrow> if derive_topic row config = topic \<and> enc row \<noteq> None then Some row else None)"

section \<open>The bounded window contract\<close>

text \<open>
  Both buffers of the stream, the replay window of a topic and the outbound queue of a connection,
  keep the most recent entries only. What that means for a whole run is proved once.
\<close>

locale bounded_window =
  fixes push :: "'a \<Rightarrow> 'a list \<Rightarrow> 'a list" and cap :: nat
  assumes push_last: "length q \<le> cap \<Longrightarrow> push x q = last_n cap (q @ [x])"
begin

lemma length_last_n: "length (last_n cap xs) \<le> cap"
  by (simp add: last_n_def)

lemma push_last_n: "push x (last_n cap ys) = last_n cap (ys @ [x])"
  by (cases "length ys \<le> cap") (simp_all add: push_last last_n_def Suc_diff_le)

lemma run_last_n: "fold push xs (last_n cap ys) = last_n cap (ys @ xs)"
  by (induction xs arbitrary: ys) (simp_all add: push_last_n)

lemma run_from_empty: "fold push xs [] = last_n cap xs"
  using run_last_n [of xs "[]"] by (simp add: last_n_def)

end

section \<open>Lemmas\<close>

lemma ref_bc_laws: "broadcast_laws ref_bc"
  by (simp add: broadcast_laws_def ref_bc_def)

lemma broadcast_lawsD:
  assumes "broadcast_laws bc"
  shows "bc_receiver_count bc (bc_channel bc n) = 0"
    and "bc_receiver_count bc (bc_send bc t c) = bc_receiver_count bc c"
    and "bc_receiver_count bc (bc_subscribe bc c) = Suc (bc_receiver_count bc c)"
    and "bc_receiver_count bc (bc_drop bc c) = bc_receiver_count bc c - 1"
  using assms by (auto simp: broadcast_laws_def)

lemma trim_window_last_n: "trim_window n xs = last_n n xs"
proof (induction n xs rule: trim_window.induct)
  case (1 n xs)
  then show ?case
    by (cases xs) (auto simp: trim_window.simps [of n] last_n_def Suc_diff_le)
qed

interpretation replay_win: bounded_window "replay_push w" w for w
  by unfold_locales (simp add: replay_push_def trim_window_last_n)

lemma last_n_last_n: "last_n m (last_n n xs) = last_n (min m n) xs"
  by (cases "length xs \<le> n") (auto simp: last_n_def min_def)

lemma wake_waiters_simps [simp]:
  "hub_topics (wake_waiters hub) = hub_topics hub"
  "hub_config (wake_waiters hub) = hub_config hub"
  "hub_registry (wake_waiters hub) = hub_registry hub"
  "hub_wildcard (wake_waiters hub) = hub_wildcard hub"
  "hub_wildcard_subscribers (wake_waiters hub) = hub_wildcard_subscribers hub"
  "hub_subscribers_gauge (wake_waiters hub) = hub_subscribers_gauge hub"
  by (simp_all add: wake_waiters_def)

lemma metric_simps [simp]:
  "hub_topics (record_stream_tick_published hub) = hub_topics hub"
  "hub_config (record_stream_tick_published hub) = hub_config hub"
  "hub_registry (record_stream_tick_published hub) = hub_registry hub"
  "hub_wildcard (record_stream_tick_published hub) = hub_wildcard hub"
  "hub_wildcard_subscribers (record_stream_tick_published hub) = hub_wildcard_subscribers hub"
  "hub_topics (record_stream_subscriber t n hub) = hub_topics hub"
  "hub_config (record_stream_subscriber t n hub) = hub_config hub"
  "hub_registry (record_stream_subscriber t n hub) = hub_registry hub"
  "hub_wildcard (record_stream_subscriber t n hub) = hub_wildcard hub"
  "hub_wildcard_subscribers (record_stream_subscriber t n hub) = hub_wildcard_subscribers hub"
  "hub_subscribers_gauge (record_stream_subscriber t n hub) = (hub_subscribers_gauge hub)(t \<mapsto> n)"
  by (simp_all add: record_stream_tick_published_def record_stream_subscriber_def)

lemma send_to_topic_simps [simp]:
  "hub_config (send_to_topic bc topic tick hub) = hub_config hub"
  "hub_registry (send_to_topic bc topic tick hub) = hub_registry hub"
  "hub_wildcard_subscribers (send_to_topic bc topic tick hub) = hub_wildcard_subscribers hub"
  by (simp_all add: send_to_topic_def Let_def)

lemma publish_fixed [simp]:
  "hub_config (publish bc mc enc line hub) = hub_config hub"
  "hub_registry (publish bc mc enc line hub) = hub_registry hub"
  "hub_wildcard_subscribers (publish bc mc enc line hub) = hub_wildcard_subscribers hub"
  by (simp_all add: publish_def Let_def split: option.splits)

lemma live_topic_has_subscribers:
  "hub_topics hub topic = Some ch \<Longrightarrow> bc_receiver_count bc (ch_tx ch) > 0 \<Longrightarrow> has_subscribers bc hub"
  unfolding has_subscribers_def topic_receiver_count_def by (intro disjI2 bexI [of _ topic]) auto

lemma publish_live_topic:
  assumes laws: "broadcast_laws bc" and ch: "hub_topics hub topic = Some ch"
    and live: "bc_receiver_count bc (ch_tx ch) > 0"
  shows "\<exists>ch'. hub_topics (publish bc mc enc line hub) topic = Some ch'
    \<and> bc_receiver_count bc (ch_tx ch') = bc_receiver_count bc (ch_tx ch)
    \<and> ch_replay ch' =
        (case published_row mc enc (hub_config hub) (hub_registry hub) topic line of
           Some row \<Rightarrow> replay_push (st_replay_window (hub_config hub)) row (ch_replay ch)
         | None \<Rightarrow> ch_replay ch)"
  using ch live live_topic_has_subscribers [OF ch live] broadcast_lawsD(2) [OF laws]
  by (auto simp: publish_def Let_def published_row_def send_to_topic_def get_or_create_topic_def
      topic_receiver_count_def split: option.splits)

lemma publish_run:
  assumes laws: "broadcast_laws bc"
  shows "hub_topics hub topic = Some ch \<Longrightarrow> bc_receiver_count bc (ch_tx ch) > 0 \<Longrightarrow>
    \<exists>ch'. hub_topics (fold (publish bc mc enc) lines hub) topic = Some ch'
      \<and> bc_receiver_count bc (ch_tx ch') = bc_receiver_count bc (ch_tx ch)
      \<and> ch_replay ch' = fold (replay_push (st_replay_window (hub_config hub)))
          (List.map_filter (published_row mc enc (hub_config hub) (hub_registry hub) topic) lines) (ch_replay ch)"
proof (induction lines arbitrary: hub ch)
  case Nil
  then show ?case by (simp add: List.map_filter_simps)
next
  case (Cons line lines)
  from publish_live_topic [OF laws Cons.prems, of mc enc line] obtain ch1
    where ch1: "hub_topics (publish bc mc enc line hub) topic = Some ch1"
      "bc_receiver_count bc (ch_tx ch1) = bc_receiver_count bc (ch_tx ch)"
      "ch_replay ch1 =
        (case published_row mc enc (hub_config hub) (hub_registry hub) topic line of
           Some row \<Rightarrow> replay_push (st_replay_window (hub_config hub)) row (ch_replay ch)
         | None \<Rightarrow> ch_replay ch)" by blast
  from Cons.IH [OF ch1(1)] Cons.prems(2) ch1(2,3) show ?case
    by (auto simp: List.map_filter_simps split: option.splits)
qed

lemma subscribe_topics:
  "hub_topics (subscribe bc topic hub) = (hub_topics hub)(topic \<mapsto>
     (get_or_create_topic bc topic hub)\<lparr>ch_tx := bc_subscribe bc (ch_tx (get_or_create_topic bc topic hub))\<rparr>)"
  by (simp add: subscribe_def Let_def)

lemma subscribe_fixed [simp]:
  "hub_config (subscribe bc topic hub) = hub_config hub"
  "hub_registry (subscribe bc topic hub) = hub_registry hub"
  "hub_wildcard_subscribers (subscribe bc topic hub) = hub_wildcard_subscribers hub"
  by (simp_all add: subscribe_def Let_def)

lemma subscribe_receivers:
  assumes "broadcast_laws bc"
  shows "topic_receiver_count bc (subscribe bc topic hub) t =
    topic_receiver_count bc hub t + (if t = topic then 1 else 0)"
  using broadcast_lawsD [OF assms]
  by (auto simp: topic_receiver_count_def subscribe_topics get_or_create_topic_def split: option.splits)

definition demo_hub :: "(nat \<times> StreamTick list) BroadcastHub" where
  "demo_hub = hub_new ref_bc (default_stream\<lparr>st_topic_tags := [''symbol''], st_replay_window := 1\<rparr>)
     (registry_from_config [\<lparr> tc_name = ''trades'', tc_sharded = True, tc_shard_key = None, tc_columns = [] \<rparr>] ''symbol'')"

section \<open>Properties\<close>

text \<open>
  C25. Replay. From the moment a topic has a subscriber, after any sequence of published lines,
  replaying \<open>n\<close> rows of the topic returns the last \<open>n\<close>, at most the window size, of the rows
  published under it, oldest first: the lines of sharded tables that parse, encode and carry that
  topic, in order. The window never exceeds its size, and the subscriber is never lost.
\<close>

theorem replay_is_last_published:
  assumes "broadcast_laws bc" and "hub_topics hub topic = None"
  shows "replay topic n (fold (publish bc mc enc) lines (subscribe bc topic hub)) =
      last_n (min n (st_replay_window (hub_config hub)))
        (List.map_filter (published_row mc enc (hub_config hub) (hub_registry hub) topic) lines)
    \<and> topic_receiver_count bc (fold (publish bc mc enc) lines (subscribe bc topic hub)) topic = 1"
proof -
  let ?ch = "\<lparr> ch_tx = bc_subscribe bc (bc_channel bc (st_broadcast_capacity (hub_config hub))), ch_replay = [] \<rparr>"
  have ch: "hub_topics (subscribe bc topic hub) topic = Some ?ch"
    by (simp add: subscribe_topics get_or_create_topic_def assms(2))
  have count: "bc_receiver_count bc (ch_tx ?ch) = 1"
    by (simp add: broadcast_lawsD [OF assms(1)])
  from publish_run [OF assms(1) ch, of mc enc lines] count show ?thesis
    by (auto simp: replay_def topic_receiver_count_def replay_win.run_from_empty last_n_last_n
        last_n_def [symmetric])
qed

theorem replay_is_last_published_witness:
  "replay ''BTC'' 5 (fold (publish ref_bc memchr_ref (\<lambda>_. Some [])) [render_row demo_row @ [NL]]
     (subscribe ref_bc ''BTC'' demo_hub)) = [demo_row]"
proof -
  have m: "measurement_from_ilp_bytes memchr_ref (render_row demo_row @ [NL]) = Some ''trades''" by code_simp
  have b: "is_broadcastable ''trades'' (hub_registry demo_hub)" by (simp add: demo_hub_def hub_new_def) code_simp
  have t: "derive_topic demo_row (hub_config demo_hub) = ''BTC''"
    by (simp add: demo_hub_def hub_new_def) code_simp
  have w: "st_replay_window (hub_config demo_hub) = 1" "hub_topics demo_hub ''BTC'' = None"
    by (simp_all add: demo_hub_def hub_new_def)
  show ?thesis
    using replay_is_last_published [OF ref_bc_laws w(2), of 5 memchr_ref "\<lambda>_. Some []"
        "[render_row demo_row @ [NL]]"]
    by (simp add: published_row_def m b t w(1) parse_render_row [OF demo_row_plain]
        List.map_filter_simps last_n_def)
qed

text \<open>
  The wildcard counter is not tied to the receivers: removing a wildcard subscription that was
  never made wraps the counter to its largest value, after which the hub believes for good that it
  has subscribers and encodes every tick of every line.
\<close>

theorem wildcard_counter_wraps:
  "unat (hub_wildcard_subscribers (unsubscribe_wildcard (hub_new bc config registry))) = 2 ^ 64 - 1
   \<and> has_subscribers bc (unsubscribe_wildcard (hub_new bc config registry))"
  by (simp add: unsubscribe_wildcard_def hub_new_def has_subscribers_def unsigned_minus_1_eq_mask mask_eq_exp_minus_1 word_neq_0_conv [symmetric])

text \<open>
  The two steps of \<open>remove_subscriber\<close> are not atomic: a client that subscribes to an idle topic
  between the check and the removal holds the only receiver of a channel that is no longer in the
  table, so no later line of that topic reaches it. Without the interleaving the removal keeps every
  topic with a receiver.
\<close>

theorem remove_subscriber_race:
  assumes "broadcast_laws bc" and "hub_topics hub topic = Some ch" and "bc_receiver_count bc (ch_tx ch) = 0"
  shows "let (hub1, idle) = remove_check bc topic hub;
             hub2 = subscribe bc topic hub1;
             hub3 = remove_commit topic idle hub2
         in topic_receiver_count bc hub2 topic = 1 \<and> hub_topics hub3 topic = None
          \<and> hub_topics (remove_subscriber bc topic hub2) topic = hub_topics hub2 topic"
  using assms broadcast_lawsD [OF assms(1)]
  by (simp add: remove_check_def remove_commit_def remove_subscriber_def topic_receiver_count_def
      subscribe_topics get_or_create_topic_def)

theorem remove_subscriber_race_witness:
  "let hub = demo_hub\<lparr>hub_topics := [''BTC'' \<mapsto> \<lparr> ch_tx = (0, []), ch_replay = [] \<rparr>]\<rparr>;
       (hub1, idle) = remove_check ref_bc ''BTC'' hub;
       hub2 = subscribe ref_bc ''BTC'' hub1
   in topic_receiver_count ref_bc hub2 ''BTC'' = 1 \<and> hub_topics (remove_commit ''BTC'' idle hub2) ''BTC'' = None"
  using remove_subscriber_race [OF ref_bc_laws,
      of "demo_hub\<lparr>hub_topics := [''BTC'' \<mapsto> \<lparr> ch_tx = (0, []), ch_replay = [] \<rparr>]\<rparr>" "''BTC''"
        "\<lparr> ch_tx = (0, []), ch_replay = [] \<rparr>"]
  by (simp add: ref_bc_def Let_def split: prod.splits)

end
