(* ===== verification/Stream_Ws.thy ===== *)
theory Stream_Ws
  imports Stream_Hub
begin

text \<open>
  One connection of the stream server, \<open>stream/ws.rs\<close> and \<open>stream/control.rs\<close>: the reader that
  serves control messages, the fan-out step that drains the subscriptions, the bounded outbound queue
  and the clean-up at the end. JSON decoding of a control message and MessagePack encoding of a replay
  answer are third-party and parameters.

  A subscription holds a receiver of the runtime's broadcast channel. What the receiver will answer
  to the next calls of \<open>try_recv\<close> is a list of events; an exhausted list answers \<open>Empty\<close>. The
  connection's own view of its receivers, needed for the hub's receiver counts, is the list of the
  subscribed keys, in the iteration order of the table.
\<close>

datatype ControlIn = Subscribe "string list" | Unsubscribe "string list" | Replay string nat

datatype Message = Text string | Close | OtherMessage

datatype TryRecv = Tick StreamTick | Lagged u64 | Closed | Empty

datatype DrainExit = Drained | ChannelClosed | LagLimit

record DrainState =
  ds_seen :: "nat list"
  ds_pending :: "bytes list"
  ds_lag_drops :: u32
  ds_got_any :: bool
  ds_lagged_metric :: nat

record Outbound =
  ob_queue :: "bytes list"
  ob_lagged_metric :: nat

definition OUTBOUND_CAPACITY :: nat where
  "OUTBOUND_CAPACITY = 256"

definition WILDCARD_TOPIC :: string where
  "WILDCARD_TOPIC = ''*''"

section \<open>The outbound queue\<close>

definition queue_push :: "bytes \<Rightarrow> bytes list \<Rightarrow> bytes list" where
  "queue_push bytes q = (if length q \<ge> OUTBOUND_CAPACITY then tl q else q) @ [bytes]"

definition enqueue_frame :: "bytes \<Rightarrow> Outbound \<Rightarrow> Outbound" where
  "enqueue_frame bytes out =
     \<lparr> ob_queue = queue_push bytes (ob_queue out),
       ob_lagged_metric = (if length (ob_queue out) \<ge> OUTBOUND_CAPACITY then Suc (ob_lagged_metric out)
                           else ob_lagged_metric out) \<rparr>"

section \<open>Draining the subscriptions\<close>

definition saturating_add_u32 :: "u32 \<Rightarrow> u32 \<Rightarrow> u32" where
  "saturating_add_u32 a b = of_nat (min (unat a + unat b) (2 ^ 32 - 1))"

fun drain_receiver :: "u32 \<Rightarrow> TryRecv list \<Rightarrow> DrainState \<Rightarrow> DrainExit \<times> TryRecv list \<times> DrainState" where
  "drain_receiver max_lag [] st = (Drained, [], st)"
| "drain_receiver max_lag (Tick tick # events) st =
     (if tick_ptr tick \<in> set (ds_seen st) then drain_receiver max_lag events st
      else drain_receiver max_lag events
             (st\<lparr>ds_seen := ds_seen st @ [tick_ptr tick],
                 ds_pending := ds_pending st @ [tick_wire tick], ds_got_any := True\<rparr>))"
| "drain_receiver max_lag (Lagged n # events) st =
     (let st' = st\<lparr>ds_lagged_metric := Suc (ds_lagged_metric st),
                   ds_lag_drops := saturating_add_u32 (ds_lag_drops st) (ucast n)\<rparr>
      in if ds_lag_drops st' \<ge> max_lag then (LagLimit, events, st')
         else drain_receiver max_lag events st')"
| "drain_receiver max_lag (Closed # events) st = (ChannelClosed, events, st)"
| "drain_receiver max_lag (Empty # events) st = (Drained, events, st)"

type_synonym subscriptions = "(string \<times> TryRecv list) list"

text \<open>The loop over the subscriptions: whether it returned early, what is left of them, the closed keys.\<close>

fun drain_loop :: "u32 \<Rightarrow> subscriptions \<Rightarrow> string list \<Rightarrow> DrainState \<Rightarrow> bool \<times> subscriptions \<times> string list \<times> DrainState" where
  "drain_loop max_lag [] closed st = (False, [], closed, st)"
| "drain_loop max_lag ((key, events) # subs) closed st =
     (case drain_receiver max_lag events st of
        (LagLimit, events', st') \<Rightarrow> (True, (key, events') # subs, closed, st')
      | (exit, events', st') \<Rightarrow>
          (case drain_loop max_lag subs (if exit = ChannelClosed then closed @ [key] else closed) st' of
             (early, subs', closed', st'') \<Rightarrow> (early, (key, events') # subs', closed', st'')))"

definition drain_subscriptions :: "u32 \<Rightarrow> subscriptions \<Rightarrow> DrainState \<Rightarrow> bool \<times> subscriptions \<times> DrainState" where
  "drain_subscriptions max_lag subs st0 =
     (case drain_loop max_lag subs [] (st0\<lparr>ds_got_any := False\<rparr>) of
        (early, subs', closed, st) \<Rightarrow>
          (ds_got_any st, if early then subs' else filter (\<lambda>ke. fst ke \<notin> set closed) subs', st))"

text \<open>One pass of the fan-out task: drain into fresh buffers and hand the frames to the queue.\<close>

definition fanout_pass :: "u32 \<Rightarrow> subscriptions \<Rightarrow> u32 \<Rightarrow> Outbound \<Rightarrow> bool \<times> subscriptions \<times> u32 \<times> Outbound" where
  "fanout_pass max_lag subs lag out =
     (case drain_subscriptions max_lag subs
             \<lparr> ds_seen = [], ds_pending = [], ds_lag_drops = lag, ds_got_any = False, ds_lagged_metric = 0 \<rparr> of
        (got, subs', st) \<Rightarrow>
          (got, subs', ds_lag_drops st, if got then fold enqueue_frame (ds_pending st) out else out))"

section \<open>Control messages\<close>

record 'c Connection =
  cn_hub :: "'c BroadcastHub"
  cn_subs :: "string list"
  cn_out :: Outbound

definition drop_receiver :: "'c broadcast_ops \<Rightarrow> string \<Rightarrow> 'c BroadcastHub \<Rightarrow> 'c BroadcastHub" where
  "drop_receiver bc key hub =
     (if key = WILDCARD_TOPIC then hub\<lparr>hub_wildcard := bc_drop bc (hub_wildcard hub)\<rparr>
      else case hub_topics hub key of
             None \<Rightarrow> hub
           | Some ch \<Rightarrow> hub\<lparr>hub_topics := (hub_topics hub)(key \<mapsto> ch\<lparr>ch_tx := bc_drop bc (ch_tx ch)\<rparr>)\<rparr>)"

text \<open>Inserting a receiver under a key already present drops the receiver that was there.\<close>

definition insert_sub :: "'c broadcast_ops \<Rightarrow> string \<Rightarrow> 'c Connection \<Rightarrow> 'c Connection" where
  "insert_sub bc key cn =
     (if key \<in> set (cn_subs cn) then cn\<lparr>cn_hub := drop_receiver bc key (cn_hub cn)\<rparr>
      else cn\<lparr>cn_subs := cn_subs cn @ [key]\<rparr>)"

definition remove_sub :: "'c broadcast_ops \<Rightarrow> string \<Rightarrow> 'c Connection \<Rightarrow> 'c Connection" where
  "remove_sub bc key cn =
     (if key \<in> set (cn_subs cn)
      then cn\<lparr>cn_hub := drop_receiver bc key (cn_hub cn), cn_subs := removeAll key (cn_subs cn)\<rparr>
      else cn)"

definition subscribe_one :: "'c broadcast_ops \<Rightarrow> string \<Rightarrow> 'c Connection \<Rightarrow> 'c Connection" where
  "subscribe_one bc topic cn =
     insert_sub bc topic
       (cn\<lparr>cn_hub := (if topic = WILDCARD_TOPIC then subscribe_wildcard bc (cn_hub cn)
                      else subscribe bc topic (cn_hub cn))\<rparr>)"

definition unsubscribe_one :: "'c broadcast_ops \<Rightarrow> string \<Rightarrow> 'c Connection \<Rightarrow> 'c Connection" where
  "unsubscribe_one bc topic cn =
     (let cn1 = (if topic = WILDCARD_TOPIC then cn\<lparr>cn_hub := unsubscribe_wildcard (cn_hub cn)\<rparr> else cn);
          cn2 = remove_sub bc topic cn1
      in cn2\<lparr>cn_hub := remove_subscriber bc topic (cn_hub cn2)\<rparr>)"

fun handle_control ::
    "'c broadcast_ops \<Rightarrow> (string \<Rightarrow> IlpRow list \<Rightarrow> bytes option) \<Rightarrow> ControlIn \<Rightarrow> 'c Connection \<Rightarrow> 'c Connection" where
  "handle_control bc encr (Subscribe topics) cn = fold (subscribe_one bc) topics cn"
| "handle_control bc encr (Unsubscribe topics) cn = fold (unsubscribe_one bc) topics cn"
| "handle_control bc encr (Replay topic n) cn =
     (case encr topic (replay topic n (cn_hub cn)) of
        Some bytes \<Rightarrow> cn\<lparr>cn_out := enqueue_frame bytes (cn_out cn)\<rparr>
      | None \<Rightarrow> cn)"

fun reader_loop ::
    "'c broadcast_ops \<Rightarrow> (string \<Rightarrow> ControlIn option) \<Rightarrow> (string \<Rightarrow> IlpRow list \<Rightarrow> bytes option)
       \<Rightarrow> Message list \<Rightarrow> 'c Connection \<Rightarrow> 'c Connection" where
  "reader_loop bc dec encr [] cn = cn"
| "reader_loop bc dec encr (Text text # msgs) cn =
     reader_loop bc dec encr msgs
       (case dec text of Some ctl \<Rightarrow> handle_control bc encr ctl cn | None \<Rightarrow> cn)"
| "reader_loop bc dec encr (Close # msgs) cn = cn"
| "reader_loop bc dec encr (OtherMessage # msgs) cn = reader_loop bc dec encr msgs cn"

text \<open>
  The clean-up at the end of the connection. The receivers are still in the table it iterates over
  (and in the hands of the detached fan-out task), so none is dropped before the hub counts them.
\<close>

definition cleanup_one :: "'c broadcast_ops \<Rightarrow> string \<Rightarrow> 'c BroadcastHub \<Rightarrow> 'c BroadcastHub" where
  "cleanup_one bc key hub =
     (if key = WILDCARD_TOPIC then unsubscribe_wildcard hub else remove_subscriber bc key hub)"

definition disconnect :: "'c broadcast_ops \<Rightarrow> 'c Connection \<Rightarrow> 'c BroadcastHub" where
  "disconnect bc cn = fold (cleanup_one bc) (cn_subs cn) (cn_hub cn)"

section \<open>Specification vocabulary\<close>

fun ticks_of :: "TryRecv list \<Rightarrow> StreamTick list" where
  "ticks_of (Tick t # events) = t # ticks_of events"
| "ticks_of (Lagged n # events) = ticks_of events"
| "ticks_of _ = []"

fun dedup :: "nat list \<Rightarrow> StreamTick list \<Rightarrow> StreamTick list" where
  "dedup seen [] = []"
| "dedup seen (t # ts) =
     (if tick_ptr t \<in> set seen then dedup seen ts else t # dedup (seen @ [tick_ptr t]) ts)"

definition demo_tick :: "nat \<Rightarrow> bytes \<Rightarrow> StreamTick" where
  "demo_tick p w = \<lparr> tick_row = demo_row, tick_wire = w, tick_ptr = p \<rparr>"

definition demo_connection :: "(nat \<times> StreamTick list) Connection" where
  "demo_connection = \<lparr> cn_hub = demo_hub, cn_subs = [], cn_out = \<lparr> ob_queue = [], ob_lagged_metric = 0 \<rparr> \<rparr>"

section \<open>Lemmas\<close>

interpretation outbound: bounded_window queue_push OUTBOUND_CAPACITY
proof unfold_locales
  fix q :: "bytes list" and x
  assume "length q \<le> OUTBOUND_CAPACITY"
  then show "queue_push x q = last_n OUTBOUND_CAPACITY (q @ [x])"
    by (cases q) (auto simp: queue_push_def last_n_def OUTBOUND_CAPACITY_def)
qed

lemma enqueue_run:
  "ob_queue (fold enqueue_frame frames out) = fold queue_push frames (ob_queue out)"
  by (induction frames arbitrary: out) (simp_all add: enqueue_frame_def)

lemma enqueue_conserves:
  "length (ob_queue out) \<le> OUTBOUND_CAPACITY \<Longrightarrow>
   ob_lagged_metric (fold enqueue_frame frames out) + length (ob_queue (fold enqueue_frame frames out)) =
     ob_lagged_metric out + length (ob_queue out) + length frames"
proof (induction frames arbitrary: out)
  case (Cons f frames)
  then have "length (ob_queue (enqueue_frame f out)) \<le> OUTBOUND_CAPACITY"
    and "ob_lagged_metric (enqueue_frame f out) + length (ob_queue (enqueue_frame f out)) =
      ob_lagged_metric out + length (ob_queue out) + 1"
    by (auto simp: enqueue_frame_def queue_push_def OUTBOUND_CAPACITY_def)
  with Cons.IH show ?case by simp
qed simp

lemma saturating_add_ge: "a \<le> saturating_add_u32 a b"
proof -
  have "min (unat a + unat b) (2 ^ 32 - 1) < (2 :: nat) ^ 32" by simp
  then have "unat (saturating_add_u32 a b) = min (unat a + unat b) (2 ^ 32 - 1)"
    by (simp add: saturating_add_u32_def unat_of_nat)
  moreover have "unat a \<le> 2 ^ 32 - 1" using unsigned_less [where ?'a = nat and w = a] by simp
  ultimately show ?thesis by (simp add: word_le_nat_alt)
qed

lemma dedup_seen_append:
  "dedup seen (ts @ us) = dedup seen ts @ dedup (seen @ map tick_ptr (dedup seen ts)) us"
  by (induction ts arbitrary: seen) auto

lemma drain_receiver_spec:
  "drain_receiver max_lag events st = (exit, events', st') \<Longrightarrow>
     ds_lag_drops st \<le> ds_lag_drops st'
   \<and> (exit = LagLimit \<longrightarrow> max_lag \<le> ds_lag_drops st')
   \<and> (exit \<noteq> LagLimit \<longrightarrow>
        ds_pending st' = ds_pending st @ map tick_wire (dedup (ds_seen st) (ticks_of events))
      \<and> ds_seen st' = ds_seen st @ map tick_ptr (dedup (ds_seen st) (ticks_of events))
      \<and> (ds_got_any st' \<longleftrightarrow> ds_got_any st \<or> dedup (ds_seen st) (ticks_of events) \<noteq> []))"
proof (induction max_lag events st rule: drain_receiver.induct)
  case (2 max_lag tick events st)
  then show ?case by (auto split: if_splits)
next
  case (3 max_lag n events st)
  have ge: "ds_lag_drops st \<le> saturating_add_u32 (ds_lag_drops st) (ucast n)"
    by (rule saturating_add_ge)
  from 3 ge show ?case by (auto simp: Let_def split: if_splits intro: order_trans)
qed auto

lemma drain_loop_spec:
  "drain_loop max_lag subs closed st = (early, subs', closed', st') \<Longrightarrow>
     ds_lag_drops st \<le> ds_lag_drops st'
   \<and> (early \<longrightarrow> max_lag \<le> ds_lag_drops st')
   \<and> (\<not> early \<longrightarrow>
        ds_pending st' = ds_pending st @
          map tick_wire (dedup (ds_seen st) (concat (map (\<lambda>ke. ticks_of (snd ke)) subs)))
      \<and> (ds_got_any st' \<longleftrightarrow> ds_got_any st \<or>
          dedup (ds_seen st) (concat (map (\<lambda>ke. ticks_of (snd ke)) subs)) \<noteq> []))"
proof (induction subs arbitrary: closed st early subs' closed' st')
  case (Cons ke subs)
  obtain key events where ke: "ke = (key, events)" by fastforce
  obtain exit ev1 st1 where r: "drain_receiver max_lag events st = (exit, ev1, st1)"
    by (metis prod_cases3)
  note spec = drain_receiver_spec [OF r]
  show ?case
  proof (cases "exit = LagLimit")
    case True
    with Cons.prems r spec ke show ?thesis by auto
  next
    case False
    obtain e2 s2 c2 st2
      where l: "drain_loop max_lag subs (if exit = ChannelClosed then closed @ [key] else closed) st1 = (e2, s2, c2, st2)"
      by (metis prod_cases4)
    from Cons.prems r False l ke have eqs: "early = e2" "st' = st2" by (auto split: DrainExit.splits)
    note rest = Cons.IH [OF l]
    have lag: "ds_lag_drops st \<le> ds_lag_drops st2" using spec rest by (meson order_trans)
    show ?thesis
      unfolding eqs using spec rest lag False ke by (simp add: dedup_seen_append)
  qed
qed simp

lemma fanout_pass_frames:
  assumes "fanout_pass max_lag subs lag out = (got, subs', lag', out')" and "lag' < max_lag"
  shows "let frames = map tick_wire (dedup [] (concat (map (\<lambda>ke. ticks_of (snd ke)) subs)))
    in got = (frames \<noteq> []) \<and> out' = fold enqueue_frame frames out"
proof -
  let ?st = "\<lparr> ds_seen = [], ds_pending = [], ds_lag_drops = lag, ds_got_any = False, ds_lagged_metric = 0 \<rparr>"
  obtain early s c st where l: "drain_loop max_lag subs [] ?st = (early, s, c, st)"
    by (metis prod_cases4)
  with assms have "\<not> early"
    using drain_loop_spec [OF l] by (auto simp: fanout_pass_def drain_subscriptions_def)
  with drain_loop_spec [OF l] assms(1) l show ?thesis
    by (auto simp: fanout_pass_def drain_subscriptions_def)
qed

lemma remove_subscriber_live:
  assumes "topic_receiver_count bc hub topic > 0"
  shows "hub_topics (remove_subscriber bc topic hub) = hub_topics hub"
    and "hub_wildcard_subscribers (remove_subscriber bc topic hub) = hub_wildcard_subscribers hub"
  using assms
  by (auto simp: remove_subscriber_def remove_check_def remove_commit_def topic_receiver_count_def
      split: option.splits)

lemma cleanup_one_topics:
  assumes "key \<noteq> WILDCARD_TOPIC \<longrightarrow> topic_receiver_count bc hub key > 0"
  shows "hub_topics (cleanup_one bc key hub) = hub_topics hub"
  using assms by (auto simp: cleanup_one_def remove_subscriber_live unsubscribe_wildcard_def)

lemma topic_receiver_count_cong:
  "hub_topics hub = hub_topics hub' \<Longrightarrow> topic_receiver_count bc hub t = topic_receiver_count bc hub' t"
  by (simp add: topic_receiver_count_def)

lemma cleanup_topics:
  "\<forall>key \<in> set subs. key \<noteq> WILDCARD_TOPIC \<longrightarrow> topic_receiver_count bc hub key > 0 \<Longrightarrow>
     hub_topics (fold (cleanup_one bc) subs hub) = hub_topics hub"
proof (induction subs arbitrary: hub)
  case (Cons key subs)
  have one: "hub_topics (cleanup_one bc key hub) = hub_topics hub"
    using Cons.prems by (intro cleanup_one_topics) simp
  with Cons show ?case by (simp add: topic_receiver_count_cong [OF one])
qed simp

lemma subscribe_unsubscribe_topic:
  assumes laws: "broadcast_laws bc" and t: "t \<noteq> WILDCARD_TOPIC" "t \<notin> set (cn_subs cn)"
  shows "cn_subs (unsubscribe_one bc t (subscribe_one bc t cn)) = cn_subs cn
    \<and> topic_receiver_count bc (cn_hub (unsubscribe_one bc t (subscribe_one bc t cn))) u =
        topic_receiver_count bc (cn_hub cn) u
    \<and> (topic_receiver_count bc (cn_hub cn) t = 0 \<longrightarrow>
        hub_topics (cn_hub (unsubscribe_one bc t (subscribe_one bc t cn))) t = None)"
proof (cases "hub_topics (cn_hub cn) t")
  case None
  with t broadcast_lawsD [OF laws] show ?thesis
    by (simp add: unsubscribe_one_def subscribe_one_def insert_sub_def remove_sub_def drop_receiver_def
        subscribe_topics get_or_create_topic_def remove_subscriber_def remove_check_def remove_commit_def
        topic_receiver_count_def Let_def)
next
  case (Some ch)
  with t broadcast_lawsD [OF laws] show ?thesis
    by (simp add: unsubscribe_one_def subscribe_one_def insert_sub_def remove_sub_def drop_receiver_def
        subscribe_topics get_or_create_topic_def remove_subscriber_def remove_check_def remove_commit_def
        topic_receiver_count_def Let_def)
qed

section \<open>Properties\<close>

text \<open>
  One fan-out pass. Unless the client has lagged past its limit, a pass forwards every tick read
  from the subscriptions exactly once - in the order of the subscriptions, the first copy of a tick
  that arrives through several topics or the wildcard - and reports whether there was one. The queue
  then holds the most recent frames, never more than its capacity, and every frame that does not fit
  is counted.
\<close>

theorem fanout_delivers_each_tick_once:
  assumes "fanout_pass max_lag subs lag \<lparr> ob_queue = q, ob_lagged_metric = k \<rparr> = (got, subs', lag', out')"
    and "lag' < max_lag" and "length q \<le> OUTBOUND_CAPACITY"
  shows "let frames = map tick_wire (dedup [] (concat (map (\<lambda>ke. ticks_of (snd ke)) subs)))
    in got = (frames \<noteq> [])
     \<and> ob_queue out' = last_n OUTBOUND_CAPACITY (q @ frames)
     \<and> ob_lagged_metric out' + length (ob_queue out') = k + length q + length frames"
proof -
  have "last_n OUTBOUND_CAPACITY q = q" using assms(3) by (simp add: last_n_def)
  with fanout_pass_frames [OF assms(1,2)] assms(3) show ?thesis
    using outbound.run_last_n [where ys = q] enqueue_conserves [of "\<lparr> ob_queue = q, ob_lagged_metric = k \<rparr>"]
    by (simp add: Let_def enqueue_run)
qed

theorem fanout_delivers_each_tick_once_witness:
  "ob_queue (snd (snd (snd (fanout_pass 10
      [(''BTC'', [Tick (demo_tick 0 ''a''), Lagged 3, Tick (demo_tick 1 ''b'')]), (''*'', [Tick (demo_tick 0 ''a''), Tick (demo_tick 2 ''c'')])]
      0 \<lparr> ob_queue = [], ob_lagged_metric = 0 \<rparr>)))) = [''a'', ''b'', ''c'']"
proof -
  let ?subs = "[(''BTC'', [Tick (demo_tick 0 ''a''), Lagged 3, Tick (demo_tick 1 ''b'')]), (''*'', [Tick (demo_tick 0 ''a''), Tick (demo_tick 2 ''c'')])]"
  obtain got subs' lag' out' where p: "fanout_pass 10 ?subs 0 \<lparr> ob_queue = [], ob_lagged_metric = 0 \<rparr>
      = (got, subs', lag', out')" by (metis prod_cases4)
  have "lag' = 3"
    using p by (auto simp: fanout_pass_def drain_subscriptions_def demo_tick_def saturating_add_u32_def)
  then show ?thesis
    using fanout_delivers_each_tick_once [OF p] p
    by (simp add: demo_tick_def OUTBOUND_CAPACITY_def last_n_def)
qed

text \<open>
  Subscribing to a topic and unsubscribing again leaves every receiver count as it was, forgets
  the subscription, and removes the topic from the hub when nobody else listens to it.
\<close>

theorem unsubscribe_undoes_subscribe:
  assumes "broadcast_laws bc" and "t \<noteq> WILDCARD_TOPIC" and "t \<notin> set (cn_subs cn)"
  shows "let cn' = handle_control bc encr (Unsubscribe [t]) (handle_control bc encr (Subscribe [t]) cn)
    in cn_subs cn' = cn_subs cn
     \<and> topic_receiver_count bc (cn_hub cn') u = topic_receiver_count bc (cn_hub cn) u
     \<and> (topic_receiver_count bc (cn_hub cn) t = 0 \<longrightarrow> hub_topics (cn_hub cn') t = None)"
  using subscribe_unsubscribe_topic [OF assms] by (simp add: Let_def)

theorem unsubscribe_undoes_subscribe_witness:
  "hub_topics (cn_hub (handle_control ref_bc (\<lambda>_ _. None) (Unsubscribe [''BTC''])
     (handle_control ref_bc (\<lambda>_ _. None) (Subscribe [''BTC'']) demo_connection))) ''BTC'' = None"
  using unsubscribe_undoes_subscribe [OF ref_bc_laws, of "''BTC''" demo_connection "\<lambda>_ _. None" "''BTC''"]
  by (simp add: WILDCARD_TOPIC_def demo_connection_def demo_hub_def hub_new_def topic_receiver_count_def
      Let_def del: One_nat_def)

text \<open>
  A disconnect removes nothing: the clean-up asks the hub to remove the topics while the
  connection's own receivers still count, so every topic it was subscribed to stays in the table with
  its receivers, and a client that subscribed to the wildcard twice leaves the wildcard counter at
  one although the hub has no client.
\<close>

theorem disconnect_removes_no_topic:
  "(\<forall>key \<in> set (cn_subs cn). key \<noteq> WILDCARD_TOPIC \<longrightarrow> topic_receiver_count bc (cn_hub cn) key > 0) \<longrightarrow>
     hub_topics (disconnect bc cn) = hub_topics (cn_hub cn)"
  by (simp add: disconnect_def cleanup_topics)

theorem disconnect_removes_no_topic_witness:
  "let cn = handle_control ref_bc (\<lambda>_ _. None) (Subscribe [''BTC'', ''*'', ''*'']) demo_connection
   in hub_topics (disconnect ref_bc cn) = hub_topics (cn_hub cn)
    \<and> hub_topics (cn_hub cn) ''BTC'' \<noteq> None
    \<and> hub_wildcard_subscribers (disconnect ref_bc cn) = 1"
proof -
  let ?cn = "handle_control ref_bc (\<lambda>_ _. None) (Subscribe [''BTC'', ''*'', ''*'']) demo_connection"
  note defs = subscribe_one_def insert_sub_def demo_connection_def demo_hub_def hub_new_def
    WILDCARD_TOPIC_def drop_receiver_def subscribe_wildcard_def subscribe_topics get_or_create_topic_def
  have subs: "cn_subs ?cn = [''BTC'', ''*'']" by (simp add: defs)
  have ch: "hub_topics (cn_hub ?cn) ''BTC'' \<noteq> None" by (simp add: defs)
  have count: "topic_receiver_count ref_bc (cn_hub ?cn) ''BTC'' = 1"
    by (simp add: defs topic_receiver_count_def ref_bc_def)
  have two: "hub_wildcard_subscribers (cn_hub ?cn) = 2" by (simp add: defs)
  have "hub_wildcard_subscribers (disconnect ref_bc ?cn) = 1"
    using two count
    unfolding disconnect_def subs
    by (simp add: cleanup_one_def WILDCARD_TOPIC_def unsubscribe_wildcard_def remove_subscriber_live
        del: handle_control.simps)
  with disconnect_removes_no_topic [of ?cn ref_bc] subs ch count show ?thesis
    by (simp add: Let_def WILDCARD_TOPIC_def del: handle_control.simps)
qed

text \<open>
  A tick is recognised by its address only. Two different ticks that are seen under one address
  in one pass - the first one freed, the second allocated in its place - count as one, and the second
  is never sent.
\<close>

theorem reused_address_loses_a_tick:
  "fanout_pass 10 [(''BTC'', [Tick (demo_tick 7 ''a''), Tick (demo_tick 7 ''b'')])] 0
     \<lparr> ob_queue = [], ob_lagged_metric = 0 \<rparr>
   = (True, [(''BTC'', [])], 0, \<lparr> ob_queue = [''a''], ob_lagged_metric = 0 \<rparr>)"
  by (simp add: fanout_pass_def drain_subscriptions_def demo_tick_def enqueue_frame_def queue_push_def
      OUTBOUND_CAPACITY_def)

end
