(* ===== verification/Stream_Session.thy ===== *)
theory Stream_Session
  imports Stream_Ws "HOL-Library.Sublist"
begin

text \<open>
  The tasks of one stream connection, \<open>handle_socket\<close> of \<open>stream/ws.rs\<close>: the reader, the fan-out and the writer
  run concurrently and share the subscription table and the outbound queue; the handler itself waits for the
  reader or the fan-out to end, tells the writer to finish, waits for it and cleans up. Each operation on shared
  data is one step; between two steps any task can run, and the rest of the process can publish. Giving up
  the handle of a task does not stop the task (it is detached), so the task that has not ended goes on.

  The writer pops a frame and waits for the socket to take it; when the queue was empty it looks at the shutdown flag
  and then waits to be notified. \<open>sn_notified\<close> is the permit of that notification: waking the writer stores it, and
  a wait takes it. The frames handed to the queue so far are recorded in \<open>sn_enqueued\<close>, those the socket took in
  \<open>sn_sent\<close>.
\<close>

datatype ReaderPhase = RdWaiting | RdSubscribe "string list" | RdUnsubscribe "string list" | RdEnded

datatype FanoutPhase = FoLoop | FoInner | FoArmed | FoWait | FoSend "bytes list" bool | FoStopped

datatype WriterPhase = WrRunning | WrSending bytes | WrIdle | WrAwait | WrFailed | WrDone

record 'c StreamSession =
  sn_conn :: "'c Connection"
  sn_events :: "string \<Rightarrow> TryRecv list"
  sn_lag :: u32
  sn_reader :: ReaderPhase
  sn_fanout :: FanoutPhase
  sn_writer :: WriterPhase
  sn_notified :: bool
  sn_shutdown :: bool
  sn_returned :: bool
  sn_sent :: "bytes list"
  sn_enqueued :: "bytes list"
  sn_dropped_metric :: nat

record 'c session_env =
  se_bc :: "'c broadcast_ops"
  se_decode :: "string \<Rightarrow> ControlIn option"
  se_encode :: "string \<Rightarrow> IlpRow list \<Rightarrow> bytes option"
  se_max_lag :: u32

definition session_start :: "'c BroadcastHub \<Rightarrow> 'c StreamSession" where
  "session_start hub =
     \<lparr> sn_conn = \<lparr> cn_hub = hub, cn_subs = [], cn_out = \<lparr> ob_queue = [], ob_lagged_metric = 0 \<rparr> \<rparr>,
       sn_events = (\<lambda>_. []), sn_lag = 0, sn_reader = RdWaiting, sn_fanout = FoLoop, sn_writer = WrRunning,
       sn_notified = False, sn_shutdown = False, sn_returned = False, sn_sent = [], sn_enqueued = [], sn_dropped_metric = 0 \<rparr>"

definition session_queue :: "'c StreamSession \<Rightarrow> bytes list" where
  "session_queue s = ob_queue (cn_out (sn_conn s))"

definition push_frame :: "bytes \<Rightarrow> 'c StreamSession \<Rightarrow> 'c StreamSession" where
  "push_frame frame s =
     s\<lparr>sn_conn := (sn_conn s)\<lparr>cn_out := enqueue_frame frame (cn_out (sn_conn s))\<rparr>, sn_notified := True, sn_enqueued := sn_enqueued s @ [frame]\<rparr>"

section \<open>The reader\<close>

definition reader_control :: "'c session_env \<Rightarrow> ControlIn \<Rightarrow> 'c StreamSession \<Rightarrow> 'c StreamSession" where
  "reader_control env ctl s =
     (case ctl of
        Subscribe topics \<Rightarrow> s\<lparr>sn_reader := RdSubscribe topics\<rparr>
      | Unsubscribe topics \<Rightarrow> s\<lparr>sn_reader := RdUnsubscribe topics\<rparr>
      | Replay topic n \<Rightarrow>
          (case se_encode env topic (replay topic n (cn_hub (sn_conn s))) of
             Some frame \<Rightarrow> push_frame frame s
           | None \<Rightarrow> s))"

text \<open>A message: control text, a close frame, or another one; an unreadable control text is skipped.\<close>

definition reader_message :: "'c session_env \<Rightarrow> Message \<Rightarrow> 'c StreamSession \<Rightarrow> 'c StreamSession" where
  "reader_message env msg s =
     (case msg of
        Text text \<Rightarrow> (case se_decode env text of Some ctl \<Rightarrow> reader_control env ctl s | None \<Rightarrow> s)
      | Close \<Rightarrow> s\<lparr>sn_reader := RdEnded\<rparr>
      | OtherMessage \<Rightarrow> s)"

text \<open>The loops over the topics of a message, one topic a step. A new receiver has nothing to read yet.\<close>

definition reader_topic :: "'c session_env \<Rightarrow> 'c StreamSession \<Rightarrow> 'c StreamSession" where
  "reader_topic env s =
     (case sn_reader s of
        RdSubscribe (topic # topics) \<Rightarrow>
          s\<lparr>sn_conn := subscribe_one (se_bc env) topic (sn_conn s), sn_events := (sn_events s)(topic := []),
            sn_reader := RdSubscribe topics\<rparr>
      | RdUnsubscribe (topic # topics) \<Rightarrow>
          s\<lparr>sn_conn := unsubscribe_one (se_bc env) topic (sn_conn s), sn_reader := RdUnsubscribe topics\<rparr>
      | RdSubscribe [] \<Rightarrow> s\<lparr>sn_reader := RdWaiting\<rparr>
      | RdUnsubscribe [] \<Rightarrow> s\<lparr>sn_reader := RdWaiting\<rparr>
      | _ \<Rightarrow> s)"

section \<open>The fan-out\<close>

text \<open>
  Draining the table. A channel that is closed has no sender left in the hub, so dropping its receiver changes
  nothing there.
\<close>

definition session_drain :: "u32 \<Rightarrow> 'c StreamSession \<Rightarrow> bool \<times> bytes list \<times> 'c StreamSession" where
  "session_drain max_lag s =
     (case drain_subscriptions max_lag (map (\<lambda>k. (k, sn_events s k)) (cn_subs (sn_conn s)))
             \<lparr> ds_seen = [], ds_pending = [], ds_lag_drops = sn_lag s, ds_got_any = False, ds_lagged_metric = 0 \<rparr> of
        (got, subs', st) \<Rightarrow>
          (got, ds_pending st,
           s\<lparr>sn_conn := (sn_conn s)\<lparr>cn_subs := map fst subs'\<rparr>,
             sn_events := (\<lambda>k. case map_of subs' k of Some ev \<Rightarrow> ev | None \<Rightarrow> sn_events s k),
             sn_lag := ds_lag_drops st\<rparr>))"

definition fanout_stop :: "'c StreamSession \<Rightarrow> 'c StreamSession" where
  "fanout_stop s = s\<lparr>sn_fanout := FoStopped, sn_dropped_metric := Suc (sn_dropped_metric s)\<rparr>"

text \<open>
  One step of the fan-out task; \<open>None\<close> while it waits for a publication or has ended. A table without entries is
  looked at again after a pause. Frames collected by a pass are queued one by one; the flag says whether the
  inner loop goes on after them.
\<close>

definition fanout_step :: "'c session_env \<Rightarrow> 'c StreamSession \<Rightarrow> 'c StreamSession option" where
  "fanout_step env s =
     (case sn_fanout s of
        FoLoop \<Rightarrow> Some (if cn_subs (sn_conn s) = [] then s else s\<lparr>sn_fanout := FoInner\<rparr>)
      | FoInner \<Rightarrow>
          (case session_drain (se_max_lag env) s of
             (True, pending, s') \<Rightarrow> Some (s'\<lparr>sn_fanout := FoSend pending True\<rparr>)
           | (False, _, s') \<Rightarrow>
               Some (if sn_lag s' \<ge> se_max_lag env then fanout_stop s' else s'\<lparr>sn_fanout := FoArmed\<rparr>))
      | FoArmed \<Rightarrow>
          (case session_drain (se_max_lag env) s of
             (True, pending, s') \<Rightarrow> Some (s'\<lparr>sn_fanout := FoSend pending False\<rparr>)
           | (False, _, s') \<Rightarrow>
               Some (if sn_lag s' \<ge> se_max_lag env then fanout_stop s' else s'\<lparr>sn_fanout := FoWait\<rparr>))
      | FoSend (frame # frames) inner \<Rightarrow> Some ((push_frame frame s)\<lparr>sn_fanout := FoSend frames inner\<rparr>)
      | FoSend [] inner \<Rightarrow> Some (s\<lparr>sn_fanout := (if inner then FoInner else FoLoop)\<rparr>)
      | FoWait \<Rightarrow> None
      | FoStopped \<Rightarrow> None)"

section \<open>The writer and the handler\<close>

text \<open>
  One step of the writer; \<open>ok\<close> says whether the socket takes the frame that is being sent. \<open>None\<close> while it waits to be
  notified or has ended; a send that stalls is the phase \<open>WrSending\<close> for as long as the writer makes no step.
\<close>

definition writer_step :: "bool \<Rightarrow> 'c StreamSession \<Rightarrow> 'c StreamSession option" where
  "writer_step ok s =
     (case sn_writer s of
        WrRunning \<Rightarrow>
          (case session_queue s of
             frame # q \<Rightarrow> Some (s\<lparr>sn_conn := (sn_conn s)\<lparr>cn_out := (cn_out (sn_conn s))\<lparr>ob_queue := q\<rparr>\<rparr>, sn_writer := WrSending frame\<rparr>)
           | [] \<Rightarrow> Some (s\<lparr>sn_writer := WrIdle\<rparr>))
      | WrSending frame \<Rightarrow>
          Some (if ok then s\<lparr>sn_sent := sn_sent s @ [frame], sn_writer := WrRunning\<rparr> else s\<lparr>sn_writer := WrFailed\<rparr>)
      | WrIdle \<Rightarrow> Some (s\<lparr>sn_writer := (if sn_shutdown s then WrDone else WrAwait)\<rparr>)
      | WrAwait \<Rightarrow> if sn_notified s then Some (s\<lparr>sn_notified := False, sn_writer := WrRunning\<rparr>) else None
      | WrFailed \<Rightarrow> None
      | WrDone \<Rightarrow> None)"

definition writer_ended :: "'c StreamSession \<Rightarrow> bool" where
  "writer_ended s \<longleftrightarrow> sn_writer s = WrFailed \<or> sn_writer s = WrDone"

definition handler_step :: "'c session_env \<Rightarrow> 'c StreamSession \<Rightarrow> 'c StreamSession option" where
  "handler_step env s =
     (if sn_returned s then None
      else if \<not> sn_shutdown s then
        (if sn_reader s = RdEnded \<or> sn_fanout s = FoStopped then Some (s\<lparr>sn_shutdown := True, sn_notified := True\<rparr>) else None)
      else if \<not> writer_ended s then None
      else Some (s\<lparr>sn_conn := (sn_conn s)\<lparr>cn_hub := disconnect (se_bc env) (sn_conn s)\<rparr>, sn_returned := True\<rparr>))"

section \<open>Interleavings\<close>

datatype Task = Reader | Fanout | Writer | Handler | Others

inductive session_step :: "'c session_env \<Rightarrow> Task \<Rightarrow> 'c StreamSession \<Rightarrow> 'c StreamSession \<Rightarrow> bool" for env where
  read: "sn_reader s = RdWaiting \<Longrightarrow> session_step env Reader s (reader_message env msg s)"
| read_end: "sn_reader s = RdWaiting \<Longrightarrow> session_step env Reader s (s\<lparr>sn_reader := RdEnded\<rparr>)"
| topic: "sn_reader s = RdSubscribe ts \<or> sn_reader s = RdUnsubscribe ts \<Longrightarrow> session_step env Reader s (reader_topic env s)"
| fanout: "fanout_step env s = Some s' \<Longrightarrow> session_step env Fanout s s'"
| notified: "sn_fanout s = FoWait \<Longrightarrow> session_step env Fanout s (s\<lparr>sn_fanout := FoLoop\<rparr>)"
| written: "writer_step ok s = Some s' \<Longrightarrow> session_step env Writer s s'"
| handler: "handler_step env s = Some s' \<Longrightarrow> session_step env Handler s s'"
| others: "session_step env Others s
     (s\<lparr>sn_conn := (sn_conn s)\<lparr>cn_hub := hub'\<rparr>, sn_events := (\<lambda>k. sn_events s k @ new k)\<rparr>)"

inductive session_run :: "'c session_env \<Rightarrow> 'c StreamSession \<Rightarrow> 'c StreamSession \<Rightarrow> bool" for env where
  run_none: "session_run env s s"
| run_step: "session_run env s s1 \<Longrightarrow> session_step env task s1 s2 \<Longrightarrow> session_run env s s2"

inductive_cases writer_stepE: "session_step env Writer s s'"

text \<open>A run with the tasks that made its steps.\<close>

fun session_trace :: "'c session_env \<Rightarrow> Task list \<Rightarrow> 'c StreamSession \<Rightarrow> 'c StreamSession \<Rightarrow> bool" where
  "session_trace env [] s s' \<longleftrightarrow> s' = s"
| "session_trace env (task # tasks) s s' \<longleftrightarrow> (\<exists>s1. session_step env task s s1 \<and> session_trace env tasks s1 s')"

text \<open>The frame that the writer has taken from the queue and is sending.\<close>

definition in_flight :: "'c StreamSession \<Rightarrow> bytes list" where
  "in_flight s = (case sn_writer s of WrSending frame \<Rightarrow> [frame] | _ \<Rightarrow> [])"

text \<open>What every reachable state satisfies. A writer that waits has been woken when there is something for it to see.\<close>

definition session_inv :: "'c session_env \<Rightarrow> 'c StreamSession \<Rightarrow> bool" where
  "session_inv env s \<longleftrightarrow>
     length (session_queue s) \<le> OUTBOUND_CAPACITY
   \<and> subseq (sn_sent s @ in_flight s @ session_queue s) (sn_enqueued s)
   \<and> length (sn_sent s) + length (in_flight s) + length (session_queue s) + ob_lagged_metric (cn_out (sn_conn s))
       + (if sn_writer s = WrFailed then 1 else 0) = length (sn_enqueued s)
   \<and> (sn_writer s = WrDone \<longrightarrow> sn_shutdown s)
   \<and> (sn_shutdown s \<longrightarrow> sn_reader s = RdEnded \<or> sn_fanout s = FoStopped)
   \<and> (sn_fanout s = FoStopped \<longrightarrow> se_max_lag env \<le> sn_lag s)
   \<and> (sn_returned s \<longrightarrow> sn_shutdown s \<and> writer_ended s)
   \<and> (sn_writer s = WrIdle \<or> sn_writer s = WrAwait \<longrightarrow> session_queue s \<noteq> [] \<longrightarrow> sn_notified s)
   \<and> (sn_writer s = WrAwait \<longrightarrow> sn_shutdown s \<longrightarrow> sn_notified s)"

section \<open>Lemmas\<close>

lemma queue_push_length: "length q \<le> OUTBOUND_CAPACITY \<Longrightarrow> length (queue_push f q) \<le> OUTBOUND_CAPACITY"
  by (auto simp: queue_push_def OUTBOUND_CAPACITY_def)

lemma subseq_queue_push: "subseq (xs @ q) ys \<Longrightarrow> subseq (xs @ queue_push f q) (ys @ [f])"
proof -
  assume a: "subseq (xs @ q) ys"
  have "subseq (xs @ tl q) (xs @ q)" by (cases q) (auto intro: list_emb_append_mono)
  with a have "subseq (xs @ tl q) ys" by (rule subseq_order.trans [rotated])
  with a have "subseq (xs @ (if length q \<ge> OUTBOUND_CAPACITY then tl q else q)) ys" by simp
  then have "subseq ((xs @ (if length q \<ge> OUTBOUND_CAPACITY then tl q else q)) @ [f]) (ys @ [f])"
    by (rule list_emb_append_mono) simp
  then show ?thesis by (simp add: queue_push_def)
qed

lemma push_frame_fields [simp]:
  "session_queue (push_frame f s) = queue_push f (session_queue s)"
  "sn_enqueued (push_frame f s) = sn_enqueued s @ [f]" "sn_sent (push_frame f s) = sn_sent s"
  "sn_writer (push_frame f s) = sn_writer s" "sn_reader (push_frame f s) = sn_reader s"
  "sn_fanout (push_frame f s) = sn_fanout s" "sn_lag (push_frame f s) = sn_lag s"
  "sn_shutdown (push_frame f s) = sn_shutdown s" "sn_returned (push_frame f s) = sn_returned s"
  "sn_notified (push_frame f s)" "in_flight (push_frame f s) = in_flight s" "writer_ended (push_frame f s) = writer_ended s"
  by (simp_all add: push_frame_def session_queue_def enqueue_frame_def in_flight_def writer_ended_def)

lemma push_frame_count:
  "length (session_queue (push_frame f s)) + ob_lagged_metric (cn_out (sn_conn (push_frame f s))) =
     length (session_queue s) + ob_lagged_metric (cn_out (sn_conn s)) + 1"
  by (auto simp: push_frame_def session_queue_def enqueue_frame_def queue_push_def OUTBOUND_CAPACITY_def)

lemma push_frame_inv: "session_inv env s \<Longrightarrow> session_inv env (push_frame f s)"
  using push_frame_count [of f s]
  using subseq_queue_push [of "sn_sent s @ in_flight s" "session_queue s" "sn_enqueued s" f]
  by (auto simp: session_inv_def queue_push_length)

text \<open>Steps that leave the queue and its history alone.\<close>

definition same_frames :: "'c StreamSession \<Rightarrow> 'c StreamSession \<Rightarrow> bool" where
  "same_frames s s' \<longleftrightarrow> cn_out (sn_conn s') = cn_out (sn_conn s) \<and> sn_enqueued s' = sn_enqueued s \<and> sn_sent s' = sn_sent s
     \<and> sn_writer s' = sn_writer s \<and> sn_notified s' = sn_notified s"

lemma same_frames_inv:
  assumes "session_inv env s" and "same_frames s s'" and "sn_shutdown s' = sn_shutdown s" and "sn_returned s' = sn_returned s"
    and "sn_reader s = RdEnded \<longrightarrow> sn_reader s' = RdEnded" and "sn_fanout s = FoStopped \<longrightarrow> sn_fanout s' = FoStopped"
    and "sn_fanout s' = FoStopped \<longrightarrow> se_max_lag env \<le> sn_lag s'"
  shows "session_inv env s'"
  using assms by (auto simp: session_inv_def same_frames_def session_queue_def in_flight_def writer_ended_def)

lemma subscribe_out [simp]:
  "cn_out (subscribe_one bc t cn) = cn_out cn" "cn_out (unsubscribe_one bc t cn) = cn_out cn"
  by (simp_all add: subscribe_one_def unsubscribe_one_def insert_sub_def remove_sub_def Let_def)

lemma session_drain_frame:
  assumes "session_drain m s = (got, pending, s')"
  shows "same_frames s s'" "sn_shutdown s' = sn_shutdown s" "sn_returned s' = sn_returned s"
    "sn_reader s' = sn_reader s" "sn_fanout s' = sn_fanout s"
  using assms by (auto simp: session_drain_def same_frames_def split: prod.splits)

lemma reader_message_inv:
  assumes "session_inv env s" and "sn_reader s = RdWaiting"
  shows "session_inv env (reader_message env msg s)"
proof -
  have change: "session_inv env (s\<lparr>sn_reader := r\<rparr>)" for r
    by (rule same_frames_inv [OF assms(1)]) (use assms in \<open>auto simp: same_frames_def session_inv_def\<close>)
  show ?thesis
    using assms(1) by (auto simp: reader_message_def reader_control_def push_frame_inv change
        split: Message.splits option.splits ControlIn.splits)
qed

lemma reader_topic_inv:
  assumes "session_inv env s" and "sn_reader s = RdSubscribe ts \<or> sn_reader s = RdUnsubscribe ts"
  shows "session_inv env (reader_topic env s)"
proof -
  have "sn_fanout s = FoStopped \<longrightarrow> se_max_lag env \<le> sn_lag s" using assms(1) by (simp add: session_inv_def)
  then show ?thesis
    by (intro same_frames_inv [OF assms(1)]) (use assms(2) in \<open>auto simp: reader_topic_def same_frames_def split: list.splits\<close>)
qed

lemma fanout_step_inv:
  assumes "session_inv env s" and "fanout_step env s = Some s'"
  shows "session_inv env s'"
proof -
  have drained: "session_inv env (s1\<lparr>sn_fanout := ph\<rparr>)" "se_max_lag env \<le> sn_lag s1 \<Longrightarrow> session_inv env (fanout_stop s1)"
    if "session_drain (se_max_lag env) s = (got, pending, s1)" "ph \<noteq> FoStopped" "sn_fanout s \<noteq> FoStopped" for got pending s1 ph
    by (rule same_frames_inv [OF assms(1)];
        use session_drain_frame [OF that(1)] that in \<open>auto simp: same_frames_def fanout_stop_def\<close>)+
  have moved: "session_inv env (s1\<lparr>sn_fanout := ph\<rparr>)" if "session_inv env s1" "ph \<noteq> FoStopped" "sn_fanout s1 \<noteq> FoStopped" for s1 ph
    by (rule same_frames_inv [OF that(1)]) (use that in \<open>auto simp: same_frames_def\<close>)
  have pushed: "session_inv env ((push_frame f s)\<lparr>sn_fanout := ph\<rparr>)" if "ph \<noteq> FoStopped" "sn_fanout s \<noteq> FoStopped" for f ph
    by (rule moved [OF push_frame_inv [OF assms(1)]]) (use that in auto)
  show ?thesis
    using assms drained moved pushed
    by (auto simp: fanout_step_def split: FanoutPhase.splits prod.splits bool.splits list.splits if_splits)
qed

lemma writer_step_inv:
  assumes "session_inv env s" and "writer_step ok s = Some s'"
  shows "session_inv env s'"
proof -
  note defs = session_inv_def session_queue_def in_flight_def writer_ended_def
  show ?thesis
  proof (cases "sn_writer s")
    case WrRunning
    show ?thesis
    proof (cases "session_queue s")
      case Nil
      with assms(2) WrRunning have "s' = s\<lparr>sn_writer := WrIdle\<rparr>" by (simp add: writer_step_def)
      with assms(1) WrRunning Nil show ?thesis by (simp add: defs)
    next
      case (Cons f q)
      with assms(2) WrRunning have "s' = s\<lparr>sn_conn := (sn_conn s)\<lparr>cn_out := (cn_out (sn_conn s))\<lparr>ob_queue := q\<rparr>\<rparr>, sn_writer := WrSending f\<rparr>"
        by (simp add: writer_step_def)
      with assms(1) WrRunning Cons show ?thesis by (simp add: defs)
    qed
  next
    case (WrSending frame)
    have "subseq (sn_sent s @ session_queue s) (sn_sent s @ frame # session_queue s)" by (auto intro: list_emb_append_mono)
    with assms(1) WrSending have "subseq (sn_sent s @ session_queue s) (sn_enqueued s)"
      unfolding session_inv_def in_flight_def by (auto intro: subseq_order.trans)
    with assms WrSending show ?thesis by (cases ok) (auto simp: writer_step_def defs)
  next
    case WrIdle
    with assms(2) have "s' = s\<lparr>sn_writer := (if sn_shutdown s then WrDone else WrAwait)\<rparr>" by (simp add: writer_step_def)
    with assms(1) WrIdle show ?thesis by (simp add: defs)
  next
    case WrAwait
    with assms(2) have "s' = s\<lparr>sn_notified := False, sn_writer := WrRunning\<rparr>" by (simp add: writer_step_def split: if_splits)
    with assms(1) WrAwait show ?thesis by (simp add: defs)
  qed (use assms(2) in \<open>simp_all add: writer_step_def\<close>)
qed

lemma handler_step_inv:
  assumes "session_inv env s" and "handler_step env s = Some s'"
  shows "session_inv env s'"
proof -
  note defs = session_inv_def session_queue_def in_flight_def writer_ended_def
  from assms(2) consider (asks) "sn_reader s = RdEnded \<or> sn_fanout s = FoStopped" "s' = s\<lparr>sn_shutdown := True, sn_notified := True\<rparr>"
      "\<not> sn_returned s"
    | (returns) "sn_shutdown s" "writer_ended s"
        "s' = s\<lparr>sn_conn := (sn_conn s)\<lparr>cn_hub := disconnect (se_bc env) (sn_conn s)\<rparr>, sn_returned := True\<rparr>"
    by (auto simp: handler_step_def split: if_splits)
  then show ?thesis
  proof cases
    case asks
    with assms(1) show ?thesis by (simp add: defs)
  next
    case returns
    with assms(1) show ?thesis by (simp add: defs)
  qed
qed

lemma session_step_inv:
  assumes "session_step env task s s'" and "session_inv env s"
  shows "session_inv env s'"
  using assms
proof (cases rule: session_step.cases)
  case (read msg)
  with assms(2) show ?thesis by (simp add: reader_message_inv)
next
  case read_end
  with assms(2) show ?thesis
    by (intro same_frames_inv [OF assms(2)]) (auto simp: same_frames_def session_inv_def)
next
  case (topic ts)
  with assms(2) show ?thesis by (simp add: reader_topic_inv)
next
  case fanout
  with assms(2) show ?thesis by (blast intro: fanout_step_inv)
next
  case notified
  with assms(2) show ?thesis
    by (intro same_frames_inv [OF assms(2)]) (auto simp: same_frames_def)
next
  case (written ok)
  with assms(2) show ?thesis by (blast intro: writer_step_inv)
next
  case handler
  with assms(2) show ?thesis by (blast intro: handler_step_inv)
next
  case (others hub' new)
  with assms(2) show ?thesis
    by (intro same_frames_inv [OF assms(2)]) (auto simp: same_frames_def session_inv_def)
qed

lemma session_run_inv: "session_run env s s' \<Longrightarrow> session_inv env s \<Longrightarrow> session_inv env s'"
  by (induction rule: session_run.induct) (auto intro: session_step_inv)

lemma session_start_inv: "session_inv env (session_start hub)"
  by (simp add: session_inv_def session_start_def session_queue_def in_flight_def)

text \<open>The work of the writer, once it has been asked to end: two steps for each waiting frame, and its own end.\<close>

definition writer_work :: "'c StreamSession \<Rightarrow> nat" where
  "writer_work s =
     (case sn_writer s of
        WrRunning \<Rightarrow> 2 * length (session_queue s) + 2
      | WrSending _ \<Rightarrow> 2 * length (session_queue s) + 3
      | WrIdle \<Rightarrow> 1
      | WrAwait \<Rightarrow> 2 * length (session_queue s) + 3
      | _ \<Rightarrow> 0)"

lemma writer_step_work:
  assumes "session_step env Writer s s'" and "sn_shutdown s"
  shows "Suc (writer_work s') = writer_work s \<or> writer_work s' = 0 \<and> 0 < writer_work s"
    and "sn_shutdown s'" and "sn_enqueued s' = sn_enqueued s"
  using assms by (auto elim!: writer_stepE simp: writer_step_def writer_work_def session_queue_def
      split: if_splits list.splits WriterPhase.splits)

lemma writer_work_same: "sn_writer s' = sn_writer s \<Longrightarrow> session_queue s' = session_queue s \<Longrightarrow> writer_work s' = writer_work s"
  by (simp add: writer_work_def cong: WriterPhase.case_cong)

text \<open>The other tasks add two for each frame they queue.\<close>

lemma push_frame_work: "writer_work (push_frame f s) \<le> writer_work s + 2"
  by (auto simp: writer_work_def queue_push_def split: WriterPhase.splits)

lemma same_frames_work: "same_frames s s' \<Longrightarrow> writer_work s' = writer_work s \<and> sn_enqueued s' = sn_enqueued s"
  by (auto simp: same_frames_def session_queue_def intro: writer_work_same)

definition adds_work :: "'c StreamSession \<Rightarrow> 'c StreamSession \<Rightarrow> bool" where
  "adds_work s s' \<longleftrightarrow> (sn_shutdown s \<longrightarrow> sn_shutdown s') \<and> length (sn_enqueued s) \<le> length (sn_enqueued s')
     \<and> writer_work s' + 2 * length (sn_enqueued s) \<le> writer_work s + 2 * length (sn_enqueued s')"

lemma adds_work_refl [simp]: "adds_work s s"
  by (simp add: adds_work_def)

lemma same_frames_adds: "same_frames s s' \<Longrightarrow> sn_shutdown s' = sn_shutdown s \<Longrightarrow> adds_work s s'"
  by (simp add: adds_work_def same_frames_work)

lemma push_frame_adds: "adds_work s (push_frame f s)"
  using push_frame_work [of f s] by (simp add: adds_work_def)

lemma other_step_work:
  assumes "session_step env task s s'" and "task \<noteq> Writer"
  shows "adds_work s s'"
  using assms
proof (cases rule: session_step.cases)
  case (read msg)
  then show ?thesis
    by (auto simp: reader_message_def reader_control_def push_frame_adds
        intro!: same_frames_adds simp: same_frames_def split: Message.splits option.splits ControlIn.splits)
next
  case (topic ts)
  then show ?thesis by (intro same_frames_adds) (auto simp: reader_topic_def same_frames_def split: list.splits)
next
  case fanout
  have pushed: "adds_work s ((push_frame f s)\<lparr>sn_fanout := ph\<rparr>)" for f ph
  proof -
    have "writer_work ((push_frame f s)\<lparr>sn_fanout := ph\<rparr>) = writer_work (push_frame f s)"
      by (rule writer_work_same) (simp_all add: session_queue_def)
    with push_frame_work [of f s] show ?thesis by (simp add: adds_work_def)
  qed
  have drained: "adds_work s (s1\<lparr>sn_fanout := ph\<rparr>)" "adds_work s (fanout_stop s1)"
    if "session_drain m s = (got, pending, s1)" for m got pending s1 ph
    using session_drain_frame [OF that]
    by (auto intro!: same_frames_adds simp: same_frames_def fanout_stop_def)
  have moved: "adds_work s (s\<lparr>sn_fanout := ph\<rparr>)" for ph
    by (auto intro!: same_frames_adds simp: same_frames_def)
  from fanout show ?thesis
    by (auto simp: fanout_step_def intro: drained moved pushed
        split: FanoutPhase.splits prod.splits bool.splits list.splits if_splits)
next
  case handler
  then show ?thesis
    by (auto simp: handler_step_def adds_work_def session_queue_def split: if_splits
        intro!: eq_imp_le [OF writer_work_same])
qed (auto intro!: same_frames_adds simp: same_frames_def)

lemma session_trace_work:
  "session_trace env tasks s s' \<Longrightarrow> sn_shutdown s \<Longrightarrow>
     length (sn_enqueued s) \<le> length (sn_enqueued s')
   \<and> count_list tasks Writer + 2 * length (sn_enqueued s) \<le> writer_work s + 2 * length (sn_enqueued s')"
proof (induction tasks arbitrary: s)
  case (Cons task tasks)
  then obtain s1 where s1: "session_step env task s s1" "session_trace env tasks s1 s'" by auto
  show ?case
  proof (cases "task = Writer")
    case True
    with writer_step_work [of env s s1] s1 Cons.prems(2) Cons.IH [OF s1(2)] show ?thesis by auto
  next
    case False
    with other_step_work [OF s1(1)] Cons.prems(2) Cons.IH [OF s1(2)] show ?thesis by (auto simp: adds_work_def)
  qed
qed simp

text \<open>Left alone, with a socket that works, the writer sends all that waits.\<close>

lemma relpowp_step: "R a b \<Longrightarrow> (R ^^ n) b c \<Longrightarrow> (R ^^ Suc n) a c"
  by (rule relpowp_Suc_I2)

lemma writer_drains:
  assumes "sn_shutdown s" and "sn_writer s = WrRunning" and "session_queue s = q"
  shows "\<exists>s'. (session_step env Writer ^^ (2 * length q + 2)) s s' \<and> sn_writer s' = WrDone \<and> sn_sent s' = sn_sent s @ q"
  using assms
proof (induction q arbitrary: s)
  case Nil
  let ?s1 = "s\<lparr>sn_writer := WrIdle\<rparr>"
  have "writer_step True s = Some ?s1" "writer_step True ?s1 = Some (?s1\<lparr>sn_writer := WrDone\<rparr>)"
    using Nil by (simp_all add: writer_step_def)
  then have "session_step env Writer s ?s1" "session_step env Writer ?s1 (?s1\<lparr>sn_writer := WrDone\<rparr>)"
    by (auto intro: session_step.written)
  then have "(session_step env Writer ^^ Suc (Suc 0)) s (?s1\<lparr>sn_writer := WrDone\<rparr>)" by (auto simp: relcompp.simps)
  then show ?case by (intro exI [of _ "?s1\<lparr>sn_writer := WrDone\<rparr>"]) (simp add: numeral_2_eq_2)
next
  case (Cons f q)
  let ?s1 = "s\<lparr>sn_conn := (sn_conn s)\<lparr>cn_out := (cn_out (sn_conn s))\<lparr>ob_queue := q\<rparr>\<rparr>, sn_writer := WrSending f\<rparr>"
  let ?s2 = "?s1\<lparr>sn_sent := sn_sent s @ [f], sn_writer := WrRunning\<rparr>"
  have "writer_step True s = Some ?s1" "writer_step True ?s1 = Some ?s2" using Cons.prems by (simp_all add: writer_step_def)
  then have one: "session_step env Writer s ?s1" "session_step env Writer ?s1 ?s2" by (auto intro: session_step.written)
  have "sn_shutdown ?s2" "sn_writer ?s2 = WrRunning" "session_queue ?s2 = q" using Cons.prems by (simp_all add: session_queue_def)
  from Cons.IH [OF this] obtain s' where
    s': "(session_step env Writer ^^ (2 * length q + 2)) ?s2 s'" "sn_writer s' = WrDone" "sn_sent s' = sn_sent s @ f # q" by auto
  from relpowp_step [OF one(1) relpowp_step [OF one(2) s'(1)]] s'(2,3) show ?case by (intro exI [of _ s']) simp
qed

lemma writer_can_step:
  assumes "session_inv env s" and "sn_shutdown s" and "\<not> writer_ended s"
  shows "\<exists>s'. session_step env Writer s s'"
proof -
  from assms have "\<exists>s'. writer_step True s = Some s'"
    by (auto simp: writer_step_def session_inv_def writer_ended_def split: WriterPhase.splits list.splits)
  then show ?thesis by (blast intro: session_step.written)
qed

lemma session_step_shutdown: "session_step env task s s' \<Longrightarrow> sn_shutdown s \<Longrightarrow> sn_shutdown s'"
  using other_step_work [of env task s s'] writer_step_work(2) [of env s s'] by (cases "task = Writer") (auto simp: adds_work_def)

lemma session_run_shutdown: "session_run env s s' \<Longrightarrow> sn_shutdown s \<Longrightarrow> sn_shutdown s'"
  by (induction rule: session_run.induct) (auto intro: session_step_shutdown)

lemma fanout_can_step:
  assumes "sn_fanout s \<noteq> FoStopped"
  shows "\<exists>s'. session_step env Fanout s s'"
proof (cases "sn_fanout s = FoWait")
  case True
  then show ?thesis by (blast intro: session_step.notified)
next
  case False
  with assms have "\<exists>s'. fanout_step env s = Some s'"
    by (auto simp: fanout_step_def split: FanoutPhase.splits prod.splits bool.splits list.splits)
  then show ?thesis by (blast intro: session_step.fanout)
qed

lemma session_step_returned: "session_step env task s s' \<Longrightarrow> sn_returned s \<Longrightarrow> sn_returned s'"
  by (auto elim!: session_step.cases simp: reader_message_def reader_control_def reader_topic_def fanout_step_def fanout_stop_def
      writer_step_def handler_step_def Let_def session_drain_frame(3)
      split: Message.splits option.splits ControlIn.splits ReaderPhase.splits list.splits FanoutPhase.splits prod.splits
        bool.splits if_splits WriterPhase.splits dest: session_drain_frame(3))

lemma session_run_returned: "session_run env s s' \<Longrightarrow> sn_returned s \<Longrightarrow> sn_returned s'"
  by (induction rule: session_run.induct) (auto intro: session_step_returned)

lemma session_run_trans: "session_run env b c \<Longrightarrow> session_run env a b \<Longrightarrow> session_run env a c"
  by (induction rule: session_run.induct) (auto intro: session_run.run_step)

subsection \<open>Instances for the witnesses\<close>

definition demo_session_env :: "(nat \<times> StreamTick list) session_env" where
  "demo_session_env = \<lparr> se_bc = ref_bc, se_decode = (\<lambda>t. if t = ''subscribe'' then Some (Subscribe [''BTC'']) else None),
     se_encode = (\<lambda>_ _. None), se_max_lag = 10 \<rparr>"

definition demo_subscribed :: "(nat \<times> StreamTick list) StreamSession" where
  "demo_subscribed = reader_topic demo_session_env (reader_topic demo_session_env
     (reader_message demo_session_env (Text ''subscribe'') (session_start demo_hub)))"

lemma demo_subscribed_run: "session_run demo_session_env (session_start demo_hub) demo_subscribed"
proof -
  let ?s0 = "session_start demo_hub" and ?env = demo_session_env
  let ?s1 = "reader_message ?env (Text ''subscribe'') ?s0"
  let ?s2 = "reader_topic ?env ?s1"
  have "sn_reader ?s0 = RdWaiting" by (simp add: session_start_def)
  then have "session_step ?env Reader ?s0 ?s1" by (rule session_step.read)
  moreover have r1: "sn_reader ?s1 = RdSubscribe [''BTC'']"
    by (simp add: reader_message_def reader_control_def demo_session_env_def)
  then have "session_step ?env Reader ?s1 ?s2" by (intro session_step.topic) blast
  moreover have "sn_reader ?s2 = RdSubscribe []" using r1 by (simp add: reader_topic_def)
  then have "session_step ?env Reader ?s2 (reader_topic ?env ?s2)" by (intro session_step.topic) blast
  ultimately show ?thesis
    unfolding demo_subscribed_def by (blast intro: session_run.intros)
qed

lemma demo_subscribed_fields:
  "sn_reader demo_subscribed = RdWaiting" "sn_fanout demo_subscribed = FoLoop" "sn_writer demo_subscribed = WrRunning"
  "cn_subs (sn_conn demo_subscribed) = [''BTC'']" "\<not> sn_shutdown demo_subscribed" "\<not> sn_returned demo_subscribed"
  "session_queue demo_subscribed = []" "sn_events demo_subscribed k = []" "sn_lag demo_subscribed = 0"
  "sn_sent demo_subscribed = []" "sn_enqueued demo_subscribed = []" "ob_lagged_metric (cn_out (sn_conn demo_subscribed)) = 0"
  by (simp_all add: demo_subscribed_def reader_topic_def reader_message_def reader_control_def demo_session_env_def
      session_start_def subscribe_one_def insert_sub_def WILDCARD_TOPIC_def session_queue_def)

section \<open>Properties\<close>

text \<open>
  C26. What a stream client receives. However the tasks of a connection interleave with each other and with
  publications: the outbound queue never exceeds its capacity; the frames sent, followed by the one being sent and those that wait, are
  frames that were handed to the queue, in that order and each at most once; every other frame was pushed out of a
  full queue and counted, or is the one whose sending failed; without either, nothing is missing. The handler
  returns only after the writer has ended, and because the client's messages ended or the client fell behind
  its limit.
\<close>

theorem stream_frames_arrive_in_order:
  assumes "session_run env (session_start hub) s"
  shows "length (session_queue s) \<le> OUTBOUND_CAPACITY
    \<and> subseq (sn_sent s @ in_flight s @ session_queue s) (sn_enqueued s)
    \<and> length (sn_sent s) + length (in_flight s) + length (session_queue s) + ob_lagged_metric (cn_out (sn_conn s))
        + (if sn_writer s = WrFailed then 1 else 0) = length (sn_enqueued s)
    \<and> (ob_lagged_metric (cn_out (sn_conn s)) = 0 \<and> sn_writer s \<noteq> WrFailed \<longrightarrow>
          sn_sent s @ in_flight s @ session_queue s = sn_enqueued s)
    \<and> (sn_returned s \<longrightarrow> writer_ended s
        \<and> (sn_reader s = RdEnded \<or> sn_fanout s = FoStopped \<and> se_max_lag env \<le> sn_lag s))"
proof -
  have inv: "session_inv env s" by (rule session_run_inv [OF assms session_start_inv])
  have "sn_sent s @ in_flight s @ session_queue s = sn_enqueued s"
    if "ob_lagged_metric (cn_out (sn_conn s)) = 0" "sn_writer s \<noteq> WrFailed"
    using inv that by (intro subseq_same_length) (auto simp: session_inv_def)
  with inv show ?thesis by (auto simp: session_inv_def)
qed

theorem stream_frames_arrive_in_order_witness:
  "\<exists>s. session_run demo_session_env (session_start demo_hub) s \<and> sn_enqueued s = [''tick'']
     \<and> sn_sent s @ in_flight s @ session_queue s = [''tick'']"
proof -
  let ?env = demo_session_env and ?s0 = demo_subscribed
  let ?new = "\<lambda>k. if k = ''BTC'' then [Tick (demo_tick 0 ''tick'')] else []"
  let ?s1 = "?s0\<lparr>sn_conn := (sn_conn ?s0)\<lparr>cn_hub := demo_hub\<rparr>, sn_events := (\<lambda>k. sn_events ?s0 k @ ?new k)\<rparr>"
  let ?s2 = "?s1\<lparr>sn_fanout := FoInner\<rparr>"
  have st1: "session_step ?env Others ?s0 ?s1" by (rule session_step.others)
  have st2: "session_step ?env Fanout ?s1 ?s2"
    by (rule session_step.fanout) (simp add: fanout_step_def demo_subscribed_fields)
  obtain s3 where s3: "fanout_step ?env ?s2 = Some s3" "sn_fanout s3 = FoSend [''tick''] True" "sn_enqueued s3 = []"
      "sn_writer s3 = WrRunning" "cn_out (sn_conn s3) = cn_out (sn_conn demo_subscribed)"
  proof -
    have "fst (session_drain 10 ?s2) \<and> fst (snd (session_drain 10 ?s2)) = [''tick'']"
      by (simp add: session_drain_def drain_subscriptions_def demo_subscribed_fields demo_tick_def)
    then obtain s' where d: "session_drain 10 ?s2 = (True, [''tick''], s')" by (cases "session_drain 10 ?s2") auto
    have env: "se_max_lag ?env = 10" by (simp add: demo_session_env_def)
    have ph: "sn_fanout ?s2 = FoInner" by simp
    have "fanout_step ?env ?s2 = Some (s'\<lparr>sn_fanout := FoSend [''tick''] True\<rparr>)"
      unfolding fanout_step_def ph env d by simp
    with session_drain_frame(1) [OF d] that [of "s'\<lparr>sn_fanout := FoSend [''tick''] True\<rparr>"] show thesis
      by (simp add: same_frames_def demo_subscribed_fields)
  qed
  let ?s4 = "(push_frame ''tick'' s3)\<lparr>sn_fanout := FoSend [] True\<rparr>"
  have st4: "fanout_step ?env s3 = Some ?s4" using s3(2) by (simp add: fanout_step_def)
  note run2 = session_run.run_step [OF session_run.run_step [OF demo_subscribed_run st1] st2]
  note run = session_run.run_step [OF session_run.run_step [OF run2 session_step.fanout [OF s3(1)]] session_step.fanout [OF st4]]
  have "sn_enqueued ?s4 = [''tick'']" using s3(3) by simp
  moreover have "ob_lagged_metric (cn_out (sn_conn ?s4)) = 0"
    using s3(5) demo_subscribed_fields(7,12)
    by (simp add: push_frame_def enqueue_frame_def session_queue_def OUTBOUND_CAPACITY_def)
  moreover have "sn_writer ?s4 \<noteq> WrFailed" using s3(4) by simp
  ultimately show ?thesis
    using stream_frames_arrive_in_order [OF run] run by (intro exI [of _ ?s4]) simp
qed

text \<open>
  C32. The writer ends. Once the handler has asked it to, in every interleaving with the other tasks of the
  connection and with publications, the writer makes at most two steps for each frame that waits or is queued from
  then on, and three more; it always has been woken, so it is never stuck before it has ended, unless the socket
  neither takes nor refuses a frame; and if it then runs alone, on a working socket, and has not just found the
  queue empty, it first sends everything that waits. A fan-out that goes on queueing frames can keep it running.
\<close>

theorem writer_ends_after_shutdown:
  assumes "session_run env (session_start hub) s" and "sn_shutdown s"
  shows "(\<forall>tasks s'. session_trace env tasks s s' \<longrightarrow>
        count_list tasks Writer \<le> 2 * (length (session_queue s) + (length (sn_enqueued s') - length (sn_enqueued s))) + 3)
    \<and> (\<forall>s'. session_run env s s' \<longrightarrow> \<not> writer_ended s' \<longrightarrow> (\<exists>s''. session_step env Writer s' s''))
    \<and> (\<not> writer_ended s \<and> sn_writer s \<noteq> WrIdle \<longrightarrow>
        (\<exists>n s'. (session_step env Writer ^^ n) s s' \<and> sn_writer s' = WrDone \<and> sn_sent s' = sn_sent s @ in_flight s @ session_queue s))"
proof (intro conjI allI impI)
  fix tasks s'
  assume "session_trace env tasks s s'"
  moreover have "writer_work s \<le> 2 * length (session_queue s) + 3" by (simp add: writer_work_def split: WriterPhase.splits)
  ultimately show "count_list tasks Writer \<le> 2 * (length (session_queue s) + (length (sn_enqueued s') - length (sn_enqueued s))) + 3"
    using session_trace_work [of env tasks s s'] assms(2) by auto
next
  fix s'
  assume run: "session_run env s s'" and "\<not> writer_ended s'"
  from session_run_inv [OF run session_run_inv [OF assms(1) session_start_inv]] session_run_shutdown [OF run assms(2)] this(2)
  show "\<exists>s''. session_step env Writer s' s''" by (rule writer_can_step)
next
  assume go: "\<not> writer_ended s \<and> sn_writer s \<noteq> WrIdle"
  obtain m s1 where s1: "(session_step env Writer ^^ m) s s1" "sn_writer s1 = WrRunning" "sn_shutdown s1"
    "session_queue s1 = session_queue s" "sn_sent s1 = sn_sent s @ in_flight s"
  proof (cases "sn_writer s = WrRunning")
    case True
    with assms(2) that [of 0 s] show thesis by (simp add: in_flight_def)
  next
    case False
    with go have "\<exists>s1. writer_step True s = Some s1 \<and> sn_writer s1 = WrRunning \<and> sn_shutdown s1
        \<and> session_queue s1 = session_queue s \<and> sn_sent s1 = sn_sent s @ in_flight s"
      using session_run_inv [OF assms(1) session_start_inv] assms(2)
      by (auto simp: writer_step_def writer_ended_def in_flight_def session_inv_def session_queue_def split: WriterPhase.splits)
    then obtain s1 where "session_step env Writer s s1" "sn_writer s1 = WrRunning" "sn_shutdown s1"
        "session_queue s1 = session_queue s" "sn_sent s1 = sn_sent s @ in_flight s" by (blast intro: session_step.written)
    with that [of 1 s1] show thesis by (simp add: eq_OO)
  qed
  from writer_drains [OF s1(3,2,4), of env] obtain s' where
    "(session_step env Writer ^^ (2 * length (session_queue s) + 2)) s1 s'" "sn_writer s' = WrDone" "sn_sent s' = sn_sent s1 @ session_queue s"
    by blast
  with relpowp_trans [OF s1(1)] s1(5)
  show "\<exists>n s'. (session_step env Writer ^^ n) s s' \<and> sn_writer s' = WrDone \<and> sn_sent s' = sn_sent s @ in_flight s @ session_queue s"
    by (metis append.assoc)
qed

text \<open>The demo connection, closed by its client.\<close>

definition demo_closed :: "(nat \<times> StreamTick list) StreamSession" where
  "demo_closed = demo_subscribed\<lparr>sn_reader := RdEnded, sn_shutdown := True, sn_notified := True\<rparr>"

lemma demo_closed_run: "session_run demo_session_env (session_start demo_hub) demo_closed"
proof -
  let ?s1 = "demo_subscribed\<lparr>sn_reader := RdEnded\<rparr>"
  have "session_step demo_session_env Reader demo_subscribed ?s1" by (rule session_step.read_end) (simp add: demo_subscribed_fields)
  moreover have "session_step demo_session_env Handler ?s1 demo_closed"
    by (rule session_step.handler) (simp add: handler_step_def demo_subscribed_fields demo_closed_def)
  ultimately show ?thesis using demo_subscribed_run by (blast intro: session_run.run_step)
qed

theorem writer_ends_after_shutdown_witness:
  "\<exists>n s'. (session_step demo_session_env Writer ^^ n) demo_closed s' \<and> sn_writer s' = WrDone \<and> sn_sent s' = []"
proof -
  have f: "sn_shutdown demo_closed" "sn_writer demo_closed = WrRunning" "sn_sent demo_closed @ in_flight demo_closed @ session_queue demo_closed = []"
    using demo_subscribed_fields by (simp_all add: demo_closed_def in_flight_def session_queue_def)
  from writer_ends_after_shutdown [OF demo_closed_run f(1)] f show ?thesis by (auto simp: writer_ended_def)
qed

text \<open>
  C33. A connection that has ended leaves its fan-out task behind. When the handler returns because the client has gone,
  the fan-out task goes on: in every later state it is able to run, and nothing but the lag limit ever ends it; until
  then it keeps the receivers of the client's topics.
\<close>

theorem ended_connection_leaves_its_fanout_running:
  assumes "session_run env (session_start hub) s" and "sn_returned s" and "session_run env s s'"
  shows "sn_returned s'
    \<and> (if sn_fanout s' = FoStopped then se_max_lag env \<le> sn_lag s' else \<exists>s''. session_step env Fanout s' s'')"
proof -
  have "session_inv env s'"
    using session_run_inv [OF assms(3) session_run_inv [OF assms(1) session_start_inv]] .
  with session_run_returned [OF assms(3,2)] fanout_can_step [of s' env] show ?thesis by (simp add: session_inv_def)
qed

theorem ended_connection_leaves_its_fanout_running_witness:
  "\<exists>s. session_run demo_session_env (session_start demo_hub) s \<and> sn_returned s \<and> cn_subs (sn_conn s) = [''BTC'']
     \<and> sn_fanout s = FoLoop \<and> (\<exists>s''. session_step demo_session_env Fanout s s'')"
proof -
  let ?env = demo_session_env
  let ?s2 = "demo_closed\<lparr>sn_writer := WrIdle\<rparr>" let ?s3 = "?s2\<lparr>sn_writer := WrDone\<rparr>"
  let ?s4 = "?s3\<lparr>sn_conn := (sn_conn ?s3)\<lparr>cn_hub := disconnect (se_bc ?env) (sn_conn ?s3)\<rparr>, sn_returned := True\<rparr>"
  have st2: "session_step ?env Writer demo_closed ?s2"
    using demo_subscribed_fields(3,7)
    by (intro session_step.written [of True]) (simp add: writer_step_def session_queue_def demo_closed_def)
  have st3: "session_step ?env Writer ?s2 ?s3"
    by (intro session_step.written [of True]) (simp add: writer_step_def demo_closed_def)
  have st4: "session_step ?env Handler ?s3 ?s4"
    by (rule session_step.handler) (simp add: handler_step_def demo_subscribed_fields writer_ended_def demo_closed_def)
  note run = session_run.run_step [OF session_run.run_step [OF session_run.run_step [OF demo_closed_run st2] st3] st4]
  have "sn_returned ?s4" "sn_fanout ?s4 = FoLoop" "cn_subs (sn_conn ?s4) = [''BTC'']" by (simp_all add: demo_subscribed_fields demo_closed_def)
  with ended_connection_leaves_its_fanout_running [OF run _ session_run.run_none] run show ?thesis by auto
qed

end
