(* ===== verification/Routing_Error.thy ===== *)
theory Routing_Error
  imports Router_Prelude
begin

text \<open>
  The error values of the routing layer, \<open>routing/error.rs\<close> and the error type of
  \<open>routing/sql.rs\<close>, with their translation to SQLSTATE codes. Of the wire library's error type
  only the constructor the router builds, \<open>UserError\<close> with its severity, code and message, is
  modelled; an error the library itself produced is \<open>ApiError\<close> with an opaque text.
\<close>

datatype PgWireError = UserError (ei_severity: string) (ei_code: string) (ei_message: string)
  | ApiError string

datatype SqlRouteError = SqlParse string | SqlUnsupported string

datatype RoutingError =
    Parse string
  | Unsupported string
  | ShardNotFound string
  | ShardUnhealthy u32
  | InsufficientHealthyShards nat nat

fun from_sql_route_error :: "SqlRouteError \<Rightarrow> RoutingError" where
  "from_sql_route_error (SqlParse s) = Parse s"
| "from_sql_route_error (SqlUnsupported s) = Unsupported s"

fun pg_sqlstate :: "RoutingError \<Rightarrow> string \<times> string" where
  "pg_sqlstate (Parse msg) = (''42601'', msg)"
| "pg_sqlstate (Unsupported msg) = (''42501'', msg)"
| "pg_sqlstate (ShardNotFound key) = (''XX000'', ''no shard for key: '' @ key)"
| "pg_sqlstate (ShardUnhealthy i) =
     (''08006'', ''shard '' @ nat_to_string (unat i) @ '' is unhealthy'')"
| "pg_sqlstate (InsufficientHealthyShards required available) =
     (''08006'', ''insufficient healthy shards: need '' @ nat_to_string required
        @ '', have '' @ nat_to_string available)"

definition to_pgwire :: "RoutingError \<Rightarrow> PgWireError" where
  "to_pgwire e = (case pg_sqlstate e of (code, msg) \<Rightarrow> UserError ''ERROR'' code msg)"

section \<open>Lemmas\<close>

lemma to_pgwire_severity [simp]: "ei_severity (to_pgwire e) = ''ERROR''"
  by (cases e) (simp_all add: to_pgwire_def)

lemma connection_sqlstate_iff:
  "fst (pg_sqlstate e) = ''08006'' \<longleftrightarrow>
     (\<exists>i. e = ShardUnhealthy i) \<or> (\<exists>r a. e = InsufficientHealthyShards r a)"
  by (cases e) auto

end
