(* ===== verification/Route_Plan.thy ===== *)
theory Route_Plan
  imports Routing_Error
begin

text \<open>
  Execution plans, \<open>routing/plan.rs\<close>, and the classification result of \<open>routing/sql.rs\<close>.
\<close>

datatype AggKind = AggCount | AggSum | AggMin | AggMax | AggAvg

datatype RoutePlan =
    SingleShard (plan_table: string) (plan_shard_key: "string option") (plan_shard_key_param: "nat option")
  | FullScan string
  | AggregateScan string AggKind
  | Join string
  | GroupBy string "string list" "AggKind list"

fun is_federated :: "RoutePlan \<Rightarrow> bool" where
  "is_federated (SingleShard t k i) = False"
| "is_federated _ = True"

datatype SqlClassify = Routable RoutePlan | Passthrough

lemma is_federated_iff: "is_federated plan \<longleftrightarrow> (\<forall>t k i. plan \<noteq> SingleShard t k i)"
  by (cases plan) auto

end
