(* ===== verification/Sql_Dialect.thy ===== *)
theory Sql_Dialect
  imports Route_Plan
begin

text \<open>
  The QuestDB dialect fast path, \<open>routing/dialect.rs\<close>: SQL with \<open>SAMPLE BY\<close> or \<open>LATEST ON\<close> is not
  parsed; table, shard-key literal and bind parameter are cut out of the text. Offsets found in the
  upper-cased text index the original one, which has the same length.
\<close>

abbreviation QUOTE :: char where
  "QUOTE \<equiv> CHR 0x27"

definition QUESTDB_DIALECT_PREFIX :: string where
  "QUESTDB_DIALECT_PREFIX = ''questdb dialect:''"

definition has_questdb_extension :: "string \<Rightarrow> bool" where
  "has_questdb_extension sql \<longleftrightarrow>
     (let upper = to_ascii_uppercase sql
      in contains_sub upper ''SAMPLE BY'' \<or> contains_sub upper ''LATEST ON'')"

text \<open>Offset of the first white-space character, comma or semicolon.\<close>

fun name_delim :: "string \<Rightarrow> nat option" where
  "name_delim [] = None"
| "name_delim (c # cs) =
     (if ws_len (c # cs) \<noteq> 0 \<or> c = CHR '','' \<or> c = CHR '';'' then Some 0
      else map_option Suc (name_delim cs))"

definition extract_from_table :: "string \<Rightarrow> string option" where
  "extract_from_table sql =
     (case find_sub (to_ascii_uppercase sql) '' FROM '' of
        None \<Rightarrow> None
      | Some from_pos \<Rightarrow>
          let rest = drop (from_pos + 6) sql;
              trimmed = trim_start rest;
              end_pos = (case name_delim trimmed of Some i \<Rightarrow> i | None \<Rightarrow> length trimmed);
              name = trim (take end_pos trimmed)
          in if name = [] \<or> name = ''('' then None
             else Some (rsplit_next CHR ''.'' name))"

definition skip_column_and_eq :: "string \<Rightarrow> string \<Rightarrow> string option" where
  "skip_column_and_eq rest column =
     (let trimmed = trim_start rest
      in if \<not> starts_with trimmed ''='' then None
         else Some (trim_start (drop 1 trimmed)))"

text \<open>The character loop of \<open>parse_sql_string_literal\<close>, after the opening quote.\<close>

fun literal_loop :: "string \<Rightarrow> string \<Rightarrow> string option" where
  "literal_loop out [] = None"
| "literal_loop out (c # cs) =
     (if c = QUOTE then
        (case cs of
           d # ds \<Rightarrow> if d = QUOTE then literal_loop (out @ [QUOTE]) ds else Some out
         | [] \<Rightarrow> Some out)
      else literal_loop (out @ [c]) cs)"

definition parse_sql_string_literal :: "string \<Rightarrow> string option" where
  "parse_sql_string_literal s =
     (let trimmed = trim_start s
      in if \<not> starts_with trimmed [QUOTE] then None else literal_loop [] (drop 1 trimmed))"

text \<open>The text after \<open>WHERE\<close>, the column and the equals sign, shared by the two extractors.\<close>

definition after_where_eq :: "string \<Rightarrow> string \<Rightarrow> string option" where
  "after_where_eq sql column =
     (let pattern = ''WHERE '' @ to_ascii_uppercase column
      in case find_sub (to_ascii_uppercase sql) pattern of
           None \<Rightarrow> None
         | Some where_pos \<Rightarrow> skip_column_and_eq (drop (where_pos + length pattern) sql) column)"

definition extract_shard_key_literal :: "string \<Rightarrow> string \<Rightarrow> string option" where
  "extract_shard_key_literal sql column =
     (case after_where_eq sql column of
        None \<Rightarrow> None
      | Some after_col \<Rightarrow> parse_sql_string_literal after_col)"

definition checked_sub_one :: "nat \<Rightarrow> nat option" where
  "checked_sub_one n = (if 1 \<le> n then Some (n - 1) else None)"

definition extract_shard_key_param :: "string \<Rightarrow> string \<Rightarrow> nat option" where
  "extract_shard_key_param sql column =
     (case after_where_eq sql column of
        None \<Rightarrow> None
      | Some after_eq \<Rightarrow>
          let trimmed = trim_start after_eq
          in if \<not> starts_with trimmed ''$'' then None
             else case parse_usize (takeWhile is_ascii_digit (drop 1 trimmed)) of
                    None \<Rightarrow> None
                  | Some n \<Rightarrow> checked_sub_one n)"

definition classify_questdb_passthrough :: "string \<Rightarrow> string \<Rightarrow> SqlRouteError + RoutePlan" where
  "classify_questdb_passthrough sql column =
     (case extract_from_table sql of
        None \<Rightarrow> Inl (SqlUnsupported
          (QUESTDB_DIALECT_PREFIX @ '' could not extract table from FROM clause''))
      | Some table \<Rightarrow>
          (case extract_shard_key_literal sql column of
             Some literal \<Rightarrow> Inr (SingleShard table (Some literal) None)
           | None \<Rightarrow>
               (case extract_shard_key_param sql column of
                  Some i \<Rightarrow> Inr (SingleShard table None (Some i))
                | None \<Rightarrow> Inl (SqlUnsupported
                    (QUESTDB_DIALECT_PREFIX @ '' queries require a shard-key predicate (e.g. WHERE ''
                     @ column @ '' = '' @ [QUOTE] @ ''X'' @ [QUOTE] @ '')'')))))"

section \<open>Reference notions\<close>

text \<open>A value written as an SQL string literal: quotes doubled, quotes around.\<close>

definition quote_literal :: "string \<Rightarrow> string" where
  "quote_literal v = [QUOTE] @ concat (map (\<lambda>c. if c = QUOTE then [QUOTE, QUOTE] else [c]) v) @ [QUOTE]"

definition plain_table :: "string \<Rightarrow> bool" where
  "plain_table t \<longleftrightarrow> t \<noteq> [] \<and> list_all (\<lambda>c. is_ascii_digit c \<or> c = CHR ''_''
      \<or> 65 \<le> byte c \<and> byte c \<le> 90 \<or> 97 \<le> byte c \<and> byte c \<le> 122) t"

section \<open>Lemmas\<close>

lemma trim_start_id: "ws_len s = 0 \<Longrightarrow> trim_start s = s"
  by (subst trim_start.simps) simp

lemma ws_len_ascii:
  "byte c < 128 \<Longrightarrow> ws_len (c # cs) = (if 9 \<le> byte c \<and> byte c \<le> 13 \<or> byte c = 32 then 1 else 0)"
  by (auto simp: ws_len_def byte_def)

lemma trim_start_ascii:
  "byte c < 128 \<Longrightarrow> \<not> (9 \<le> byte c \<and> byte c \<le> 13 \<or> byte c = 32) \<Longrightarrow> trim_start (c # cs) = c # cs"
  by (rule trim_start_id) (auto simp: ws_len_ascii)

lemma trim_start_space: "trim_start (CHR '' '' # s) = trim_start s"
  by (subst trim_start.simps) (simp add: ws_len_ascii byte_def)

lemma literal_loop_quoted:
  "(case rest of c # cs \<Rightarrow> c \<noteq> QUOTE | [] \<Rightarrow> True) \<Longrightarrow>
   literal_loop out (concat (map (\<lambda>c. if c = QUOTE then [QUOTE, QUOTE] else [c]) v) @ [QUOTE] @ rest) =
     Some (out @ v)"
  by (induction v arbitrary: out) (auto split: list.splits)

lemma parse_quote_literal:
  "(case rest of c # cs \<Rightarrow> c \<noteq> QUOTE | [] \<Rightarrow> True) \<Longrightarrow>
   parse_sql_string_literal (quote_literal v @ rest) = Some v"
  using literal_loop_quoted [of rest "[]" v]
  by (simp add: parse_sql_string_literal_def quote_literal_def trim_start_ascii byte_def)

lemma literal_and_param_disjoint:
  "extract_shard_key_literal sql col = Some k \<Longrightarrow> extract_shard_key_param sql col = None"
  by (auto simp: extract_shard_key_literal_def extract_shard_key_param_def
      parse_sql_string_literal_def Let_def starts_with_iff split: option.splits if_splits)

lemma ws_end_len_ascii:
  assumes "list_all (\<lambda>c. byte c < 128) s"
  shows "ws_end_len s = (if s \<noteq> [] \<and> ws_len [last s] = 1 then 1 else 0)"
proof -
  have small: "ws_len (drop n s) \<le> 1" for n
  proof (cases "drop n s")
    case Nil
    then show ?thesis by (simp add: ws_len_def)
  next
    case (Cons c cs)
    then have "byte c < 128" using assms by (metis in_set_dropD list.set_intros(1) list_all_iff)
    with Cons show ?thesis by (simp add: ws_len_ascii)
  qed
  show ?thesis
    using small [of "length s - 2"] small [of "length s - 3"] by (auto simp: ws_end_len_def)
qed

lemma plain_table_chars:
  assumes "plain_table t" and "c \<in> set t"
  shows "byte c < 128" and "\<not> (9 \<le> byte c \<and> byte c \<le> 13 \<or> byte c = 32)"
    and "c \<noteq> CHR '',''" and "c \<noteq> CHR '';''" and "c \<noteq> CHR ''.''" and "c \<noteq> CHR ''(''"
  using assms by (auto simp: plain_table_def list_all_iff is_ascii_digit_def byte_def)

lemma name_delim_plain:
  "(\<And>c. c \<in> set t \<Longrightarrow> byte c < 128 \<and> \<not> (9 \<le> byte c \<and> byte c \<le> 13 \<or> byte c = 32)
      \<and> c \<noteq> CHR '','' \<and> c \<noteq> CHR '';'') \<Longrightarrow>
   name_delim (t @ CHR '' '' # rest) = Some (length t)"
proof (induction t)
  case Nil
  then show ?case by (simp add: ws_len_ascii byte_def)
next
  case (Cons c t)
  then have "ws_len (c # t @ CHR '' '' # rest) = 0" by (auto simp: ws_len_ascii)
  with Cons show ?case by auto
qed

lemma trim_plain_table:
  assumes "plain_table t"
  shows "trim t = t" and "trim_start (t @ rest) = t @ rest"
proof -
  from assms obtain c cs where t: "t = c # cs" by (cases t) (auto simp: plain_table_def)
  have head: "ws_len (c # xs) = 0" for xs
    using plain_table_chars [OF assms, of c] by (auto simp: t ws_len_ascii)
  show "trim_start (t @ rest) = t @ rest" by (simp add: t trim_start_id head)
  have "list_all (\<lambda>c. byte c < 128) t"
    using plain_table_chars(1) [OF assms] by (simp add: list_all_iff)
  moreover have "ws_len [last t] = 0"
    using plain_table_chars(1,2) [OF assms, of "last t"] t by (auto simp: ws_len_ascii)
  ultimately have "ws_end_len t = 0" by (simp add: ws_end_len_ascii)
  then have "trim_end t = t" by (subst trim_end.simps) simp
  then show "trim t = t" by (simp add: trim_def t trim_start_id head)
qed

lemma extract_from_table_plain:
  assumes sql: "sql = pre @ '' FROM '' @ table @ '' '' @ mid"
    and first: "find_sub (to_ascii_uppercase sql) '' FROM '' = Some (length pre)"
    and table: "plain_table table"
  shows "extract_from_table sql = Some table"
proof -
  note chars = plain_table_chars [OF table]
  have "drop (length pre + 6) sql = table @ CHR '' '' # mid" by (simp add: sql)
  moreover have "name_delim (table @ CHR '' '' # mid) = Some (length table)"
    by (rule name_delim_plain) (use chars in blast)
  moreover have "table \<noteq> []" "table \<noteq> ''(''"
    using table chars(6) by (auto simp: plain_table_def)
  moreover have "rsplit_next CHR ''.'' table = table"
    using chars(5) by (intro rsplit_next_absent) blast
  ultimately show ?thesis
    by (simp add: extract_from_table_def first trim_plain_table [OF table])
qed

lemma after_where_eq_plain:
  assumes sql: "sql = pre @ ''WHERE '' @ col @ '' = '' @ rest"
    and first: "find_sub (to_ascii_uppercase sql) (''WHERE '' @ to_ascii_uppercase column) = Some (length pre)"
    and col: "to_ascii_uppercase col = to_ascii_uppercase column"
  shows "after_where_eq sql column = Some (trim_start rest)"
proof -
  from col have "length col = length column"
    by (metis length_to_ascii_uppercase)
  then have len: "length pre + length (''WHERE '' @ to_ascii_uppercase column) =
      length (pre @ ''WHERE '' @ col)" by simp
  have "sql = (pre @ ''WHERE '' @ col) @ '' = '' @ rest" by (simp add: sql)
  then have "drop (length pre + length (''WHERE '' @ to_ascii_uppercase column)) sql = '' = '' @ rest"
    unfolding len by (metis append_eq_conv_conj)
  then have "after_where_eq sql column = skip_column_and_eq ('' = '' @ rest) column"
    unfolding after_where_eq_def Let_def first option.case by (rule arg_cong)
  then show ?thesis
    by (simp add: skip_column_and_eq_def trim_start_space trim_start_ascii byte_def)
qed

lemma keyed_query_plain:
  assumes "sql = pre @ '' FROM '' @ table @ '' '' @ mid"
    and "find_sub (to_ascii_uppercase sql) '' FROM '' = Some (length pre)"
    and "plain_table table"
    and "sql = wpre @ ''WHERE '' @ col @ '' = '' @ quote_literal v @ rest"
    and "find_sub (to_ascii_uppercase sql) (''WHERE '' @ to_ascii_uppercase column) = Some (length wpre)"
    and "to_ascii_uppercase col = to_ascii_uppercase column"
    and "case rest of c # cs \<Rightarrow> c \<noteq> QUOTE | [] \<Rightarrow> True"
  shows "classify_questdb_passthrough sql column = Inr (SingleShard table (Some v) None)"
proof -
  have "trim_start (quote_literal v @ rest) = quote_literal v @ rest"
    by (simp add: quote_literal_def trim_start_ascii byte_def)
  then have "extract_shard_key_literal sql column = Some v"
    by (simp add: extract_shard_key_literal_def after_where_eq_plain [OF assms(4-6)]
        parse_quote_literal [OF assms(7)])
  then show ?thesis
    by (simp add: classify_questdb_passthrough_def extract_from_table_plain [OF assms(1-3)])
qed

section \<open>Properties\<close>

text \<open>
  Round trip of string literals: the text of any value with its quotes doubled, between quotes,
  is read back as that value, whatever follows it (unless that is another quote, which would
  continue the literal).
\<close>

theorem string_literal_round_trip:
  assumes "case rest of c # cs \<Rightarrow> c \<noteq> QUOTE | [] \<Rightarrow> True"
  shows "parse_sql_string_literal (quote_literal v @ rest) = Some v"
  by (rule parse_quote_literal [OF assms])

theorem string_literal_round_trip_witness:
  "parse_sql_string_literal (quote_literal (''A'' @ [QUOTE] @ ''B'') @ '' SAMPLE BY 1h'')
     = Some (''A'' @ [QUOTE] @ ''B'')"
  by (rule string_literal_round_trip) simp

text \<open>
  A dialect query whose first \<open>FROM\<close> is followed by a plain table name and whose first \<open>WHERE\<close>
  on the shard-key column (in any ASCII case) compares it with a string literal is routed to the
  single shard of exactly that literal, quotes undone, and that table.
\<close>

theorem keyed_dialect_query_is_single_shard:
  assumes "sql = pre @ '' FROM '' @ table @ '' '' @ mid"
    and "find_sub (to_ascii_uppercase sql) '' FROM '' = Some (length pre)"
    and "plain_table table"
    and "sql = wpre @ ''WHERE '' @ col @ '' = '' @ quote_literal v @ rest"
    and "find_sub (to_ascii_uppercase sql) (''WHERE '' @ to_ascii_uppercase column) = Some (length wpre)"
    and "to_ascii_uppercase col = to_ascii_uppercase column"
    and "case rest of c # cs \<Rightarrow> c \<noteq> QUOTE | [] \<Rightarrow> True"
  shows "classify_questdb_passthrough sql column = Inr (SingleShard table (Some v) None)"
  by (rule keyed_query_plain [OF assms])

theorem keyed_dialect_query_is_single_shard_witness:
  "classify_questdb_passthrough
     (''SELECT ts FROM trades WHERE Symbol = '' @ quote_literal ''BTC'' @ '' SAMPLE BY 1h'') ''symbol''
   = Inr (SingleShard ''trades'' (Some ''BTC'') None)"
proof (rule keyed_dialect_query_is_single_shard
    [where pre = "''SELECT ts''" and wpre = "''SELECT ts FROM trades ''" and col = "''Symbol''"
      and rest = "'' SAMPLE BY 1h''"
      and mid = "''WHERE Symbol = '' @ quote_literal ''BTC'' @ '' SAMPLE BY 1h''"])
  show "find_sub (to_ascii_uppercase
      (''SELECT ts FROM trades WHERE Symbol = '' @ quote_literal ''BTC'' @ '' SAMPLE BY 1h'')) '' FROM ''
    = Some (length ''SELECT ts'')" by code_simp
  show "find_sub (to_ascii_uppercase
      (''SELECT ts FROM trades WHERE Symbol = '' @ quote_literal ''BTC'' @ '' SAMPLE BY 1h''))
      (''WHERE '' @ to_ascii_uppercase ''symbol'') = Some (length ''SELECT ts FROM trades '')" by code_simp
  show "plain_table ''trades''" by code_simp
  show "to_ascii_uppercase ''Symbol'' = to_ascii_uppercase ''symbol''" by code_simp
qed simp_all

text \<open>
  The dialect path never fans out: it yields a single-shard plan with either a literal or a
  parameter index, never both and never neither, or an \<open>Unsupported\<close> error whose message starts
  with the dialect prefix that the PG hook tests for.
\<close>

theorem dialect_result_shape:
  "case classify_questdb_passthrough sql column of
     Inr plan \<Rightarrow> (\<exists>t k. plan = SingleShard t (Some k) None) \<or> (\<exists>t i. plan = SingleShard t None (Some i))
   | Inl e \<Rightarrow> \<exists>m. e = SqlUnsupported m \<and> starts_with m ''questdb dialect:''"
  by (auto simp: classify_questdb_passthrough_def QUESTDB_DIALECT_PREFIX_def split: option.splits)

text \<open>
  The dialect path reads no further than the first literal. A query that asks for two keys
  with \<open>OR\<close> is routed to the shard of the first key alone, so the rows of the second key are
  missing from its result unless both keys happen to live on one shard.
\<close>

theorem dialect_ignores_second_disjunct:
  "classify_questdb_passthrough
     (''SELECT ts FROM t WHERE symbol = '' @ quote_literal ''A'' @ '' OR symbol = ''
        @ quote_literal ''B'' @ '' SAMPLE BY 1h'') ''symbol''
   = Inr (SingleShard ''t'' (Some ''A'') None)"
  by code_simp

end
