(* ===== verification/Sql_Classify.thy ===== *)
theory Sql_Classify
  imports Sql_Dialect Table_Registry
begin

text \<open>
  SQL classification, \<open>routing/sql.rs\<close>. The parser is a third-party package: the parameter \<open>sp\<close>
  holds its entry point and the renderings of its syntax tree that the router calls. The datatypes
  below name the constructors of that tree the router matches on; every other alternative of the
  library's types is an \<open>Other\<close> constructor carrying an opaque text, so that the catch-all branches
  of the source are catch-all branches here.
\<close>

section \<open>Syntax trees\<close>

datatype Ident = Ident (ident_value: string) (quote_style: "char option")

datatype ObjectNamePart = NameIdent Ident | NameFunction string

type_synonym ObjectName = "ObjectNamePart list"

datatype BinaryOperator = OpEq | OpAnd | OtherOp string

datatype Value =
    SingleQuotedString string
  | DoubleQuotedString string
  | EscapedStringLiteral string
  | Number string bool
  | Boolean bool
  | Null
  | Placeholder string
  | OtherValue string

datatype Expr =
    BinaryOp Expr BinaryOperator Expr
  | Identifier Ident
  | CompoundIdentifier "Ident list"
  | ValueExpr Value
  | FunctionExpr ObjectName FunctionArguments
  | OtherExpr string
and FunctionArguments = NoArguments | SubqueryArguments string | ListArguments "FunctionArg list"
and FunctionArg = UnnamedArg Expr | OtherArg string

datatype SelectItem = UnnamedExpr Expr | Wildcard | OtherItem string

datatype GroupByExpr = GroupExpressions "Expr list" | GroupAll

datatype TableFactor = Table ObjectName | OtherFactor string

record TableWithJoins =
  twj_relation :: TableFactor
  twj_joins :: "TableFactor list"

record Select =
  sel_projection :: "SelectItem list"
  sel_from :: "TableWithJoins list"
  sel_selection :: "Expr option"
  sel_group_by :: GroupByExpr

datatype SetExpr = SelectBody Select | OtherBody string

record Query =
  q_with :: "string option"
  q_body :: SetExpr
  q_order_by :: "string option"
  q_limit_clause :: "string option"
  q_fetch :: "string option"

datatype Statement =
    QueryStatement Query
  | StartTransaction | Commit | Rollback | SetStatement | ShowVariable | ShowVariables
  | Discard | Deallocate | CloseStatement
  | Insert | Update | Delete | CreateTable | CreateView | Drop | AlterTable | Truncate | Copy
  | OtherStatement string

record sqlparser =
  sp_parse :: "string \<Rightarrow> string + Statement list"
  sp_show_name :: "ObjectName \<Rightarrow> string"
  sp_show_expr :: "Expr \<Rightarrow> string"
  sp_show_statement :: "Statement \<Rightarrow> string"

record SqlRouteInfo =
  ri_table :: string
  ri_shard_key :: "string option"
  ri_shard_key_param :: "nat option"

record ShardKeyMatch =
  literal :: "string option"
  param_index :: "nat option"

section \<open>Operations\<close>

definition parse_one_statement :: "sqlparser \<Rightarrow> string \<Rightarrow> SqlRouteError + Statement" where
  "parse_one_statement sp sql =
     (case sp_parse sp sql of
        Inl e \<Rightarrow> Inl (SqlParse e)
      | Inr [s] \<Rightarrow> Inr s
      | Inr _ \<Rightarrow> Inl (SqlUnsupported ''only single-statement queries are supported''))"

fun is_passthrough_statement :: "Statement \<Rightarrow> bool" where
  "is_passthrough_statement StartTransaction = True"
| "is_passthrough_statement Commit = True"
| "is_passthrough_statement Rollback = True"
| "is_passthrough_statement SetStatement = True"
| "is_passthrough_statement ShowVariable = True"
| "is_passthrough_statement ShowVariables = True"
| "is_passthrough_statement Discard = True"
| "is_passthrough_statement Deallocate = True"
| "is_passthrough_statement CloseStatement = True"
| "is_passthrough_statement _ = False"

fun name_part :: "ObjectNamePart \<Rightarrow> string" where
  "name_part (NameIdent i) = ident_value i"
| "name_part (NameFunction _) = ''?''"

definition object_name :: "ObjectName \<Rightarrow> string" where
  "object_name name = join ''.'' (map name_part name)"

definition primary_table :: "Select \<Rightarrow> SqlRouteError + string" where
  "primary_table sel =
     (case sel_from sel of
        [from] \<Rightarrow>
          if twj_joins from \<noteq> [] then Inl (SqlUnsupported ''joins must be handled via federated path'')
          else (case twj_relation from of
                  Table name \<Rightarrow> Inr (object_name name)
                | OtherFactor _ \<Rightarrow>
                    Inl (SqlUnsupported ''only plain table references are supported in FROM''))
      | _ \<Rightarrow> Inl (SqlUnsupported ''exactly one table in FROM is required for non-join queries''))"

definition no_match :: ShardKeyMatch where
  "no_match = \<lparr> literal = None, param_index = None \<rparr>"

fun column_matches :: "Expr \<Rightarrow> string \<Rightarrow> bool" where
  "column_matches (Identifier i) column = eq_ignore_ascii_case (ident_value i) (to_ascii_lowercase column)"
| "column_matches (CompoundIdentifier parts) column =
     (parts \<noteq> [] \<and> eq_ignore_ascii_case (ident_value (last parts)) (to_ascii_lowercase column))"
| "column_matches _ column = False"

fun value_to_string :: "Value \<Rightarrow> string option" where
  "value_to_string (SingleQuotedString s) = Some s"
| "value_to_string (DoubleQuotedString s) = Some s"
| "value_to_string (EscapedStringLiteral s) = Some s"
| "value_to_string (Number n _) = Some n"
| "value_to_string (Boolean b) = Some (if b then ''true'' else ''false'')"
| "value_to_string Null = None"
| "value_to_string (Placeholder _) = None"
| "value_to_string (OtherValue _) = None"

definition placeholder_index :: "string \<Rightarrow> nat option" where
  "placeholder_index placeholder =
     (case parse_usize (dropWhile (\<lambda>c. c = CHR ''$'' \<or> c = CHR '':'') placeholder) of
        None \<Rightarrow> None
      | Some number \<Rightarrow> checked_sub_one number)"

fun shard_key_from_expr :: "Expr \<Rightarrow> ShardKeyMatch" where
  "shard_key_from_expr (ValueExpr (Placeholder p)) =
     \<lparr> literal = None, param_index = placeholder_index p \<rparr>"
| "shard_key_from_expr (ValueExpr v) = \<lparr> literal = value_to_string v, param_index = None \<rparr>"
| "shard_key_from_expr (Identifier i) = \<lparr> literal = Some (ident_value i), param_index = None \<rparr>"
| "shard_key_from_expr _ = no_match"

fun shard_key_from_where :: "Expr \<Rightarrow> string \<Rightarrow> ShardKeyMatch" where
  "shard_key_from_where (BinaryOp left OpEq right) column =
     (if column_matches left column then shard_key_from_expr right
      else if column_matches right column then shard_key_from_expr left
      else no_match)"
| "shard_key_from_where (BinaryOp left OpAnd right) column =
     (let left_match = shard_key_from_where left column
      in if literal left_match \<noteq> None \<or> param_index left_match \<noteq> None then left_match
         else shard_key_from_where right column)"
| "shard_key_from_where _ column = no_match"

fun group_col :: "Expr \<Rightarrow> string option" where
  "group_col (Identifier i) = Some (ident_value i)"
| "group_col (CompoundIdentifier parts) =
     (if parts = [] then None else Some (ident_value (last parts)))"
| "group_col _ = None"

fun extract_group_cols :: "GroupByExpr \<Rightarrow> string list" where
  "extract_group_cols (GroupExpressions exprs) = List.map_filter group_col exprs"
| "extract_group_cols GroupAll = []"

definition agg_kind_from_function :: "sqlparser \<Rightarrow> ObjectName \<Rightarrow> FunctionArguments \<Rightarrow> AggKind option" where
  "agg_kind_from_function sp name args =
     (let n = to_ascii_lowercase (sp_show_name sp name);
          kind = (if n = ''count'' then Some AggCount
                  else if n = ''sum'' then Some AggSum
                  else if n = ''min'' then Some AggMin
                  else if n = ''max'' then Some AggMax
                  else if n = ''avg'' then Some AggAvg
                  else None)
      in case args of NoArguments \<Rightarrow> kind | SubqueryArguments _ \<Rightarrow> kind | ListArguments _ \<Rightarrow> kind)"

fun item_agg_kind :: "sqlparser \<Rightarrow> SelectItem \<Rightarrow> AggKind option" where
  "item_agg_kind sp (UnnamedExpr (FunctionExpr name args)) = agg_kind_from_function sp name args"
| "item_agg_kind sp _ = None"

definition extract_agg_kinds :: "sqlparser \<Rightarrow> Select \<Rightarrow> SqlRouteError + AggKind list" where
  "extract_agg_kinds sp sel =
     (let kinds = List.map_filter (item_agg_kind sp) (sel_projection sel)
      in if kinds = [] then Inl (SqlUnsupported ''GROUP BY requires aggregate functions in SELECT'')
         else Inr kinds)"

fun bare_aggregate_loop ::
    "sqlparser \<Rightarrow> AggKind option \<Rightarrow> SelectItem list \<Rightarrow> SqlRouteError + AggKind option" where
  "bare_aggregate_loop sp found [] = Inr found"
| "bare_aggregate_loop sp found (UnnamedExpr (FunctionExpr name args) # items) =
     (case agg_kind_from_function sp name args of
        None \<Rightarrow> Inl (SqlUnsupported ''unsupported aggregate function'')
      | Some kind \<Rightarrow>
          if found \<noteq> None then
            Inl (SqlUnsupported ''multiple bare aggregates not supported in aggregate scan'')
          else bare_aggregate_loop sp (Some kind) items)"
| "bare_aggregate_loop sp found (Wildcard # items) = bare_aggregate_loop sp found items"
| "bare_aggregate_loop sp found (_ # items) = Inr None"

definition has_group_by :: "GroupByExpr \<Rightarrow> bool" where
  "has_group_by g = (case g of GroupExpressions exprs \<Rightarrow> exprs \<noteq> [] | GroupAll \<Rightarrow> True)"

definition detect_bare_aggregate :: "sqlparser \<Rightarrow> Select \<Rightarrow> SqlRouteError + AggKind option" where
  "detect_bare_aggregate sp sel =
     (if has_group_by (sel_group_by sel) then Inr None
      else bare_aggregate_loop sp None (sel_projection sel))"

definition plan_select ::
    "sqlparser \<Rightarrow> Query \<Rightarrow> Select \<Rightarrow> string \<Rightarrow> bool \<Rightarrow> SqlRouteError + RoutePlan" where
  "plan_select sp query sel column scan_allow_order_by =
     (case primary_table sel of
        Inl e \<Rightarrow> Inl e
      | Inr table \<Rightarrow>
          let m = (case sel_selection sel of Some e \<Rightarrow> shard_key_from_where e column | None \<Rightarrow> no_match)
          in if literal m \<noteq> None \<or> param_index m \<noteq> None then
               Inr (SingleShard table (literal m) (param_index m))
             else
               let group_cols = extract_group_cols (sel_group_by sel)
               in if group_cols \<noteq> [] then
                    (case extract_agg_kinds sp sel of
                       Inl e \<Rightarrow> Inl e
                     | Inr kinds \<Rightarrow> Inr (GroupBy table group_cols kinds))
                  else
                    (case detect_bare_aggregate sp sel of
                       Inl e \<Rightarrow> Inl e
                     | Inr (Some kind) \<Rightarrow> Inr (AggregateScan table kind)
                     | Inr None \<Rightarrow>
                         if \<not> scan_allow_order_by \<and> q_order_by query \<noteq> None then
                           Inl (SqlUnsupported ''ORDER BY on full scans is not supported'')
                         else if \<not> scan_allow_order_by \<and> (q_limit_clause query \<noteq> None \<or> q_fetch query \<noteq> None) then
                           Inl (SqlUnsupported ''LIMIT/OFFSET on full scans is not supported'')
                         else Inr (FullScan table)))"

definition plan_query ::
    "sqlparser \<Rightarrow> Query \<Rightarrow> string \<Rightarrow> string \<Rightarrow> TableRegistry \<Rightarrow> bool \<Rightarrow> SqlRouteError + RoutePlan" where
  "plan_query sp query sql column registry scan_allow_order_by =
     (if q_with query \<noteq> None then Inl (SqlUnsupported ''CTEs are not supported yet'')
      else case q_body query of
             OtherBody _ \<Rightarrow> Inl (SqlUnsupported ''only simple SELECT queries are supported'')
           | SelectBody sel \<Rightarrow>
               if sel_from sel \<noteq> [] \<and> list_ex (\<lambda>f. twj_joins f \<noteq> []) (sel_from sel) then Inr (Join sql)
               else plan_select sp query sel column scan_allow_order_by)"

definition classify_sql ::
    "sqlparser \<Rightarrow> string \<Rightarrow> string \<Rightarrow> TableRegistry \<Rightarrow> bool \<Rightarrow> SqlRouteError + SqlClassify" where
  "classify_sql sp sql column registry scan_allow_order_by =
     (if has_questdb_extension sql then
        (case classify_questdb_passthrough sql column of
           Inl e \<Rightarrow> Inl e
         | Inr plan \<Rightarrow> Inr (Routable plan))
      else
        (case parse_one_statement sp sql of
           Inl e \<Rightarrow> Inl e
         | Inr statement \<Rightarrow>
             if is_passthrough_statement statement then Inr Passthrough
             else (case statement of
                     QueryStatement query \<Rightarrow>
                       (case plan_query sp query sql column registry scan_allow_order_by of
                          Inl e \<Rightarrow> Inl e
                        | Inr plan \<Rightarrow> Inr (Routable plan))
                   | _ \<Rightarrow> Inl (SqlUnsupported ''only read queries (SELECT) are routed via SQL parser''))))"

fun route_plan_to_info :: "RoutePlan \<Rightarrow> SqlRouteError + SqlRouteInfo" where
  "route_plan_to_info (SingleShard table key param) =
     Inr \<lparr> ri_table = table, ri_shard_key = key, ri_shard_key_param = param \<rparr>"
| "route_plan_to_info _ = Inl (SqlUnsupported ''query is not a single-shard route'')"

definition session_sql_error :: SqlRouteError where
  "session_sql_error = SqlUnsupported ''session/transaction SQL is not shard-routable''"

definition plan_sql ::
    "sqlparser \<Rightarrow> string \<Rightarrow> string \<Rightarrow> TableRegistry \<Rightarrow> bool \<Rightarrow> SqlRouteError + RoutePlan" where
  "plan_sql sp sql column registry scan_allow_order_by =
     (case classify_sql sp sql column registry scan_allow_order_by of
        Inl e \<Rightarrow> Inl e
      | Inr (Routable plan) \<Rightarrow> Inr plan
      | Inr Passthrough \<Rightarrow> Inl session_sql_error)"

definition analyze_read_sql :: "sqlparser \<Rightarrow> string \<Rightarrow> string \<Rightarrow> SqlRouteError + SqlRouteInfo" where
  "analyze_read_sql sp sql column =
     (case classify_sql sp sql column registry_default False of
        Inl e \<Rightarrow> Inl e
      | Inr (Routable plan) \<Rightarrow> route_plan_to_info plan
      | Inr Passthrough \<Rightarrow> Inl session_sql_error)"

section \<open>Specification vocabulary\<close>

text \<open>
  What a predicate means on one row. A row maps lower-cased column names to their text, absent for
  null; \<open>ps\<close> are the bound parameters. Expressions and conditions the router does not look into are
  evaluated by the arbitrary functions \<open>oe\<close> and \<open>oc\<close>.
\<close>

type_synonym row = "string \<rightharpoonup> string"

fun ev_value :: "string list \<Rightarrow> Value \<Rightarrow> string option" where
  "ev_value ps (Placeholder p) =
     (case placeholder_index p of Some n \<Rightarrow> if n < length ps then Some (ps ! n) else None | None \<Rightarrow> None)"
| "ev_value ps v = value_to_string v"

fun ev :: "(Expr \<Rightarrow> string option) \<Rightarrow> row \<Rightarrow> string list \<Rightarrow> Expr \<Rightarrow> string option" where
  "ev oe row ps (Identifier i) = row (to_ascii_lowercase (ident_value i))"
| "ev oe row ps (CompoundIdentifier parts) =
     (if parts = [] then None else row (to_ascii_lowercase (ident_value (last parts))))"
| "ev oe row ps (ValueExpr v) = ev_value ps v"
| "ev oe row ps e = oe e"

fun holds :: "(Expr \<Rightarrow> string option) \<Rightarrow> (Expr \<Rightarrow> bool) \<Rightarrow> row \<Rightarrow> string list \<Rightarrow> Expr \<Rightarrow> bool" where
  "holds oe oc row ps (BinaryOp l OpEq r) =
     (ev oe row ps l \<noteq> None \<and> ev oe row ps l = ev oe row ps r)"
| "holds oe oc row ps (BinaryOp l OpAnd r) = (holds oe oc row ps l \<and> holds oe oc row ps r)"
| "holds oe oc row ps e = oc e"

fun is_identifier :: "Expr \<Rightarrow> bool" where
  "is_identifier (Identifier _) = True"
| "is_identifier _ = False"

text \<open>No equation of the conjunction compares the key column with a bare identifier.\<close>

fun key_compared_with_values :: "Expr \<Rightarrow> string \<Rightarrow> bool" where
  "key_compared_with_values (BinaryOp l OpEq r) column =
     ((column_matches l column \<longrightarrow> \<not> is_identifier r) \<and> (column_matches r column \<longrightarrow> \<not> is_identifier l))"
| "key_compared_with_values (BinaryOp l OpAnd r) column =
     (key_compared_with_values l column \<and> key_compared_with_values r column)"
| "key_compared_with_values _ column = True"

text \<open>The key value a match stands for, given the bound parameters.\<close>

definition match_value :: "string list \<Rightarrow> ShardKeyMatch \<Rightarrow> string option" where
  "match_value ps m =
     (case param_index m of
        Some n \<Rightarrow> if n < length ps then Some (ps ! n) else None
      | None \<Rightarrow> literal m)"

definition is_match :: "ShardKeyMatch \<Rightarrow> bool" where
  "is_match m \<longleftrightarrow> literal m \<noteq> None \<or> param_index m \<noteq> None"

text \<open>
  Instances of the parser for the witnesses: a parser that answers every text with one given
  statement, and the query \<open>SELECT * FROM trades WHERE e\<close>.
\<close>

definition demo_parser :: "Statement \<Rightarrow> sqlparser" where
  "demo_parser stmt = \<lparr> sp_parse = (\<lambda>_. Inr [stmt]), sp_show_name = object_name,
     sp_show_expr = (\<lambda>_. []), sp_show_statement = (\<lambda>_. []) \<rparr>"

definition demo_ident :: "string \<Rightarrow> Ident" where
  "demo_ident name = Ident name None"

definition demo_select :: "Expr \<Rightarrow> Select" where
  "demo_select e = \<lparr> sel_projection = [Wildcard],
     sel_from = [\<lparr> twj_relation = Table [NameIdent (demo_ident ''trades'')], twj_joins = [] \<rparr>],
     sel_selection = Some e, sel_group_by = GroupExpressions [] \<rparr>"

definition demo_query :: "Expr \<Rightarrow> Query" where
  "demo_query e = \<lparr> q_with = None, q_body = SelectBody (demo_select e), q_order_by = None,
     q_limit_clause = None, q_fetch = None \<rparr>"

definition demo_where :: Expr where
  "demo_where = BinaryOp (BinaryOp (Identifier (demo_ident ''px'')) OpEq (ValueExpr (Number ''7'' False)))
     OpAnd (BinaryOp (ValueExpr (Placeholder ''$2'')) OpEq (Identifier (demo_ident ''SYMBOL'')))"

definition demo_ident_where :: Expr where
  "demo_ident_where = BinaryOp (Identifier (demo_ident ''symbol'')) OpEq (Identifier (demo_ident ''venue''))"

lemmas demo_sql_defs = demo_parser_def demo_ident_def demo_select_def demo_query_def demo_where_def
  demo_ident_where_def

section \<open>Lemmas\<close>

lemma is_match_no_match [simp]: "\<not> is_match no_match"
  by (simp add: is_match_def no_match_def)

lemma column_matches_ev:
  "column_matches e column \<Longrightarrow> ev oe row ps e = row (to_ascii_lowercase column)"
  by (cases e) (auto simp: eq_ignore_ascii_case_def)

lemma shard_key_from_expr_ev:
  assumes "\<not> is_identifier e" and "is_match (shard_key_from_expr e)"
  shows "match_value ps (shard_key_from_expr e) = ev oe row ps e"
proof (cases e)
  case (ValueExpr v)
  with assms show ?thesis
    by (cases v) (auto simp: match_value_def is_match_def split: option.splits)
qed (use assms in \<open>auto simp: is_match_def no_match_def\<close>)

lemma shard_key_from_where_ev:
  "holds oe oc row ps e \<Longrightarrow> key_compared_with_values e column \<Longrightarrow>
   is_match (shard_key_from_where e column) \<Longrightarrow>
     row (to_ascii_lowercase column) \<noteq> None
   \<and> match_value ps (shard_key_from_where e column) = row (to_ascii_lowercase column)"
proof (induction e column rule: shard_key_from_where.induct)
  case (1 l r column)
  have ev: "ev oe row ps l \<noteq> None \<and> ev oe row ps l = ev oe row ps r"
    using "1.prems"(1) unfolding holds.simps .
  consider "column_matches l column" | "\<not> column_matches l column" "column_matches r column"
    using "1.prems"(3) by fastforce
  then show ?case
  proof cases
    case 1
    with "1.prems" ev show ?thesis
      using column_matches_ev [OF 1, of oe row ps] shard_key_from_expr_ev [of r ps oe row] by simp
  next
    case 2
    with "1.prems" ev show ?thesis
      using column_matches_ev [OF 2(2), of oe row ps] shard_key_from_expr_ev [of l ps oe row] by simp
  qed
next
  case (2 l r column)
  then show ?case
    by (auto simp: Let_def is_match_def split: if_splits)
qed (auto simp: is_match_def no_match_def)

lemma placeholder_index_render:
  assumes "Suc n < 2 ^ 64"
  shows "placeholder_index (''$'' @ nat_to_string (Suc n)) = Some n"
proof -
  have "list_all is_ascii_digit (nat_to_string (Suc n))" by (simp add: nat_to_string_digits)
  then have "dropWhile (\<lambda>c. c = CHR ''$'' \<or> c = CHR '':'') (nat_to_string (Suc n)) = nat_to_string (Suc n)"
    by (cases "nat_to_string (Suc n)") (auto dest: digit_not)
  with assms show ?thesis
    by (simp add: placeholder_index_def parse_usize_def parse_unsigned_nat_to_string checked_sub_one_def)
qed

lemma nat_to_string_two: "nat_to_string (Suc (Suc 0)) = ''2''"
  by code_simp

lemma passthrough_not_query [simp]: "\<not> is_passthrough_statement (QueryStatement q)"
  by simp

lemma plan_select_cases:
  assumes "plan_select sp query sel column allow = Inr plan"
  shows "case plan of
      SingleShard t k i \<Rightarrow>
        (k \<noteq> None \<or> i \<noteq> None) \<and>
        (\<exists>e. sel_selection sel = Some e \<and> shard_key_from_where e column = \<lparr>literal = k, param_index = i\<rparr>)
    | FullScan t \<Rightarrow>
        allow \<or> (q_order_by query = None \<and> q_limit_clause query = None \<and> q_fetch query = None)
    | AggregateScan t k \<Rightarrow> \<not> has_group_by (sel_group_by sel)
    | Join s \<Rightarrow> False
    | GroupBy t cols kinds \<Rightarrow> cols \<noteq> [] \<and> kinds \<noteq> []"
  using assms
  by (auto simp: plan_select_def Let_def no_match_def extract_agg_kinds_def detect_bare_aggregate_def
      split: sum.splits option.splits if_splits)

lemma classify_sql_RoutableD:
  assumes "classify_sql sp sql column reg allow = Inr (Routable plan)" and "\<not> has_questdb_extension sql"
  obtains query where "sp_parse sp sql = Inr [QueryStatement query]"
    and "plan_query sp query sql column reg allow = Inr plan"
  using assms
  by (auto simp: classify_sql_def parse_one_statement_def
      split: sum.splits list.splits if_splits Statement.splits)

lemma classify_select:
  assumes "\<not> has_questdb_extension sql" and "sp_parse sp sql = Inr [QueryStatement query]"
    and "q_body query = SelectBody sel"
    and "classify_sql sp sql column reg allow = Inr (Routable (SingleShard t k i))"
  shows "plan_select sp query sel column allow = Inr (SingleShard t k i)"
  using assms
  by (auto simp: classify_sql_def parse_one_statement_def plan_query_def split: if_splits sum.splits)

section \<open>Properties\<close>

text \<open>
  C17. Single-shard routing of a parsed query is sound. Take a text without dialect keywords that parses to one SELECT, is
  planned for one shard, and nowhere in its conjunction equates the key column with another column by its bare name. Then
  every row the WHERE clause accepts carries, in the key column, exactly the key value the
  query is routed by - the literal, or the bound parameter with the index found. Whatever the other
  conditions mean, no matching row can live under another key. (A bare column name as comparand is taken for a value:
  \<open>column_comparand_is_routed_by_its_name\<close>; dialect text is planned by its words only.)
\<close>

theorem routed_key_is_the_rows_key:
  assumes "\<not> has_questdb_extension sql" and "sp_parse sp sql = Inr [QueryStatement query]"
    and "q_body query = SelectBody sel" and "sel_selection sel = Some e"
    and "classify_sql sp sql column reg allow = Inr (Routable (SingleShard t k i))"
    and "key_compared_with_values e column" and "holds oe oc row ps e"
  shows "row (to_ascii_lowercase column) \<noteq> None
    \<and> match_value ps \<lparr>literal = k, param_index = i\<rparr> = row (to_ascii_lowercase column)"
  using plan_select_cases [OF classify_select [OF assms(1-3,5)]]
    shard_key_from_where_ev [OF assms(7,6)] assms(4)
  by (auto simp: is_match_def)

theorem routed_key_is_the_rows_key_witness:
  "let row = [''symbol'' \<mapsto> ''BTC'', ''px'' \<mapsto> ''7''];
       sp = demo_parser (QueryStatement (demo_query demo_where))
   in classify_sql sp ''q'' ''symbol'' registry_default False = Inr (Routable (SingleShard ''trades'' None (Some 1)))
    \<and> row ''symbol'' \<noteq> None
    \<and> match_value [''x'', ''BTC''] \<lparr>literal = None, param_index = Some 1\<rparr> = row ''symbol''"
proof -
  let ?sp = "demo_parser (QueryStatement (demo_query demo_where))"
  let ?row = "[''symbol'' \<mapsto> ''BTC'', ''px'' \<mapsto> ''7''] :: row"
  have ext: "\<not> has_questdb_extension ''q''" by code_simp
  have l: "to_ascii_lowercase ''symbol'' = ''symbol''" "to_ascii_lowercase ''SYMBOL'' = ''symbol''"
    "to_ascii_lowercase ''px'' = ''px''" by code_simp+
  have p: "placeholder_index ''$2'' = Some 1"
    using placeholder_index_render [of 1] by (simp add: nat_to_string_two)
  have c: "classify_sql ?sp ''q'' ''symbol'' registry_default False =
      Inr (Routable (SingleShard ''trades'' None (Some 1)))"
    by (simp add: classify_sql_def ext parse_one_statement_def plan_query_def plan_select_def p
        primary_table_def object_name_def demo_sql_defs no_match_def eq_ignore_ascii_case_def l)
  have v: "key_compared_with_values demo_where ''symbol''" by code_simp
  have h: "holds (\<lambda>_. None) (\<lambda>_. False) ?row [''x'', ''BTC''] demo_where"
    by (simp add: demo_sql_defs p l)
  have "?row ''symbol'' \<noteq> None \<and>
      match_value [''x'', ''BTC''] \<lparr>literal = None, param_index = Some 1\<rparr> = ?row ''symbol''"
    by (rule routed_key_is_the_rows_key [where sql = "''q''" and sp = ?sp and column = "''symbol''"
          and row = ?row and e = demo_where and query = "demo_query demo_where"
          and sel = "demo_select demo_where", unfolded l, OF ext _ _ _ c v h])
      (simp_all add: demo_sql_defs)
  with c show ?thesis by (simp only: Let_def simp_thms)
qed

text \<open>
  Comparing the key column with another column is treated as a comparison with that column's
  name: \<open>WHERE symbol = venue\<close> is a single-shard query for the key \<open>venue\<close>, although a row whose
  symbol and venue are both \<open>BTC\<close> satisfies it. The premise on the comparands in the soundness
  theorem is therefore needed.
\<close>

theorem column_comparand_is_routed_by_its_name:
  "classify_sql (demo_parser (QueryStatement (demo_query demo_ident_where))) ''q'' ''symbol''
       registry_default False = Inr (Routable (SingleShard ''trades'' (Some ''venue'') None))
   \<and> holds (\<lambda>_. None) (\<lambda>_. False) [''symbol'' \<mapsto> ''BTC'', ''venue'' \<mapsto> ''BTC''] [] demo_ident_where"
  by (rule conjI) code_simp+

text \<open>
  A plan comes only from a query: outside the dialect fast path a text is planned only when it
  parses to one SELECT without WITH; a full scan is planned only when ordering and limiting the
  merged rows is allowed or not asked for; group-by plans have columns and aggregates. Session
  statements, and only they, are relayed; every other statement is refused.
\<close>

theorem plans_come_from_reads:
  assumes "\<not> has_questdb_extension sql"
  shows "case classify_sql sp sql column reg allow of
      Inr (Routable plan) \<Rightarrow>
        (\<exists>query sel. sp_parse sp sql = Inr [QueryStatement query] \<and> q_with query = None
          \<and> q_body query = SelectBody sel
          \<and> (\<forall>t. plan = FullScan t \<longrightarrow>
               allow \<or> (q_order_by query = None \<and> q_limit_clause query = None \<and> q_fetch query = None))
          \<and> (\<forall>t cols kinds. plan = GroupBy t cols kinds \<longrightarrow> cols \<noteq> [] \<and> kinds \<noteq> [])
          \<and> ((\<exists>s. plan = Join s) \<longleftrightarrow> list_ex (\<lambda>f. twj_joins f \<noteq> []) (sel_from sel)))
    | Inr Passthrough \<Rightarrow> \<exists>stmt. sp_parse sp sql = Inr [stmt] \<and> is_passthrough_statement stmt
    | Inl e \<Rightarrow> \<forall>stmt. sp_parse sp sql = Inr [stmt] \<longrightarrow> \<not> is_passthrough_statement stmt"
proof (cases "classify_sql sp sql column reg allow")
  case (Inl e)
  with assms show ?thesis by (auto simp: classify_sql_def parse_one_statement_def)
next
  case (Inr c)
  show ?thesis
  proof (cases c)
    case (Routable plan)
    from classify_sql_RoutableD [OF Inr [unfolded Routable] assms] obtain query
      where q: "sp_parse sp sql = Inr [QueryStatement query]"
        "plan_query sp query sql column reg allow = Inr plan" .
    then obtain sel where sel: "q_with query = None" "q_body query = SelectBody sel"
      and alt: "list_ex (\<lambda>f. twj_joins f \<noteq> []) (sel_from sel) \<and> plan = Join sql
        \<or> \<not> list_ex (\<lambda>f. twj_joins f \<noteq> []) (sel_from sel) \<and> plan_select sp query sel column allow = Inr plan"
      by (auto simp: plan_query_def split: if_splits SetExpr.splits)
    from alt have "case plan of FullScan t \<Rightarrow>
          allow \<or> (q_order_by query = None \<and> q_limit_clause query = None \<and> q_fetch query = None)
        | GroupBy t cols kinds \<Rightarrow> cols \<noteq> [] \<and> kinds \<noteq> []
        | Join s \<Rightarrow> list_ex (\<lambda>f. twj_joins f \<noteq> []) (sel_from sel)
        | _ \<Rightarrow> \<not> list_ex (\<lambda>f. twj_joins f \<noteq> []) (sel_from sel)"
      by (auto dest!: plan_select_cases split: RoutePlan.splits)
    with q(1) sel alt Inr Routable show ?thesis
      by (auto dest!: plan_select_cases)
  next
    case Passthrough
    with Inr assms show ?thesis
      by (auto simp: classify_sql_def parse_one_statement_def
          split: sum.splits list.splits if_splits Statement.splits)
  qed
qed

theorem plans_come_from_reads_witness:
  "\<not> has_questdb_extension ''q'' \<and>
   (\<exists>stmt. sp_parse (demo_parser Commit) ''q'' = Inr [stmt] \<and> is_passthrough_statement stmt)"
proof -
  have ext: "\<not> has_questdb_extension ''q''" by code_simp
  have "classify_sql (demo_parser Commit) ''q'' ''symbol'' registry_default False = Inr Passthrough"
    by code_simp
  with ext plans_come_from_reads [OF ext, where sp = "demo_parser Commit" and column = "''symbol''"
      and reg = registry_default and allow = False]
  show ?thesis by simp
qed

text \<open>
  The dialect fast path looks at the text only, so it also plans statements that are not reads:
  an INSERT whose source query has a sampling clause and a keyed WHERE is a single-shard plan,
  although the parser route refuses every INSERT.
\<close>

theorem dialect_fast_path_plans_an_insert:
  "classify_sql (demo_parser Insert) ''INSERT INTO t SELECT ts FROM q WHERE s = 'A' SAMPLE BY 1h''
       ''s'' registry_default False = Inr (Routable (SingleShard ''q'' (Some ''A'') None))
   \<and> classify_sql (demo_parser Insert) ''INSERT INTO t SELECT ts FROM q WHERE s = 'A' ''
       ''s'' registry_default False =
       Inl (SqlUnsupported ''only read queries (SELECT) are routed via SQL parser'')"
  by (rule conjI) code_simp+

end
