(* ===== verification/Shard_Ring.thy ===== *)
theory Shard_Ring
  imports Router_Config
begin

text \<open>
  The shard ring, \<open>routing/ring.rs\<close>: shards are placed on a consistent-hash ring through weighted
  virtual nodes, a key is looked up on the ring, and a filtered lookup skips excluded shards by
  salted probes and finally by the lowest remaining shard id.

  The hash ring itself is a third-party package. Its three operations are the fields of
  \<open>hash_ring_ops\<close>, a parameter of the definitions; \<open>hash_ring_laws\<close> and
  \<open>hash_ring_consistent\<close> state its documented behaviour. The two shapes of lookup key the code
  hashes, \<open>Key(key)\<close> and \<open>(key, attempt)\<close>, are the constructors of \<open>ring_key\<close>.
\<close>

section \<open>Data\<close>

datatype VNode = VNode (shard_id: u32) (vnode_id: u32)

datatype ring_key = Key string | Salted string nat

record 'r hash_ring_ops =
  hr_new :: 'r
  hr_add :: "VNode \<Rightarrow> 'r \<Rightarrow> 'r"
  hr_get :: "'r \<Rightarrow> ring_key \<Rightarrow> VNode option"

record 'r ShardRing =
  sr_ring :: 'r
  sr_shards :: "ShardConfig list"

section \<open>Operations\<close>

definition saturating_mul_u32 :: "u32 \<Rightarrow> u32 \<Rightarrow> u32" where
  "saturating_mul_u32 a b = (if unat a * unat b < 2 ^ 32 then a * b else - 1)"

definition effective_vnode_count :: "ShardConfig \<Rightarrow> u32" where
  "effective_vnode_count s = saturating_mul_u32 (max (sc_weight s) 1) (max (sc_virtual_nodes s) 1)"

definition add_vnodes :: "'r hash_ring_ops \<Rightarrow> ShardConfig \<Rightarrow> 'r \<Rightarrow> 'r" where
  "add_vnodes ops s r =
     fold (\<lambda>v. hr_add ops (VNode (sc_id s) (of_nat v))) [0..<unat (effective_vnode_count s)] r"

definition from_shards :: "'r hash_ring_ops \<Rightarrow> ShardConfig list \<Rightarrow> 'r ShardRing" where
  "from_shards ops shards =
     \<lparr> sr_ring = fold (add_vnodes ops) shards (hr_new ops), sr_shards = shards \<rparr>"

definition shard_count :: "'r ShardRing \<Rightarrow> nat" where
  "shard_count r = length (sr_shards r)"

definition vnode_count :: "'r ShardRing \<Rightarrow> nat" where
  "vnode_count r = sum_list (map (\<lambda>s. unat (effective_vnode_count s)) (sr_shards r))"

definition shard_by_id :: "'r ShardRing \<Rightarrow> u32 \<Rightarrow> ShardConfig option" where
  "shard_by_id r i = find (\<lambda>s. sc_id s = i) (sr_shards r)"

definition shard_by_key :: "'r hash_ring_ops \<Rightarrow> 'r ShardRing \<Rightarrow> string \<Rightarrow> ShardConfig option" where
  "shard_by_key ops r key =
     (if sr_shards r = [] then None
      else case hr_get ops (sr_ring r) (Key key) of
             None \<Rightarrow> None
           | Some vnode \<Rightarrow> shard_by_id r (shard_id vnode))"

fun probe :: "'r hash_ring_ops \<Rightarrow> 'r ShardRing \<Rightarrow> string \<Rightarrow> (u32 \<Rightarrow> bool) \<Rightarrow> nat list \<Rightarrow> ShardConfig option" where
  "probe ops r key excl [] = None"
| "probe ops r key excl (attempt # attempts) =
     (case hr_get ops (sr_ring r) (Salted key attempt) of
        Some vnode \<Rightarrow>
          if \<not> excl (shard_id vnode) then
            (case shard_by_id r (shard_id vnode) of
               Some s \<Rightarrow> Some s
             | None \<Rightarrow> probe ops r key excl attempts)
          else probe ops r key excl attempts
      | None \<Rightarrow> probe ops r key excl attempts)"

definition lower_of :: "ShardConfig \<Rightarrow> ShardConfig \<Rightarrow> ShardConfig" where
  "lower_of m t = (if sc_id t < sc_id m then t else m)"

fun min_by_id :: "ShardConfig list \<Rightarrow> ShardConfig option" where
  "min_by_id [] = None"
| "min_by_id (s # ss) = Some (foldl lower_of s ss)"

definition shard_by_key_filtered ::
    "'r hash_ring_ops \<Rightarrow> 'r ShardRing \<Rightarrow> string \<Rightarrow> (u32 \<Rightarrow> bool) \<Rightarrow> ShardConfig option" where
  "shard_by_key_filtered ops r key excl =
     (if sr_shards r = [] then None
      else let primary = (case shard_by_key ops r key of
                            Some s \<Rightarrow> if \<not> excl (sc_id s) then Some s else None
                          | None \<Rightarrow> None)
           in case primary of
                Some s \<Rightarrow> Some s
              | None \<Rightarrow>
                  let max_probes = max (vnode_count r) 1
                  in case probe ops r key excl [1..<max_probes + 1] of
                       Some s \<Rightarrow> Some s
                     | None \<Rightarrow> min_by_id (filter (\<lambda>s. \<not> excl (sc_id s)) (sr_shards r)))"

section \<open>What the hash ring promises\<close>

definition ring_of :: "'r hash_ring_ops \<Rightarrow> VNode list \<Rightarrow> 'r" where
  "ring_of ops vs = fold (hr_add ops) vs (hr_new ops)"

text \<open>The virtual nodes of one shard, in the order \<open>from_shards\<close> adds them.\<close>

definition vnodes_of :: "ShardConfig \<Rightarrow> VNode list" where
  "vnodes_of s = map (\<lambda>v. VNode (sc_id s) (of_nat v)) [0..<unat (effective_vnode_count s)]"

definition hash_ring_laws :: "'r hash_ring_ops \<Rightarrow> bool" where
  "hash_ring_laws ops \<longleftrightarrow>
     (\<forall>vs k. case hr_get ops (ring_of ops vs) k of
               None \<Rightarrow> vs = [] | Some v \<Rightarrow> v \<in> set vs)"

definition hash_ring_consistent :: "'r hash_ring_ops \<Rightarrow> bool" where
  "hash_ring_consistent ops \<longleftrightarrow>
     (\<forall>vs v k. hr_get ops (ring_of ops (vs @ [v])) k = Some v
             \<or> hr_get ops (ring_of ops (vs @ [v])) k = hr_get ops (ring_of ops vs) k)"

text \<open>
  A concrete ring, for the witnesses: the nodes in insertion order, each and every key hashed to a
  32-bit point, a lookup taking the node at the least clockwise distance.
\<close>

fun ref_hash_str :: "string \<Rightarrow> u32 \<Rightarrow> u32" where
  "ref_hash_str [] h = h"
| "ref_hash_str (c # cs) h = ref_hash_str cs (h * 31 + of_nat (byte c))"

fun ref_hash_key :: "ring_key \<Rightarrow> u32" where
  "ref_hash_key (Key k) = ref_hash_str k 7"
| "ref_hash_key (Salted k n) = ref_hash_str k 7 + of_nat n * 40503"

fun ref_hash_vnode :: "VNode \<Rightarrow> u32" where
  "ref_hash_vnode (VNode s v) = s * 1000 + v * 77"

definition ref_closer :: "ring_key \<Rightarrow> VNode \<Rightarrow> VNode \<Rightarrow> VNode" where
  "ref_closer k v m =
     (if ref_hash_vnode v - ref_hash_key k < ref_hash_vnode m - ref_hash_key k then v else m)"

fun ref_ring_get :: "VNode list \<Rightarrow> ring_key \<Rightarrow> VNode option" where
  "ref_ring_get [] k = None"
| "ref_ring_get (v # vs) k = Some (fold (ref_closer k) vs v)"

definition ref_ring_ops :: "VNode list hash_ring_ops" where
  "ref_ring_ops = \<lparr> hr_new = [], hr_add = (\<lambda>v vs. vs @ [v]), hr_get = ref_ring_get \<rparr>"

definition demo_shard :: "u32 \<Rightarrow> ShardConfig" where
  "demo_shard i = \<lparr> sc_id = i, sc_ilp_address = Endpoint ''h:9009'', sc_pg_address = Endpoint ''h:8812'',
     sc_weight = 1, sc_virtual_nodes = 2 \<rparr>"

section \<open>The selection contract\<close>

text \<open>
  What the clients of a ring (the cluster snapshot, and through it the query router and the ILP
  forwarder) rely on: a selected shard is a member and not excluded, and selection fails only when
  every member is excluded.
\<close>

locale shard_selector =
  fixes select :: "'t \<Rightarrow> string \<Rightarrow> (u32 \<Rightarrow> bool) \<Rightarrow> ShardConfig option"
    and members :: "'t \<Rightarrow> ShardConfig list"
  assumes select_SomeD: "select t k excl = Some s \<Longrightarrow> s \<in> set (members t) \<and> \<not> excl (sc_id s)"
    and select_NoneD: "select t k excl = None \<Longrightarrow> \<forall>s \<in> set (members t). excl (sc_id s)"
begin

lemma select_None_iff: "select t k excl = None \<longleftrightarrow> (\<forall>s \<in> set (members t). excl (sc_id s))"
proof
  assume "\<forall>s \<in> set (members t). excl (sc_id s)"
  then show "select t k excl = None"
    by (cases "select t k excl") (auto dest: select_SomeD)
qed (rule select_NoneD)

lemma select_total:
  assumes "s \<in> set (members t)" and "\<not> excl (sc_id s)"
  obtains s' where "select t k excl = Some s'" "s' \<in> set (members t)" "\<not> excl (sc_id s')"
  using assms select_None_iff [of t k excl] select_SomeD [of t k excl] by fastforce

lemma select_only_member:
  assumes "\<And>s'. s' \<in> set (members t) \<Longrightarrow> \<not> excl (sc_id s') \<Longrightarrow> s' = s"
    and "s \<in> set (members t)" and "\<not> excl (sc_id s)"
  shows "select t k excl = Some s"
  using assms select_total by metis

end

section \<open>Lemmas\<close>

subsection \<open>Virtual nodes\<close>

lemma unat_saturating_mul_u32:
  "unat (saturating_mul_u32 a b) = min (unat a * unat b) (2 ^ 32 - 1)"
proof (cases "unat a * unat b < 2 ^ 32")
  case True
  then show ?thesis by (simp add: saturating_mul_u32_def unat_word_ariths)
next
  case False
  have "unat (- 1 :: u32) = 2 ^ 32 - 1"
    by (simp add: unsigned_minus_1_eq_mask mask_eq_exp_minus_1)
  with False show ?thesis by (simp add: saturating_mul_u32_def min_def)
qed

lemma unat_max_one: "unat (max (w :: u32) 1) = max (unat w) 1"
  by (auto simp: max_def word_le_nat_alt)

lemma unat_effective_vnode_count:
  "unat (effective_vnode_count s) =
     min (max (unat (sc_weight s)) 1 * max (unat (sc_virtual_nodes s)) 1) (2 ^ 32 - 1)"
  by (simp add: effective_vnode_count_def unat_saturating_mul_u32 unat_max_one)

lemma effective_vnode_count_pos: "0 < unat (effective_vnode_count s)"
  by (simp add: unat_effective_vnode_count less_max_iff_disj)

lemma fold_add_vnodes: "fold (add_vnodes ops) ss r = fold (hr_add ops) (concat (map vnodes_of ss)) r"
  by (induction ss arbitrary: r)
    (simp_all add: add_vnodes_def vnodes_of_def fold_map comp_def)

lemma sr_ring_from_shards:
  "sr_ring (from_shards ops ss) = ring_of ops (concat (map vnodes_of ss))"
  by (simp add: from_shards_def ring_of_def fold_add_vnodes)

lemma sr_shards_from_shards [simp]: "sr_shards (from_shards ops ss) = ss"
  by (simp add: from_shards_def)

lemma length_vnodes_of: "length (vnodes_of s) = unat (effective_vnode_count s)"
  by (simp add: vnodes_of_def)

lemma vnodes_of_nonempty [simp]: "vnodes_of s \<noteq> []"
  using effective_vnode_count_pos [of s] length_vnodes_of [of s] by auto

lemma shard_id_vnodes_of: "v \<in> set (vnodes_of s) \<Longrightarrow> shard_id v = sc_id s"
  by (auto simp: vnodes_of_def)

lemma vnode_count_from_shards:
  "vnode_count (from_shards ops ss) = length (concat (map vnodes_of ss))"
  by (simp add: vnode_count_def length_concat length_vnodes_of comp_def)

lemma distinct_vnodes_of: "distinct (vnodes_of s)"
proof -
  have "inj_on (\<lambda>v. VNode (sc_id s) (of_nat v)) {0..<unat (effective_vnode_count s)}"
  proof (rule inj_onI)
    fix a b
    assume ab: "a \<in> {0..<unat (effective_vnode_count s)}" "b \<in> {0..<unat (effective_vnode_count s)}"
      and eq: "VNode (sc_id s) (of_nat a) = VNode (sc_id s) (of_nat b)"
    have "unat (effective_vnode_count s) < 2 ^ 32"
      by (simp add: unat_effective_vnode_count)
    with ab have "a < 2 ^ 32" "b < 2 ^ 32" by auto
    then have "unat (of_nat a :: u32) = a" "unat (of_nat b :: u32) = b"
      by (simp_all add: unat_of_nat)
    with eq show "a = b" by (metis VNode.inject)
  qed
  then show ?thesis by (simp add: vnodes_of_def distinct_map)
qed

lemma distinct_all_vnodes:
  "distinct (map sc_id ss) \<Longrightarrow> distinct (concat (map vnodes_of ss))"
proof (induction ss)
  case (Cons s ss)
  have "set (vnodes_of s) \<inter> set (concat (map vnodes_of ss)) = {}"
    using Cons.prems by (auto dest!: shard_id_vnodes_of) (metis imageI)
  with Cons show ?case by (simp add: distinct_vnodes_of)
qed simp

subsection \<open>Lookups\<close>

lemma shard_by_id_SomeD: "shard_by_id r i = Some s \<Longrightarrow> s \<in> set (sr_shards r) \<and> sc_id s = i"
  by (auto simp: shard_by_id_def find_Some_iff in_set_conv_nth)

lemma shard_by_id_None_iff: "shard_by_id r i = None \<longleftrightarrow> i \<notin> sc_id ` set (sr_shards r)"
  by (auto simp: shard_by_id_def find_None_iff)

lemma shard_by_key_SomeD:
  "shard_by_key ops r key = Some s \<Longrightarrow>
     s \<in> set (sr_shards r) \<and>
     (\<exists>v. hr_get ops (sr_ring r) (Key key) = Some v \<and> shard_by_id r (shard_id v) = Some s)"
  by (auto simp: shard_by_key_def split: if_splits option.splits dest: shard_by_id_SomeD)

lemma probe_SomeD:
  "probe ops r key excl attempts = Some s \<Longrightarrow> s \<in> set (sr_shards r) \<and> \<not> excl (sc_id s)"
  by (induction attempts)
    (auto split: option.splits if_splits dest: shard_by_id_SomeD)

lemma foldl_lower_in: "foldl lower_of s ss \<in> set (s # ss)"
  by (induction ss arbitrary: s) (auto simp: lower_of_def)

lemma foldl_lower_le: "t \<in> set (s # ss) \<Longrightarrow> sc_id (foldl lower_of s ss) \<le> sc_id t"
proof (induction ss arbitrary: s t)
  case (Cons u ss)
  have head: "sc_id (foldl lower_of (lower_of s u) ss) \<le> sc_id (lower_of s u)"
    by (rule Cons.IH) simp
  have "sc_id (lower_of s u) \<le> sc_id s" "sc_id (lower_of s u) \<le> sc_id u"
    by (auto simp: lower_of_def)
  with head Cons.IH [of t "lower_of s u"] Cons.prems show ?case
    by (auto dest: order_trans)
qed simp

lemma min_by_id_SomeD:
  "min_by_id ss = Some s \<Longrightarrow> s \<in> set ss \<and> (\<forall>t \<in> set ss. sc_id s \<le> sc_id t)"
  by (cases ss) (use foldl_lower_in foldl_lower_le in \<open>fastforce+\<close>)

lemma min_by_id_None_iff: "min_by_id ss = None \<longleftrightarrow> ss = []"
  by (cases ss) auto

lemma filtered_SomeD:
  "shard_by_key_filtered ops r key excl = Some s \<Longrightarrow> s \<in> set (sr_shards r) \<and> \<not> excl (sc_id s)"
  by (auto simp: shard_by_key_filtered_def Let_def split: if_splits option.splits
      dest: shard_by_key_SomeD probe_SomeD min_by_id_SomeD)

lemma filtered_NoneD:
  "shard_by_key_filtered ops r key excl = None \<Longrightarrow> \<forall>s \<in> set (sr_shards r). excl (sc_id s)"
  by (auto simp: shard_by_key_filtered_def Let_def min_by_id_None_iff filter_empty_conv
      split: if_splits option.splits)

interpretation ring_sel: shard_selector "shard_by_key_filtered ops" sr_shards for ops
  by unfold_locales (blast dest: filtered_SomeD filtered_NoneD)+

lemma filtered_primary:
  "shard_by_key ops r key = Some s \<Longrightarrow> \<not> excl (sc_id s) \<Longrightarrow>
     shard_by_key_filtered ops r key excl = Some s"
  by (auto simp: shard_by_key_filtered_def shard_by_key_def split: if_splits)

subsection \<open>The ring built from the shards\<close>

lemma hash_ring_lawsD:
  assumes "hash_ring_laws ops"
  shows "vs \<noteq> [] \<Longrightarrow> \<exists>v \<in> set vs. hr_get ops (ring_of ops vs) k = Some v"
    and "hr_get ops (ring_of ops vs) k = Some v \<Longrightarrow> v \<in> set vs"
  using assms [unfolded hash_ring_laws_def, rule_format, of vs k] by (auto split: option.splits)

lemma shard_by_key_total:
  assumes "hash_ring_laws ops" and "ss \<noteq> []"
  shows "\<exists>s \<in> set ss. shard_by_key ops (from_shards ops ss) key = Some s"
proof -
  let ?vs = "concat (map vnodes_of ss)"
  from assms(2) have "?vs \<noteq> []" by (cases ss) auto
  from hash_ring_lawsD(1) [OF assms(1) this, of "Key key"]
  obtain v where v: "v \<in> set ?vs" "hr_get ops (ring_of ops ?vs) (Key key) = Some v" by blast
  then obtain s where "s \<in> set ss" "shard_id v = sc_id s"
    by (auto dest: shard_id_vnodes_of)
  then have "shard_by_id (from_shards ops ss) (shard_id v) \<noteq> None"
    by (auto simp: shard_by_id_None_iff)
  then obtain s' where s': "shard_by_id (from_shards ops ss) (shard_id v) = Some s'" by blast
  with v(2) assms(2) have "shard_by_key ops (from_shards ops ss) key = Some s'"
    by (simp add: shard_by_key_def sr_ring_from_shards)
  with s' show ?thesis by (auto dest: shard_by_id_SomeD)
qed

text \<open>Adding many nodes at the end moves a key only to one of them.\<close>

lemma hash_ring_consistent_many:
  assumes "hash_ring_consistent ops"
  shows "hr_get ops (ring_of ops (vs @ ws)) k = hr_get ops (ring_of ops vs) k
    \<or> (\<exists>w \<in> set ws. hr_get ops (ring_of ops (vs @ ws)) k = Some w)"
proof (induction ws rule: rev_induct)
  case (snoc w ws)
  from assms have "hr_get ops (ring_of ops ((vs @ ws) @ [w])) k = Some w
      \<or> hr_get ops (ring_of ops ((vs @ ws) @ [w])) k = hr_get ops (ring_of ops (vs @ ws)) k"
    unfolding hash_ring_consistent_def by blast
  with snoc.IH show ?case by auto
qed simp

lemma shard_by_id_snoc:
  "shard_by_id (from_shards ops (ss @ [s])) i =
     (case shard_by_id (from_shards ops ss) i of
        Some t \<Rightarrow> Some t | None \<Rightarrow> if sc_id s = i then Some s else None)"
  by (induction ss) (auto simp: shard_by_id_def)

lemma ref_ring_of: "ring_of ref_ring_ops vs = vs"
  unfolding ring_of_def ref_ring_ops_def by (induction vs rule: rev_induct) auto

lemma fold_closer_in: "fold (ref_closer k) vs v \<in> set (v # vs)"
  by (induction vs arbitrary: v) (auto simp: ref_closer_def)

lemma ref_ring_laws: "hash_ring_laws ref_ring_ops"
proof -
  have "case ref_ring_get vs k of None \<Rightarrow> vs = [] | Some v \<Rightarrow> v \<in> set vs" for vs k
    using fold_closer_in by (cases vs) auto
  then show ?thesis by (simp add: hash_ring_laws_def ref_ring_of) (simp add: ref_ring_ops_def)
qed

lemma ref_ring_consistent: "hash_ring_consistent ref_ring_ops"
proof -
  have "ref_ring_get (vs @ [v]) k = Some v \<or> ref_ring_get (vs @ [v]) k = ref_ring_get vs k" for vs v k
    by (cases vs) (auto simp: ref_closer_def)
  then show ?thesis by (simp add: hash_ring_consistent_def ref_ring_of) (simp add: ref_ring_ops_def)
qed

lemma shard_by_key_snoc:
  assumes laws: "hash_ring_laws ops" and cons: "hash_ring_consistent ops"
    and fresh: "sc_id s \<notin> sc_id ` set ss"
  shows "shard_by_key ops (from_shards ops (ss @ [s])) key = Some s
    \<or> shard_by_key ops (from_shards ops (ss @ [s])) key = shard_by_key ops (from_shards ops ss) key"
proof (cases "ss = []")
  case True
  with shard_by_key_total [OF laws, of "[s]" key] show ?thesis by simp
next
  case False
  let ?vs = "concat (map vnodes_of ss)"
  have new: "shard_by_key ops (from_shards ops (ss @ [s])) key =
      (case hr_get ops (ring_of ops (?vs @ vnodes_of s)) (Key key) of
         None \<Rightarrow> None | Some v \<Rightarrow> shard_by_id (from_shards ops (ss @ [s])) (shard_id v))"
    by (simp add: shard_by_key_def sr_ring_from_shards)
  have old: "shard_by_key ops (from_shards ops ss) key =
      (case hr_get ops (ring_of ops ?vs) (Key key) of
         None \<Rightarrow> None | Some v \<Rightarrow> shard_by_id (from_shards ops ss) (shard_id v))"
    using False by (simp add: shard_by_key_def sr_ring_from_shards)
  from hash_ring_consistent_many [OF cons, of ?vs "vnodes_of s" "Key key"] show ?thesis
  proof
    assume same: "hr_get ops (ring_of ops (?vs @ vnodes_of s)) (Key key) = hr_get ops (ring_of ops ?vs) (Key key)"
    from shard_by_key_total [OF laws False, of key]
    have "shard_by_key ops (from_shards ops ss) key \<noteq> None" by auto
    with new old same show ?thesis by (auto simp: shard_by_id_snoc split: option.splits)
  next
    assume "\<exists>w \<in> set (vnodes_of s). hr_get ops (ring_of ops (?vs @ vnodes_of s)) (Key key) = Some w"
    moreover have "shard_by_id (from_shards ops ss) (sc_id s) = None"
      using fresh by (simp add: shard_by_id_None_iff)
    ultimately show ?thesis
      using new by (auto simp: shard_by_id_snoc dest: shard_id_vnodes_of)
  qed
qed

section \<open>Properties\<close>

text \<open>
  C5. The health-filtered lookup is sound and complete for every hash ring: a shard it returns is
  configured and not excluded, and it returns nothing exactly when every configured shard is
  excluded (in particular when there is none). So a request never reaches an excluded shard, and
  never fails while some shard is available.
\<close>

theorem filtered_lookup_sound_complete:
  "(\<forall>s. shard_by_key_filtered ops r key excl = Some s \<longrightarrow>
        s \<in> set (sr_shards r) \<and> \<not> excl (sc_id s))
   \<and> (shard_by_key_filtered ops r key excl = None \<longleftrightarrow> (\<forall>s \<in> set (sr_shards r). excl (sc_id s)))"
  using ring_sel.select_SomeD ring_sel.select_None_iff by blast

theorem filtered_lookup_sound_complete_witness:
  "shard_by_key_filtered ref_ring_ops (from_shards ref_ring_ops [demo_shard 0, demo_shard 1]) ''btc''
     (\<lambda>i. i = 0) = Some (demo_shard 1)"
  using filtered_lookup_sound_complete
    [of ref_ring_ops "from_shards ref_ring_ops [demo_shard 0, demo_shard 1]" "''btc''" "\<lambda>i. i = 0"]
  by (auto simp: demo_shard_def)

text \<open>
  C28. Every key has a home shard, and goes there in every health state in which its home is
  available: with at least one configured shard the unfiltered lookup finds one (each shard has at
  least one virtual node), and the filtered lookup agrees with it for every exclusion set that
  spares it. Failover therefore never moves a key whose home shard is up.
\<close>

theorem home_shard_is_sticky:
  assumes "hash_ring_laws ops" and "ss \<noteq> []"
  shows "\<exists>s \<in> set ss. shard_by_key ops (from_shards ops ss) key = Some s
    \<and> (\<forall>excl. \<not> excl (sc_id s) \<longrightarrow> shard_by_key_filtered ops (from_shards ops ss) key excl = Some s)"
  using shard_by_key_total [OF assms, of key] by (auto dest: filtered_primary)

theorem home_shard_is_sticky_witness:
  "\<exists>s \<in> {demo_shard 0, demo_shard 1}.
     shard_by_key ref_ring_ops (from_shards ref_ring_ops [demo_shard 0, demo_shard 1]) ''btc'' = Some s
   \<and> shard_by_key_filtered ref_ring_ops (from_shards ref_ring_ops [demo_shard 0, demo_shard 1]) ''btc''
       (\<lambda>i. i \<noteq> sc_id s) = Some s"
  using home_shard_is_sticky [OF ref_ring_laws, of "[demo_shard 0, demo_shard 1]" "''btc''"] by auto

text \<open>
  C29. Consistent hashing: appending a shard with a fresh id moves a key either to the new shard or
  nowhere, whatever its weight, so no key moves between two old shards.
\<close>

theorem adding_a_shard_moves_keys_only_to_it:
  assumes "hash_ring_laws ops" and "hash_ring_consistent ops" and "sc_id s \<notin> sc_id ` set ss"
  shows "shard_by_key ops (from_shards ops (ss @ [s])) key
    \<in> {Some s, shard_by_key ops (from_shards ops ss) key}"
  using shard_by_key_snoc [OF assms, of key] by simp

theorem adding_a_shard_moves_keys_only_to_it_witness:
  "shard_by_key ref_ring_ops (from_shards ref_ring_ops ([demo_shard 0, demo_shard 1] @ [demo_shard 2])) ''btc''
     \<in> {Some (demo_shard 2), shard_by_key ref_ring_ops (from_shards ref_ring_ops [demo_shard 0, demo_shard 1]) ''btc''}"
  by (rule adding_a_shard_moves_keys_only_to_it [OF ref_ring_laws ref_ring_consistent])
    (simp add: demo_shard_def)

text \<open>
  The number of virtual nodes of a shard is the product of its weight and its configured node
  count, both taken as at least one, capped at the largest 32-bit value instead of wrapping; the
  ring holds exactly \<open>vnode_count\<close> nodes, and they are pairwise different when the ids are.
\<close>

theorem vnode_placement:
  "unat (effective_vnode_count s) =
     min (max (unat (sc_weight s)) 1 * max (unat (sc_virtual_nodes s)) 1) (2 ^ 32 - 1)
   \<and> sr_ring (from_shards ops ss) = ring_of ops (concat (map vnodes_of ss))
   \<and> length (concat (map vnodes_of ss)) = vnode_count (from_shards ops ss)
   \<and> (distinct (map sc_id ss) \<longrightarrow> distinct (concat (map vnodes_of ss)))"
  by (simp add: unat_effective_vnode_count sr_ring_from_shards vnode_count_from_shards distinct_all_vnodes)

theorem vnode_placement_witness:
  "unat (effective_vnode_count ((demo_shard 0)\<lparr>sc_weight := 0x10000, sc_virtual_nodes := 0x10000\<rparr>))
     = 2 ^ 32 - 1
   \<and> distinct (concat (map vnodes_of [demo_shard 0, demo_shard 1]))"
  using vnode_placement [of "(demo_shard 0)\<lparr>sc_weight := 0x10000, sc_virtual_nodes := 0x10000\<rparr>"
      ref_ring_ops "[demo_shard 0, demo_shard 1]"]
  by (simp add: demo_shard_def)

end
