(* ===== verification/Cluster_Metadata.thy ===== *)
theory Cluster_Metadata
  imports Shard_Ring Table_Registry Routing_Error
begin

text \<open>
  Cluster metadata, \<open>metadata/snapshot.rs\<close> and \<open>metadata/actor.rs\<close>: the immutable snapshot that
  routing reads (ring, registry, health map and the two health settings) and the actor that
  publishes a new snapshot for every health report that changes something.

  The watch channel that carries the snapshot is its current value and whether a receiver is left
  (a send without receivers leaves the value as it was). The Prometheus gauges the actor sets are a
  map from shard id and protocol label to the last value. Messages arrive one at a time, so a run of
  the actor is a fold over the messages received.
\<close>

section \<open>The snapshot\<close>

datatype Protocol = Ilp | Pg

record ShardHealth =
  ilp_ok :: bool
  pg_ok :: bool

definition healthy_all :: ShardHealth where
  "healthy_all = \<lparr> ilp_ok = True, pg_ok = True \<rparr>"

fun is_ok_for :: "ShardHealth \<Rightarrow> Protocol \<Rightarrow> bool" where
  "is_ok_for h Ilp = ilp_ok h"
| "is_ok_for h Pg = pg_ok h"

record 'r ClusterSnapshot =
  cs_ring :: "'r ShardRing"
  cs_table_registry :: TableRegistry
  cs_health :: "u32 \<rightharpoonup> ShardHealth"
  cs_exclude_unhealthy :: bool
  cs_min_healthy_shards :: nat

definition snapshot_new ::
    "'r hash_ring_ops \<Rightarrow> ShardConfig list \<Rightarrow> TableRegistry \<Rightarrow> bool \<Rightarrow> nat \<Rightarrow> 'r ClusterSnapshot" where
  "snapshot_new ops shards registry exclude_unhealthy min_healthy_shards =
     \<lparr> cs_ring = from_shards ops shards,
       cs_table_registry = registry,
       cs_health = map_of (rev (map (\<lambda>s. (sc_id s, healthy_all)) shards)),
       cs_exclude_unhealthy = exclude_unhealthy,
       cs_min_healthy_shards = min_healthy_shards \<rparr>"

definition is_excluded :: "'r ClusterSnapshot \<Rightarrow> Protocol \<Rightarrow> u32 \<Rightarrow> bool" where
  "is_excluded snap p i \<longleftrightarrow>
     cs_exclude_unhealthy snap
   \<and> (case cs_health snap i of Some h \<Rightarrow> \<not> is_ok_for h p | None \<Rightarrow> False)"

definition reported_ok :: "'r ClusterSnapshot \<Rightarrow> Protocol \<Rightarrow> u32 \<Rightarrow> bool" where
  "reported_ok snap p i \<longleftrightarrow> (case cs_health snap i of Some h \<Rightarrow> is_ok_for h p | None \<Rightarrow> False)"

definition healthy_count :: "'r ClusterSnapshot \<Rightarrow> Protocol \<Rightarrow> nat" where
  "healthy_count snap p =
     (if \<not> cs_exclude_unhealthy snap then shard_count (cs_ring snap)
      else length (filter (\<lambda>s. reported_ok snap p (sc_id s)) (sr_shards (cs_ring snap))))"

definition ensure_min_healthy :: "'r ClusterSnapshot \<Rightarrow> Protocol \<Rightarrow> RoutingError + unit" where
  "ensure_min_healthy snap p =
     (if \<not> cs_exclude_unhealthy snap then Inr ()
      else let available = healthy_count snap p
           in if available < cs_min_healthy_shards snap
              then Inl (InsufficientHealthyShards (cs_min_healthy_shards snap) available)
              else Inr ())"

definition shard_for_key ::
    "'r hash_ring_ops \<Rightarrow> 'r ClusterSnapshot \<Rightarrow> string \<Rightarrow> Protocol \<Rightarrow> RoutingError + ShardConfig" where
  "shard_for_key ops snap key p =
     (case ensure_min_healthy snap p of
        Inl e \<Rightarrow> Inl e
      | Inr _ \<Rightarrow>
          (case shard_by_key_filtered ops (cs_ring snap) key (is_excluded snap p) of
             Some s \<Rightarrow> Inr s
           | None \<Rightarrow> Inl (ShardNotFound key)))"

definition snapshot_shard_by_id ::
    "'r ClusterSnapshot \<Rightarrow> u32 \<Rightarrow> Protocol \<Rightarrow> RoutingError + ShardConfig" where
  "snapshot_shard_by_id snap i p =
     (case ensure_min_healthy snap p of
        Inl e \<Rightarrow> Inl e
      | Inr _ \<Rightarrow>
          (case shard_by_id (cs_ring snap) i of
             None \<Rightarrow> Inl (ShardNotFound (nat_to_string (unat i)))
           | Some s \<Rightarrow> if is_excluded snap p i then Inl (ShardUnhealthy i) else Inr s))"

definition healthy_shard_ids :: "'r ClusterSnapshot \<Rightarrow> Protocol \<Rightarrow> u32 list" where
  "healthy_shard_ids snap p =
     (if \<not> cs_exclude_unhealthy snap then map sc_id (sr_shards (cs_ring snap))
      else map sc_id (filter (\<lambda>s. reported_ok snap p (sc_id s)) (sr_shards (cs_ring snap))))"

definition default_healthy_shard :: "'r ClusterSnapshot \<Rightarrow> Protocol \<Rightarrow> RoutingError + ShardConfig" where
  "default_healthy_shard snap p =
     (case ensure_min_healthy snap p of
        Inl e \<Rightarrow> Inl e
      | Inr _ \<Rightarrow>
          (case find (\<lambda>s. \<not> is_excluded snap p (sc_id s)) (sr_shards (cs_ring snap)) of
             Some s \<Rightarrow> Inr s
           | None \<Rightarrow> Inl (InsufficientHealthyShards (max (cs_min_healthy_shards snap) 1) 0)))"

section \<open>The actor\<close>

datatype MetadataMessage = ReportHealth u32 bool bool

record 'r MetadataState =
  ms_snapshot :: "'r ClusterSnapshot"
  ms_has_receiver :: bool
  ms_gauges :: "(u32 \<times> string) \<rightharpoonup> bool"

definition record_shard_health :: "u32 \<Rightarrow> string \<Rightarrow> bool \<Rightarrow> 'r MetadataState \<Rightarrow> 'r MetadataState" where
  "record_shard_health i label ok st = st\<lparr>ms_gauges := (ms_gauges st)((i, label) \<mapsto> ok)\<rparr>"

definition watch_send :: "'r ClusterSnapshot \<Rightarrow> 'r MetadataState \<Rightarrow> 'r MetadataState" where
  "watch_send snap st = (if ms_has_receiver st then st\<lparr>ms_snapshot := snap\<rparr> else st)"

definition apply_health :: "u32 \<Rightarrow> bool \<Rightarrow> bool \<Rightarrow> 'r MetadataState \<Rightarrow> 'r MetadataState" where
  "apply_health i ilp pg st0 =
     (let st = record_shard_health i ''pg'' pg (record_shard_health i ''ilp'' ilp st0);
          current = ms_snapshot st;
          prev = (case cs_health current i of Some h \<Rightarrow> h | None \<Rightarrow> healthy_all)
      in if ilp_ok prev = ilp \<and> pg_ok prev = pg then st
         else watch_send
                (current\<lparr>cs_health := (cs_health current)(i \<mapsto> \<lparr>ilp_ok = ilp, pg_ok = pg\<rparr>)\<rparr>) st)"

fun handle_message :: "MetadataMessage \<Rightarrow> 'r MetadataState \<Rightarrow> 'r MetadataState" where
  "handle_message (ReportHealth i ilp pg) st = apply_health i ilp pg st"

definition actor_run :: "MetadataMessage list \<Rightarrow> 'r MetadataState \<Rightarrow> 'r MetadataState" where
  "actor_run msgs st = fold handle_message msgs st"

definition actor_spawn :: "'r hash_ring_ops \<Rightarrow> Config \<Rightarrow> 'r MetadataState" where
  "actor_spawn ops config =
     \<lparr> ms_snapshot =
         snapshot_new ops (cfg_shards config)
           (registry_from_config (rc_tables (cfg_routing config)) (rc_shard_key (cfg_routing config)))
           (hc_exclude_unhealthy (cfg_health_check config))
           (hc_min_healthy_shards (cfg_health_check config)),
       ms_has_receiver = True,
       ms_gauges = Map.empty \<rparr>"

section \<open>Specification vocabulary\<close>

definition health_view :: "'r MetadataState \<Rightarrow> u32 \<Rightarrow> ShardHealth" where
  "health_view st i = (case cs_health (ms_snapshot st) i of Some h \<Rightarrow> h | None \<Rightarrow> healthy_all)"

definition gauge_view :: "'r MetadataState \<Rightarrow> u32 \<Rightarrow> bool option \<times> bool option" where
  "gauge_view st i = (ms_gauges st (i, ''ilp''), ms_gauges st (i, ''pg''))"

fun report_of :: "MetadataMessage \<Rightarrow> u32 \<times> ShardHealth" where
  "report_of (ReportHealth i ilp pg) = (i, \<lparr>ilp_ok = ilp, pg_ok = pg\<rparr>)"

text \<open>The last report about a shard in a sequence of messages, if there is one.\<close>

definition last_report :: "MetadataMessage list \<Rightarrow> u32 \<Rightarrow> ShardHealth option" where
  "last_report msgs i = map_of (rev (map report_of msgs)) i"

definition snapshot_covers :: "'r ClusterSnapshot \<Rightarrow> bool" where
  "snapshot_covers snap \<longleftrightarrow> sc_id ` set (sr_shards (cs_ring snap)) \<subseteq> dom (cs_health snap)"

definition same_topology :: "'r ClusterSnapshot \<Rightarrow> 'r ClusterSnapshot \<Rightarrow> bool" where
  "same_topology a b \<longleftrightarrow>
     cs_ring a = cs_ring b \<and> cs_table_registry a = cs_table_registry b
   \<and> cs_exclude_unhealthy a = cs_exclude_unhealthy b
   \<and> cs_min_healthy_shards a = cs_min_healthy_shards b"

text \<open>The health a sequence of reports leaves a shard in; an unreported shard counts as healthy.\<close>

definition reported_health :: "MetadataMessage list \<Rightarrow> u32 \<Rightarrow> ShardHealth" where
  "reported_health msgs i = (case last_report msgs i of Some h \<Rightarrow> h | None \<Rightarrow> healthy_all)"

text \<open>A configuration for the witnesses.\<close>

definition demo_config :: "ShardConfig list \<Rightarrow> nat \<Rightarrow> Config" where
  "demo_config shards min_healthy =
     \<lparr> cfg_listen = \<lparr> lc_ilp = \<lparr> sa_ip = V4 0x7F000001, sa_port = 9009 \<rparr>,
                      lc_pg = \<lparr> sa_ip = V4 0x7F000001, sa_port = 8812 \<rparr>, lc_stream = None \<rparr>,
       cfg_shards = shards,
       cfg_routing = \<lparr> rc_shard_key = ''symbol'', rc_federated_enabled = True,
                       rc_max_federated_rows = 1000, rc_scan_allow_order_by = False,
                       rc_pg_pool_size = 2, rc_tables = [] \<rparr>,
       cfg_pg = default_pg_auth,
       cfg_health_check = \<lparr> hc_interval_secs = 5, hc_timeout_secs = 2,
                            hc_exclude_unhealthy = True, hc_min_healthy_shards = min_healthy \<rparr>,
       cfg_metrics = default_metrics,
       cfg_stream = default_stream,
       cfg_ingest = default_ingest \<rparr>"

section \<open>The tracker contract\<close>

text \<open>
  Both things the actor maintains, the published health and the gauges, follow one contract: a
  report overwrites the entry of its shard and nothing else. What follows for a run is proved once:
  every entry shows the last report about its shard.
\<close>

locale health_tracker =
  fixes handle :: "MetadataMessage \<Rightarrow> 's \<Rightarrow> 's"
    and view :: "'s \<Rightarrow> u32 \<Rightarrow> 'v"
    and shown :: "ShardHealth \<Rightarrow> 'v"
    and invar :: "'s \<Rightarrow> bool"
  assumes view_handle:
      "invar st \<Longrightarrow> view (handle m st) = (view st)(fst (report_of m) := shown (snd (report_of m)))"
    and invar_handle: "invar st \<Longrightarrow> invar (handle m st)"
begin

lemma invar_run: "invar st \<Longrightarrow> invar (fold handle msgs st)"
  by (induction msgs arbitrary: st) (auto intro: invar_handle)

lemma view_run:
  "invar st \<Longrightarrow> view (fold handle msgs st) i =
     (case last_report msgs i of Some h \<Rightarrow> shown h | None \<Rightarrow> view st i)"
proof (induction msgs rule: rev_induct)
  case Nil
  then show ?case by (simp add: last_report_def)
next
  case (snoc m msgs)
  then have "invar (fold handle msgs st)" by (simp add: invar_run)
  with snoc show ?case
    by (cases "report_of m") (auto simp: view_handle last_report_def)
qed

end

section \<open>Lemmas\<close>

subsection \<open>The actor's step\<close>

lemma apply_health_topology [simp]:
  "same_topology (ms_snapshot (apply_health i ilp pg st)) (ms_snapshot st)"
  by (simp add: same_topology_def apply_health_def Let_def watch_send_def record_shard_health_def)

lemma apply_health_receiver [simp]: "ms_has_receiver (apply_health i ilp pg st) = ms_has_receiver st"
  by (simp add: apply_health_def Let_def watch_send_def record_shard_health_def)

lemma health_view_apply:
  "ms_has_receiver st \<Longrightarrow>
     health_view (apply_health i ilp pg st) = (health_view st)(i := \<lparr>ilp_ok = ilp, pg_ok = pg\<rparr>)"
  by (rule ext)
    (auto simp: health_view_def apply_health_def Let_def watch_send_def record_shard_health_def
      healthy_all_def split: option.splits)

lemma gauge_view_apply:
  "gauge_view (apply_health i ilp pg st) = (gauge_view st)(i := (Some ilp, Some pg))"
  by (rule ext)
    (auto simp: gauge_view_def apply_health_def Let_def watch_send_def record_shard_health_def)

lemma apply_health_dom:
  "dom (cs_health (ms_snapshot st)) \<subseteq> dom (cs_health (ms_snapshot (apply_health i ilp pg st)))"
  by (auto simp: apply_health_def Let_def watch_send_def record_shard_health_def)

interpretation published: health_tracker handle_message health_view "\<lambda>h. h" ms_has_receiver
proof unfold_locales
  fix st :: "'r MetadataState" and m
  assume "ms_has_receiver st"
  then show "health_view (handle_message m st) =
      (health_view st)(fst (report_of m) := snd (report_of m))"
    by (cases m) (simp add: health_view_apply)
next
  fix st :: "'r MetadataState" and m
  assume "ms_has_receiver st"
  then show "ms_has_receiver (handle_message m st)" by (cases m) simp
qed

interpretation gauges: health_tracker handle_message gauge_view
  "\<lambda>h. (Some (ilp_ok h), Some (pg_ok h))" "\<lambda>_. True"
proof unfold_locales
  fix st :: "'r MetadataState" and m
  show "gauge_view (handle_message m st) =
      (gauge_view st)(fst (report_of m) :=
        (Some (ilp_ok (snd (report_of m))), Some (pg_ok (snd (report_of m)))))"
    by (cases m) (simp add: gauge_view_apply)
qed simp

lemma same_topology_refl [simp]: "same_topology a a"
  by (simp add: same_topology_def)

lemma same_topology_trans: "same_topology a b \<Longrightarrow> same_topology b c \<Longrightarrow> same_topology a c"
  by (simp add: same_topology_def)

lemma actor_run_topology: "same_topology (ms_snapshot (actor_run msgs st)) (ms_snapshot st)"
proof (induction msgs rule: rev_induct)
  case (snoc m msgs)
  then show ?case
    by (cases m) (auto simp: actor_run_def intro: same_topology_trans [OF apply_health_topology])
qed (simp add: actor_run_def)

lemma actor_run_dom:
  "dom (cs_health (ms_snapshot st)) \<subseteq> dom (cs_health (ms_snapshot (actor_run msgs st)))"
proof (induction msgs rule: rev_induct)
  case (snoc m msgs)
  then show ?case
    by (cases m) (simp add: actor_run_def, meson apply_health_dom order_trans)
qed (simp add: actor_run_def)

subsection \<open>Covered snapshots\<close>

lemma spawn_covers: "snapshot_covers (ms_snapshot (actor_spawn ops config))"
  by (auto simp: snapshot_covers_def actor_spawn_def snapshot_new_def dom_map_of_conv_image_fst image_image)

lemma run_covers: "snapshot_covers (ms_snapshot st) \<Longrightarrow> snapshot_covers (ms_snapshot (actor_run msgs st))"
  using actor_run_dom [of st msgs] actor_run_topology [of msgs st]
  by (auto simp: snapshot_covers_def same_topology_def)

lemma covered_reported_ok:
  assumes "snapshot_covers snap" and "s \<in> set (sr_shards (cs_ring snap))" and "cs_exclude_unhealthy snap"
  shows "reported_ok snap p (sc_id s) \<longleftrightarrow> \<not> is_excluded snap p (sc_id s)"
  using assms by (force simp: snapshot_covers_def reported_ok_def is_excluded_def split: option.splits)

lemma not_excluding [simp]: "\<not> cs_exclude_unhealthy snap \<Longrightarrow> \<not> is_excluded snap p i"
  by (simp add: is_excluded_def)

lemma healthy_shard_ids_covered:
  assumes "snapshot_covers snap"
  shows "healthy_shard_ids snap p =
    map sc_id (filter (\<lambda>s. \<not> is_excluded snap p (sc_id s)) (sr_shards (cs_ring snap)))"
proof -
  have "filter (\<lambda>s. reported_ok snap p (sc_id s)) (sr_shards (cs_ring snap)) =
      filter (\<lambda>s. \<not> is_excluded snap p (sc_id s)) (sr_shards (cs_ring snap))"
    if "cs_exclude_unhealthy snap"
    using covered_reported_ok [OF assms _ that] by (intro filter_cong) auto
  then show ?thesis by (simp add: healthy_shard_ids_def)
qed

lemma healthy_count_ids: "healthy_count snap p = length (healthy_shard_ids snap p)"
  by (simp add: healthy_count_def healthy_shard_ids_def shard_count_def)

lemma ensure_min_healthy_Inl_iff:
  "ensure_min_healthy snap p = Inl e \<longleftrightarrow>
     cs_exclude_unhealthy snap \<and> healthy_count snap p < cs_min_healthy_shards snap
   \<and> e = InsufficientHealthyShards (cs_min_healthy_shards snap) (healthy_count snap p)"
  by (auto simp: ensure_min_healthy_def Let_def)

lemma ensure_min_healthy_Inr_iff:
  "ensure_min_healthy snap p = Inr u \<longleftrightarrow>
     (cs_exclude_unhealthy snap \<longrightarrow> cs_min_healthy_shards snap \<le> healthy_count snap p)"
  by (auto simp: ensure_min_healthy_def Let_def)

lemma shard_for_key_InrD:
  "shard_for_key ops snap key p = Inr s \<Longrightarrow>
     s \<in> set (sr_shards (cs_ring snap)) \<and> \<not> is_excluded snap p (sc_id s)
   \<and> (cs_exclude_unhealthy snap \<longrightarrow> cs_min_healthy_shards snap \<le> healthy_count snap p)"
  by (auto simp: shard_for_key_def ensure_min_healthy_Inr_iff
      split: sum.splits option.splits dest: ring_sel.select_SomeD)

lemma shard_for_key_InlD:
  "shard_for_key ops snap key p = Inl e \<Longrightarrow>
     (cs_exclude_unhealthy snap \<and> healthy_count snap p < cs_min_healthy_shards snap
       \<and> e = InsufficientHealthyShards (cs_min_healthy_shards snap) (healthy_count snap p))
   \<or> (e = ShardNotFound key \<and> (\<forall>s \<in> set (sr_shards (cs_ring snap)). is_excluded snap p (sc_id s)))"
  by (auto simp: shard_for_key_def ensure_min_healthy_Inl_iff
      split: sum.splits option.splits dest: ring_sel.select_NoneD)

lemma all_excluded_count:
  assumes "snapshot_covers snap" and "\<forall>s \<in> set (sr_shards (cs_ring snap)). is_excluded snap p (sc_id s)"
  shows "healthy_count snap p = 0"
  using assms by (auto simp: healthy_count_ids healthy_shard_ids_covered filter_empty_conv)

lemma spawn_view [simp]: "health_view (actor_spawn ops config) i = healthy_all"
  by (auto simp: health_view_def actor_spawn_def snapshot_new_def split: option.splits
      dest!: map_of_SomeD)

lemma is_excluded_view:
  "is_excluded (ms_snapshot st) p i \<longleftrightarrow>
     cs_exclude_unhealthy (ms_snapshot st) \<and> \<not> is_ok_for (health_view st i) p"
  by (cases p) (auto simp: is_excluded_def health_view_def healthy_all_def split: option.splits)

lemma spawn_fields [simp]:
  "ms_has_receiver (actor_spawn ops config)"
  "cs_ring (ms_snapshot (actor_spawn ops config)) = from_shards ops (cfg_shards config)"
  "cs_exclude_unhealthy (ms_snapshot (actor_spawn ops config)) =
     hc_exclude_unhealthy (cfg_health_check config)"
  "cs_min_healthy_shards (ms_snapshot (actor_spawn ops config)) =
     hc_min_healthy_shards (cfg_health_check config)"
  "cs_table_registry (ms_snapshot (actor_spawn ops config)) =
     registry_from_config (rc_tables (cfg_routing config)) (rc_shard_key (cfg_routing config))"
  by (simp_all add: actor_spawn_def snapshot_new_def)

lemma run_fields [simp]:
  "cs_ring (ms_snapshot (actor_run msgs st)) = cs_ring (ms_snapshot st)"
  "cs_exclude_unhealthy (ms_snapshot (actor_run msgs st)) = cs_exclude_unhealthy (ms_snapshot st)"
  "cs_min_healthy_shards (ms_snapshot (actor_run msgs st)) = cs_min_healthy_shards (ms_snapshot st)"
  "cs_table_registry (ms_snapshot (actor_run msgs st)) = cs_table_registry (ms_snapshot st)"
  using actor_run_topology [of msgs st] by (simp_all add: same_topology_def)

lemma run_view: "health_view (actor_run msgs (actor_spawn ops config)) i = reported_health msgs i"
  by (simp add: actor_run_def published.view_run reported_health_def split: option.splits)

lemma run_gauges:
  "gauge_view (actor_run msgs (actor_spawn ops config)) i =
     (case last_report msgs i of Some h \<Rightarrow> (Some (ilp_ok h), Some (pg_ok h)) | None \<Rightarrow> (None, None))"
proof -
  have "gauge_view (actor_spawn ops config) i = (None, None)"
    by (simp add: gauge_view_def actor_spawn_def)
  then show ?thesis by (simp add: actor_run_def gauges.view_run split: option.splits)
qed

lemma run_excluded:
  "is_excluded (ms_snapshot (actor_run msgs (actor_spawn ops config))) p i \<longleftrightarrow>
     hc_exclude_unhealthy (cfg_health_check config) \<and> \<not> is_ok_for (reported_health msgs i) p"
  by (simp add: is_excluded_view run_view)

lemma run_healthy_ids:
  "healthy_shard_ids (ms_snapshot (actor_run msgs (actor_spawn ops config))) p =
     map sc_id (filter (\<lambda>s. \<not> hc_exclude_unhealthy (cfg_health_check config)
       \<or> is_ok_for (reported_health msgs (sc_id s)) p) (cfg_shards config))"
  using healthy_shard_ids_covered [OF run_covers [OF spawn_covers], of msgs ops config p]
  by (simp add: run_excluded)

lemma demo_simps [simp]:
  "cfg_shards (demo_config ss n) = ss"
  "hc_exclude_unhealthy (cfg_health_check (demo_config ss n))"
  "hc_min_healthy_shards (cfg_health_check (demo_config ss n)) = n"
  "rc_shard_key (cfg_routing (demo_config ss n)) = ''symbol''"
  "rc_tables (cfg_routing (demo_config ss n)) = []"
  "sc_id (demo_shard i) = i"
  by (simp_all add: demo_config_def demo_shard_def)

lemmas report_simps = reported_health_def last_report_def healthy_all_def

section \<open>Properties\<close>

text \<open>
  What \<open>shard_for_key\<close> returns, branch by branch. A shard it returns is configured, not
  excluded for the protocol, and enough shards are healthy. It fails with the count error exactly
  in the state that error describes, and with \<open>ShardNotFound\<close> only when every shard is excluded.
\<close>

theorem shard_for_key_branches:
  "case shard_for_key ops snap key p of
     Inr s \<Rightarrow> s \<in> set (sr_shards (cs_ring snap)) \<and> \<not> is_excluded snap p (sc_id s)
       \<and> (cs_exclude_unhealthy snap \<longrightarrow> cs_min_healthy_shards snap \<le> healthy_count snap p)
   | Inl e \<Rightarrow>
       (cs_exclude_unhealthy snap \<and> healthy_count snap p < cs_min_healthy_shards snap
         \<and> e = InsufficientHealthyShards (cs_min_healthy_shards snap) (healthy_count snap p))
     \<or> (e = ShardNotFound key \<and> (\<forall>s \<in> set (sr_shards (cs_ring snap)). is_excluded snap p (sc_id s)))"
  by (auto split: sum.splits dest: shard_for_key_InrD shard_for_key_InlD)

theorem shard_for_key_branches_witness:
  "shard_for_key ref_ring_ops
     (ms_snapshot (actor_run [ReportHealth 0 False True]
        (actor_spawn ref_ring_ops (demo_config [demo_shard 0, demo_shard 1] 1)))) ''btc'' Ilp
   = Inr (demo_shard 1)"
  using shard_for_key_branches [where ops = ref_ring_ops
      and snap = "ms_snapshot (actor_run [ReportHealth 0 False True]
        (actor_spawn ref_ring_ops (demo_config [demo_shard 0, demo_shard 1] 1)))"
      and key = "''btc''" and p = Ilp]
  by (auto simp: run_excluded run_healthy_ids healthy_count_ids report_simps split: sum.splits)

text \<open>
  C15. Availability on every reachable snapshot. After any sequence of health reports, with a
  configured shard and a required minimum of at least one, routing a key fails exactly when fewer
  shards than the minimum are healthy, and then with that error; \<open>ShardNotFound\<close> never occurs, and
  with exclusion switched off routing always succeeds.
\<close>

theorem routing_fails_only_below_minimum:
  assumes "cfg_shards config \<noteq> []"
    and "hc_exclude_unhealthy (cfg_health_check config) \<longrightarrow> 1 \<le> hc_min_healthy_shards (cfg_health_check config)"
  shows "shard_for_key ops (ms_snapshot (actor_run msgs (actor_spawn ops config))) key p = Inl e \<longleftrightarrow>
     hc_exclude_unhealthy (cfg_health_check config)
   \<and> healthy_count (ms_snapshot (actor_run msgs (actor_spawn ops config))) p
       < hc_min_healthy_shards (cfg_health_check config)
   \<and> e = InsufficientHealthyShards (hc_min_healthy_shards (cfg_health_check config))
           (healthy_count (ms_snapshot (actor_run msgs (actor_spawn ops config))) p)"
  (is "?fails \<longleftrightarrow> ?below")
proof
  let ?snap = "ms_snapshot (actor_run msgs (actor_spawn ops config))"
  have cov: "snapshot_covers ?snap" by (simp add: run_covers spawn_covers)
  assume ?fails
  then have "?below \<or> (\<forall>s \<in> set (cfg_shards config). is_excluded ?snap p (sc_id s))"
    by (auto dest!: shard_for_key_InlD)
  moreover have False if all: "\<forall>s \<in> set (cfg_shards config). is_excluded ?snap p (sc_id s)" and "\<not> ?below"
  proof -
    from all have "healthy_count ?snap p = 0" by (simp add: all_excluded_count [OF cov])
    moreover from all assms(1) have "hc_exclude_unhealthy (cfg_health_check config)"
      by (cases "cfg_shards config") (auto simp: run_excluded)
    ultimately show False
      using \<open>?fails\<close> \<open>\<not> ?below\<close> assms(2) by (auto simp: shard_for_key_def ensure_min_healthy_def)
  qed
  ultimately show ?below by blast
next
  assume ?below
  then show ?fails by (simp add: shard_for_key_def ensure_min_healthy_def)
qed

theorem routing_fails_only_below_minimum_witness:
  "shard_for_key ref_ring_ops
     (ms_snapshot (actor_run [ReportHealth 0 False False, ReportHealth 1 True False]
        (actor_spawn ref_ring_ops (demo_config [demo_shard 0, demo_shard 1] 1)))) ''btc'' Pg
   = Inl (InsufficientHealthyShards 1 0)"
  using routing_fails_only_below_minimum [of "demo_config [demo_shard 0, demo_shard 1] 1" ref_ring_ops
      "[ReportHealth 0 False False, ReportHealth 1 True False]" "''btc''" Pg]
  by (simp add: run_healthy_ids healthy_count_ids report_simps)

text \<open>
  C16. The actor refines the abstract tracker that remembers the last report about each shard: after
  any sequence of messages the published health of a shard is its last report, or healthy if it was
  never reported, although reports that change nothing publish no snapshot; the gauges show the last
  report as well; and ring, registry and settings are those of the configuration.
\<close>

theorem actor_publishes_last_report:
  "health_view (actor_run msgs (actor_spawn ops config)) i =
     (case last_report msgs i of Some h \<Rightarrow> h | None \<Rightarrow> healthy_all)
   \<and> gauge_view (actor_run msgs (actor_spawn ops config)) i =
     (case last_report msgs i of Some h \<Rightarrow> (Some (ilp_ok h), Some (pg_ok h)) | None \<Rightarrow> (None, None))
   \<and> same_topology (ms_snapshot (actor_run msgs (actor_spawn ops config)))
       (ms_snapshot (actor_spawn ops config))"
  by (simp add: run_view run_gauges reported_health_def actor_run_topology)

text \<open>
  The shards a fan-out query visits: after any sequence of reports \<open>healthy_shard_ids\<close> lists, in
  configuration order, the configured shards whose last report is good for the protocol (all of
  them when exclusion is off), and \<open>healthy_count\<close> is their number. The two tests the code uses, an
  entry that is ok and an entry that is not bad, agree because every configured shard has an entry.
\<close>

theorem fan_out_visits_reported_healthy:
  "healthy_shard_ids (ms_snapshot (actor_run msgs (actor_spawn ops config))) p =
     map sc_id (filter (\<lambda>s. \<not> hc_exclude_unhealthy (cfg_health_check config)
       \<or> is_ok_for (reported_health msgs (sc_id s)) p) (cfg_shards config))
   \<and> healthy_count (ms_snapshot (actor_run msgs (actor_spawn ops config))) p =
     length (healthy_shard_ids (ms_snapshot (actor_run msgs (actor_spawn ops config))) p)"
  by (simp add: healthy_count_ids run_healthy_ids)

theorem fan_out_visits_reported_healthy_witness:
  "healthy_shard_ids (ms_snapshot (actor_run [ReportHealth 1 True False]
     (actor_spawn ref_ring_ops (demo_config [demo_shard 0, demo_shard 1] 1)))) Pg = [0]"
  using fan_out_visits_reported_healthy [of "[ReportHealth 1 True False]" ref_ring_ops
      "demo_config [demo_shard 0, demo_shard 1] 1" Pg]
  by (simp add: report_simps)

end
