(* ===== verification/Query_Router.thy ===== *)
theory Query_Router
  imports Sql_Classify Cluster_Metadata
begin

text \<open>
  Query routing, \<open>routing/router.rs\<close>, and the metadata handle it reads, \<open>metadata/actor.rs\<close> and
  \<open>metadata/provider.rs\<close>. A handle is what its reader sees: the current value of the snapshot
  channel, the default key column and the credentials. The router reads the channel once to
  classify and once more to pick the shard; the first read only supplies the table registry, which
  no health report changes.
\<close>

record 'r MetadataHandle =
  mh_snapshot :: "'r ClusterSnapshot"
  mh_default_shard_key :: string
  mh_pg_auth :: PgAuthConfig

record 'r DefaultQueryRouter =
  qr_metadata :: "'r MetadataHandle"
  qr_scan_allow_order_by :: bool

datatype ResolvedRoute = Single ShardConfig | Federated RoutePlan | PassthroughRoute

definition spawn_handle :: "'r MetadataState \<Rightarrow> Config \<Rightarrow> 'r MetadataHandle" where
  "spawn_handle st config =
     \<lparr> mh_snapshot = ms_snapshot st, mh_default_shard_key = rc_shard_key (cfg_routing config),
       mh_pg_auth = cfg_pg config \<rparr>"

definition router_route_key ::
    "'r hash_ring_ops \<Rightarrow> 'r DefaultQueryRouter \<Rightarrow> string \<Rightarrow> Protocol \<Rightarrow> RoutingError + ShardConfig" where
  "router_route_key ops router key p = shard_for_key ops (mh_snapshot (qr_metadata router)) key p"

definition router_classify ::
    "sqlparser \<Rightarrow> 'r DefaultQueryRouter \<Rightarrow> string \<Rightarrow> SqlRouteError + SqlClassify" where
  "router_classify sp router sql =
     classify_sql sp sql (mh_default_shard_key (qr_metadata router))
       (cs_table_registry (mh_snapshot (qr_metadata router))) (qr_scan_allow_order_by router)"

text \<open>\<open>params.and_then(|p| p.get(idx))\<close>.\<close>

definition bound_param :: "string list option \<Rightarrow> nat \<Rightarrow> string option" where
  "bound_param params idx =
     (case params of None \<Rightarrow> None | Some p \<Rightarrow> if idx < length p then Some (p ! idx) else None)"

definition routing_key :: "string \<Rightarrow> string option \<Rightarrow> nat option \<Rightarrow> string list option \<Rightarrow> string" where
  "routing_key table shard_key shard_key_param params =
     (case shard_key_param of
        Some idx \<Rightarrow> (case bound_param params idx of Some v \<Rightarrow> v | None \<Rightarrow> table)
      | None \<Rightarrow> (case shard_key of Some k \<Rightarrow> k | None \<Rightarrow> table))"

definition resolve_route ::
    "'r hash_ring_ops \<Rightarrow> sqlparser \<Rightarrow> 'r DefaultQueryRouter \<Rightarrow> string \<Rightarrow> string list option
       \<Rightarrow> RoutingError + ResolvedRoute" where
  "resolve_route ops sp router sql params =
     (case router_classify sp router sql of
        Inl e \<Rightarrow> Inl (from_sql_route_error e)
      | Inr Passthrough \<Rightarrow> Inr PassthroughRoute
      | Inr (Routable plan) \<Rightarrow>
          (case plan of
             SingleShard table shard_key shard_key_param \<Rightarrow>
               (case router_route_key ops router (routing_key table shard_key shard_key_param params) Pg of
                  Inl e \<Rightarrow> Inl e
                | Inr shard \<Rightarrow> Inr (Single shard))
           | _ \<Rightarrow> Inr (Federated plan)))"

definition router_plan_sql ::
    "sqlparser \<Rightarrow> 'r DefaultQueryRouter \<Rightarrow> string \<Rightarrow> RoutingError + RoutePlan" where
  "router_plan_sql sp router sql =
     (case router_classify sp router sql of
        Inl e \<Rightarrow> Inl (from_sql_route_error e)
      | Inr (Routable plan) \<Rightarrow> Inr plan
      | Inr Passthrough \<Rightarrow> Inl (Unsupported ''session/transaction SQL is not shard-routable''))"

section \<open>The router contract\<close>

text \<open>
  What the application relies on of a query router (the trait \<open>QueryRouter\<close>): a resolved shard is
  one that \<open>route\<close> hands out, federated plans are exactly the multi-shard plans of \<open>plan\<close>, and
  \<open>route\<close> only hands out shards that are available for the protocol.
\<close>

locale query_router =
  fixes resolve :: "'q \<Rightarrow> string \<Rightarrow> string list option \<Rightarrow> RoutingError + ResolvedRoute"
    and route :: "'q \<Rightarrow> string \<Rightarrow> Protocol \<Rightarrow> RoutingError + ShardConfig"
    and plan :: "'q \<Rightarrow> string \<Rightarrow> RoutingError + RoutePlan"
    and available :: "'q \<Rightarrow> Protocol \<Rightarrow> ShardConfig \<Rightarrow> bool"
  assumes route_available: "route q key p = Inr shard \<Longrightarrow> available q p shard"
    and resolve_single:
      "resolve q sql params = Inr (Single shard) \<Longrightarrow>
         \<exists>t k i key. plan q sql = Inr (SingleShard t k i) \<and> route q key Pg = Inr shard"
    and resolve_federated:
      "resolve q sql params = Inr (Federated pl) \<longleftrightarrow> plan q sql = Inr pl \<and> is_federated pl"
begin

lemma single_available: "resolve q sql params = Inr (Single shard) \<Longrightarrow> available q Pg shard"
  using resolve_single route_available by blast

lemma single_not_federated:
  assumes "resolve q sql params = Inr (Single shard)"
  shows "resolve q sql params' \<noteq> Inr (Federated pl)"
  using resolve_single [OF assms] resolve_federated [of q sql params' pl] by auto

lemma federated_param_independent:
  "resolve q sql params = Inr (Federated pl) \<Longrightarrow> resolve q sql params' = Inr (Federated pl)"
  by (simp add: resolve_federated)

end

section \<open>Lemmas\<close>

definition available_for :: "'r DefaultQueryRouter \<Rightarrow> Protocol \<Rightarrow> ShardConfig \<Rightarrow> bool" where
  "available_for router p shard \<longleftrightarrow>
     shard \<in> set (sr_shards (cs_ring (mh_snapshot (qr_metadata router))))
   \<and> \<not> is_excluded (mh_snapshot (qr_metadata router)) p (sc_id shard)"

lemma resolve_route_classified:
  "resolve_route ops sp router sql params =
     (case router_classify sp router sql of
        Inl e \<Rightarrow> Inl (from_sql_route_error e)
      | Inr Passthrough \<Rightarrow> Inr PassthroughRoute
      | Inr (Routable plan) \<Rightarrow>
          if is_federated plan then Inr (Federated plan)
          else (case router_route_key ops router (routing_key (plan_table plan) (plan_shard_key plan)
                       (plan_shard_key_param plan) params) Pg of
                  Inl e \<Rightarrow> Inl e | Inr shard \<Rightarrow> Inr (Single shard)))"
  by (auto simp: resolve_route_def split: sum.splits SqlClassify.splits RoutePlan.splits)

interpretation dqr: query_router "resolve_route ops sp" "router_route_key ops" "router_plan_sql sp" available_for
  for ops sp
proof unfold_locales
  show "available_for q p shard" if "router_route_key ops q key p = Inr shard" for q key p shard
    using that by (auto simp: router_route_key_def available_for_def dest: shard_for_key_InrD)
  show "\<exists>t k i key. router_plan_sql sp q sql = Inr (SingleShard t k i) \<and> router_route_key ops q key Pg = Inr shard"
    if "resolve_route ops sp q sql params = Inr (Single shard)" for q sql params shard
    using that
    by (auto simp: resolve_route_def router_plan_sql_def
        split: sum.splits SqlClassify.splits RoutePlan.splits)
  show "resolve_route ops sp q sql params = Inr (Federated pl) \<longleftrightarrow>
      router_plan_sql sp q sql = Inr pl \<and> is_federated pl" for q sql params pl
    by (auto simp: resolve_route_def router_plan_sql_def
        split: sum.splits SqlClassify.splits RoutePlan.splits)
qed

section \<open>Properties\<close>

text \<open>
  What resolving a query can answer: a single shard is configured and not excluded for the PG
  protocol and comes from a single-shard plan, whatever the parameters; a federated answer carries a
  multi-shard plan and does not depend on the parameters; no text is resolved both ways.
\<close>

theorem resolved_routes_are_available:
  "case resolve_route ops sp router sql params of
     Inr (Single shard) \<Rightarrow>
       shard \<in> set (sr_shards (cs_ring (mh_snapshot (qr_metadata router))))
     \<and> \<not> is_excluded (mh_snapshot (qr_metadata router)) Pg (sc_id shard)
     \<and> (\<forall>params' pl. resolve_route ops sp router sql params' \<noteq> Inr (Federated pl))
   | Inr (Federated pl) \<Rightarrow> is_federated pl \<and> resolve_route ops sp router sql params' = Inr (Federated pl)
   | Inr PassthroughRoute \<Rightarrow> router_classify sp router sql = Inr Passthrough
   | Inl e \<Rightarrow> (\<exists>e'. router_classify sp router sql = Inl e' \<and> e = from_sql_route_error e')
       \<or> (\<exists>key. router_route_key ops router key Pg = Inl e)"
proof (cases "resolve_route ops sp router sql params")
  case (Inl e)
  then show ?thesis by (auto simp: resolve_route_classified split: sum.splits SqlClassify.splits if_splits)
next
  case (Inr r)
  then show ?thesis
  proof (cases r)
    case (Single shard)
    with Inr show ?thesis
      using dqr.single_available [of ops sp router sql params shard]
        dqr.single_not_federated [of ops sp router sql params shard] by (simp add: available_for_def)
  next
    case (Federated pl)
    with Inr show ?thesis
      using dqr.federated_param_independent [of ops sp router sql params pl params']
        dqr.resolve_federated [of ops sp router sql params pl] by simp
  next
    case PassthroughRoute
    with Inr show ?thesis
      by (auto simp: resolve_route_classified split: sum.splits SqlClassify.splits if_splits)
  qed
qed

end
