(* ===== verification/Pg_Pool.thy ===== *)
theory Pg_Pool
  imports Router_Config
begin

text \<open>
  The pool of backend connections, \<open>pool/pg.rs\<close> and \<open>pool/error.rs\<close>. A connection is a value of the
  type variable \<open>'k\<close>; opening one (\<open>dial\<close>) and parsing a connection string (\<open>parse_conn\<close>) are
  third-party and parameters. The semaphore of a shard is its number of free permits.

  \<open>acquire\<close> suspends between taking a permit, looking into the idle list and connecting, and dropping
  a client first returns the connection and then the permit, so tasks interleave at these points. The
  operations are functions on the pool; a task between two of them is a \<open>Handle\<close>, and the step
  relation interleaves the operations of any number of tasks.
\<close>

datatype PoolError = UnknownShard u32 | ConnectFailed u32 string | ClientTaken u32

record 'k ShardPgPool =
  pp_shards :: "u32 \<rightharpoonup> ShardConfig"
  pp_auth :: PgAuthConfig
  pp_max_per_shard :: nat
  pp_clients :: "u32 \<rightharpoonup> 'k list"
  pp_permits :: "u32 \<rightharpoonup> nat"

record 'k PooledClient =
  pc_shard_id :: u32
  pc_client :: "'k option"
  pc_return_to_pool :: bool

section \<open>Operations\<close>

definition backend_pg_config :: "(string \<Rightarrow> string + 'g) \<Rightarrow> ShardConfig \<Rightarrow> PgAuthConfig \<Rightarrow> string + 'g" where
  "backend_pg_config parse_conn shard auth =
     (case host_port (sc_pg_address shard) of
        Inl e \<Rightarrow> Inl e
      | Inr (host, port) \<Rightarrow>
          (case parse_conn (''host='' @ host @ '' port='' @ nat_to_string (unat port) @ '' user='' @ pa_user auth
                  @ '' password='' @ pa_password auth @ '' dbname='' @ pa_database auth @ '' sslmode=disable'') of
             Inl e \<Rightarrow> Inl (''invalid pg config: '' @ e)
           | Inr config \<Rightarrow> Inr config))"

definition pool_new :: "ShardConfig list \<Rightarrow> PgAuthConfig \<Rightarrow> nat \<Rightarrow> 'k ShardPgPool" where
  "pool_new shards auth max_per_shard =
     \<lparr> pp_shards = map_of (rev (map (\<lambda>s. (sc_id s, s)) shards)),
       pp_auth = auth,
       pp_max_per_shard = max max_per_shard 1,
       pp_clients = Map.empty,
       pp_permits = map_of (rev (map (\<lambda>s. (sc_id s, max max_per_shard 1)) shards)) \<rparr>"

definition pool_shard_ids :: "'k ShardPgPool \<Rightarrow> u32 list" where
  "pool_shard_ids pool = sorted_list_of_set (dom (pp_shards pool))"

text \<open>
  The stages of \<open>acquire\<close>: the semaphore (an error for an unknown shard, \<open>None\<close> while there is no free
  permit), the idle list, and connecting.
\<close>

definition acquire_permit :: "'k ShardPgPool \<Rightarrow> u32 \<Rightarrow> PoolError + 'k ShardPgPool option" where
  "acquire_permit pool i =
     (case pp_permits pool i of
        None \<Rightarrow> Inl (UnknownShard i)
      | Some 0 \<Rightarrow> Inr None
      | Some (Suc n) \<Rightarrow> Inr (Some (pool\<lparr>pp_permits := (pp_permits pool)(i \<mapsto> n)\<rparr>)))"

definition pop_idle :: "'k ShardPgPool \<Rightarrow> u32 \<Rightarrow> 'k option \<times> 'k ShardPgPool" where
  "pop_idle pool i =
     (case pp_clients pool i of
        None \<Rightarrow> (None, pool)
      | Some vec \<Rightarrow>
          if vec = [] then (None, pool)
          else (Some (last vec), pool\<lparr>pp_clients := (pp_clients pool)(i \<mapsto> butlast vec)\<rparr>))"

definition connect :: "(string \<Rightarrow> string + 'g) \<Rightarrow> ('g \<Rightarrow> string + 'k) \<Rightarrow> 'k ShardPgPool \<Rightarrow> u32 \<Rightarrow> PoolError + 'k" where
  "connect parse_conn dial pool i =
     (case pp_shards pool i of
        None \<Rightarrow> Inl (UnknownShard i)
      | Some shard \<Rightarrow>
          (case backend_pg_config parse_conn shard (pp_auth pool) of
             Inl e \<Rightarrow> Inl (ConnectFailed i e)
           | Inr config \<Rightarrow>
               (case dial config of Inl e \<Rightarrow> Inl (ConnectFailed i e) | Inr client \<Rightarrow> Inr client)))"

definition pooled :: "u32 \<Rightarrow> 'k \<Rightarrow> 'k PooledClient" where
  "pooled i client = \<lparr> pc_shard_id = i, pc_client = Some client, pc_return_to_pool = True \<rparr>"

definition release_permit :: "'k ShardPgPool \<Rightarrow> u32 \<Rightarrow> 'k ShardPgPool" where
  "release_permit pool i = pool\<lparr>pp_permits := (pp_permits pool)(i := map_option Suc (pp_permits pool i))\<rparr>"

text \<open>\<open>acquire\<close> run without another task in between; a failed connect drops the permit.\<close>

definition acquire ::
    "(string \<Rightarrow> string + 'g) \<Rightarrow> ('g \<Rightarrow> string + 'k) \<Rightarrow> 'k ShardPgPool \<Rightarrow> u32
       \<Rightarrow> (PoolError + 'k PooledClient option) \<times> 'k ShardPgPool" where
  "acquire parse_conn dial pool i =
     (case acquire_permit pool i of
        Inl e \<Rightarrow> (Inl e, pool)
      | Inr None \<Rightarrow> (Inr None, pool)
      | Inr (Some pool1) \<Rightarrow>
          (case pop_idle pool1 i of
             (Some client, pool2) \<Rightarrow> (Inr (Some (pooled i client)), pool2)
           | (None, pool2) \<Rightarrow>
               (case connect parse_conn dial pool2 i of
                  Inr client \<Rightarrow> (Inr (Some (pooled i client)), pool2)
                | Inl e \<Rightarrow> (Inl e, release_permit pool2 i))))"

definition release :: "'k ShardPgPool \<Rightarrow> u32 \<Rightarrow> 'k \<Rightarrow> 'k ShardPgPool" where
  "release pool i client =
     (let vec = (case pp_clients pool i of Some v \<Rightarrow> v | None \<Rightarrow> [])
      in pool\<lparr>pp_clients := (pp_clients pool)(i \<mapsto>
           (if length vec < pp_max_per_shard pool then vec @ [client] else vec))\<rparr>)"

definition client_mut :: "'k PooledClient \<Rightarrow> PoolError + 'k" where
  "client_mut pc = (case pc_client pc of Some client \<Rightarrow> Inr client | None \<Rightarrow> Inl (ClientTaken (pc_shard_id pc)))"

definition invalidate :: "'k PooledClient \<Rightarrow> 'k PooledClient" where
  "invalidate pc = pc\<lparr>pc_return_to_pool := False, pc_client := None\<rparr>"

definition drop_client :: "'k ShardPgPool \<Rightarrow> 'k PooledClient \<Rightarrow> 'k ShardPgPool" where
  "drop_client pool pc =
     (if \<not> pc_return_to_pool pc then pool
      else case pc_client pc of Some client \<Rightarrow> release pool (pc_shard_id pc) client | None \<Rightarrow> pool)"

section \<open>Interleaved tasks\<close>

datatype 'k Handle = Permitted u32 | Connecting u32 | Out "'k PooledClient" | Dropped u32

fun handle_shard :: "'k Handle \<Rightarrow> u32" where
  "handle_shard (Permitted i) = i"
| "handle_shard (Connecting i) = i"
| "handle_shard (Out pc) = pc_shard_id pc"
| "handle_shard (Dropped i) = i"

fun holds_connection :: "'k Handle \<Rightarrow> bool" where
  "holds_connection (Connecting i) = True"
| "holds_connection (Out pc) = (pc_client pc \<noteq> None)"
| "holds_connection _ = False"

type_synonym 'k pool_system = "'k ShardPgPool \<times> 'k Handle list"

text \<open>
  Every attempt to open a connection has its own outcome, so \<open>dial\<close> is free in the rules for it.
\<close>

inductive pool_step :: "(string \<Rightarrow> string + 'g) \<Rightarrow> 'k pool_system \<Rightarrow> 'k pool_system \<Rightarrow> bool"
  for parse_conn where
  permit: "acquire_permit pool i = Inr (Some pool') \<Longrightarrow>
     pool_step parse_conn (pool, hs) (pool', Permitted i # hs)"
| pop_some: "pop_idle pool i = (Some client, pool') \<Longrightarrow>
     pool_step parse_conn (pool, xs @ Permitted i # ys) (pool', xs @ Out (pooled i client) # ys)"
| pop_none: "pop_idle pool i = (None, pool') \<Longrightarrow>
     pool_step parse_conn (pool, xs @ Permitted i # ys) (pool', xs @ Connecting i # ys)"
| connected: "connect parse_conn dial pool i = Inr client \<Longrightarrow>
     pool_step parse_conn (pool, xs @ Connecting i # ys) (pool, xs @ Out (pooled i client) # ys)"
| connect_failed: "connect parse_conn dial pool i = Inl e \<Longrightarrow>
     pool_step parse_conn (pool, xs @ Connecting i # ys) (release_permit pool i, xs @ ys)"
| invalidated: "pool_step parse_conn (pool, xs @ Out pc # ys) (pool, xs @ Out (invalidate pc) # ys)"
| dropped: "pool_step parse_conn (pool, xs @ Out pc # ys)
     (drop_client pool pc, xs @ Dropped (pc_shard_id pc) # ys)"
| permit_back: "pool_step parse_conn (pool, xs @ Dropped i # ys) (release_permit pool i, xs @ ys)"

inductive pool_reachable ::
    "(string \<Rightarrow> string + 'g) \<Rightarrow> ShardConfig list \<Rightarrow> PgAuthConfig \<Rightarrow> nat \<Rightarrow> 'k pool_system \<Rightarrow> bool"
  for parse_conn shards auth n where
  start: "pool_reachable parse_conn shards auth n (pool_new shards auth n, [])"
| step: "pool_reachable parse_conn shards auth n s \<Longrightarrow> pool_step parse_conn s s' \<Longrightarrow>
     pool_reachable parse_conn shards auth n s'"

definition idle_of :: "'k ShardPgPool \<Rightarrow> u32 \<Rightarrow> 'k list" where
  "idle_of pool i = (case pp_clients pool i of Some v \<Rightarrow> v | None \<Rightarrow> [])"

definition holders :: "u32 \<Rightarrow> 'k Handle list \<Rightarrow> nat" where
  "holders i hs = length (filter (\<lambda>h. handle_shard h = i) hs)"

definition connections :: "u32 \<Rightarrow> 'k Handle list \<Rightarrow> nat" where
  "connections i hs = length (filter (\<lambda>h. handle_shard h = i \<and> holds_connection h) hs)"

text \<open>
  The invariant: permits are conserved, tasks only hold permits of known shards, and the idle, opening
  and borrowed connections of a shard never exceed the pool size.
\<close>

definition shard_ok :: "'k ShardPgPool \<Rightarrow> 'k Handle list \<Rightarrow> u32 \<Rightarrow> bool" where
  "shard_ok pool hs i \<longleftrightarrow>
     (case pp_permits pool i of
        Some free \<Rightarrow> free + holders i hs = pp_max_per_shard pool
      | None \<Rightarrow> holders i hs = 0)
   \<and> length (idle_of pool i) + connections i hs \<le> pp_max_per_shard pool"

definition pool_inv :: "'k pool_system \<Rightarrow> bool" where
  "pool_inv s \<longleftrightarrow> (\<forall>i. shard_ok (fst s) (snd s) i)"

section \<open>Lemmas\<close>

lemma holders_simps [simp]:
  "holders i [] = 0"
  "holders i (h # hs) = (if handle_shard h = i then Suc (holders i hs) else holders i hs)"
  "holders i (xs @ ys) = holders i xs + holders i ys"
  by (simp_all add: holders_def)

lemma connections_simps [simp]:
  "connections i [] = 0"
  "connections i (h # hs) =
     (if handle_shard h = i \<and> holds_connection h then Suc (connections i hs) else connections i hs)"
  "connections i (xs @ ys) = connections i xs + connections i ys"
  by (simp_all add: connections_def)

lemma connections_le_holders: "connections i hs \<le> holders i hs"
  by (induction hs) auto

lemma pooled_simps [simp]:
  "pc_shard_id (pooled i k) = i" "pc_client (pooled i k) = Some k" "pc_return_to_pool (pooled i k)"
  "pc_shard_id (invalidate pc) = pc_shard_id pc" "pc_client (invalidate pc) = None"
  "\<not> pc_return_to_pool (invalidate pc)"
  by (simp_all add: pooled_def invalidate_def)

lemma acquire_permit_SomeD:
  "acquire_permit pool i = Inr (Some pool') \<Longrightarrow>
     \<exists>n. pp_permits pool i = Some (Suc n) \<and> pool' = pool\<lparr>pp_permits := (pp_permits pool)(i \<mapsto> n)\<rparr>"
  by (auto simp: acquire_permit_def split: option.splits nat.splits)

lemma pop_idle_SomeD:
  "pop_idle pool i = (Some k, pool') \<Longrightarrow>
     pp_permits pool' = pp_permits pool \<and> pp_max_per_shard pool' = pp_max_per_shard pool
   \<and> (\<forall>j. length (idle_of pool' j) + (if j = i then 1 else 0) = length (idle_of pool j))"
  by (auto simp: pop_idle_def idle_of_def split: option.splits if_splits)

lemma pop_idle_NoneD: "pop_idle pool i = (None, pool') \<Longrightarrow> pool' = pool \<and> idle_of pool i = []"
  by (auto simp: pop_idle_def idle_of_def split: option.splits if_splits)

lemma release_permit_simps [simp]:
  "idle_of (release_permit pool i) j = idle_of pool j"
  "pp_max_per_shard (release_permit pool i) = pp_max_per_shard pool"
  "pp_permits (release_permit pool i) j =
     (if j = i then map_option Suc (pp_permits pool i) else pp_permits pool j)"
  by (simp_all add: release_permit_def idle_of_def)

lemma drop_client_simps [simp]:
  "pp_permits (drop_client pool pc) = pp_permits pool"
  "pp_max_per_shard (drop_client pool pc) = pp_max_per_shard pool"
  by (simp_all add: drop_client_def release_def Let_def split: option.splits)

lemma drop_client_idle:
  "length (idle_of (drop_client pool pc) j) \<le>
     length (idle_of pool j) + (if j = pc_shard_id pc \<and> pc_client pc \<noteq> None then 1 else 0)"
  by (auto simp: drop_client_def release_def Let_def idle_of_def split: option.splits)

lemma shard_ok_holder:
  "shard_ok pool hs (handle_shard h) \<Longrightarrow> h \<in> set hs \<Longrightarrow>
     \<exists>free. pp_permits pool (handle_shard h) = Some free"
  by (cases "pp_permits pool (handle_shard h)") (auto simp: shard_ok_def holders_def filter_empty_conv)

lemma pool_new_inv: "pool_inv (pool_new shards auth n, [])"
  by (auto simp: pool_inv_def shard_ok_def pool_new_def idle_of_def split: option.splits dest!: map_of_SomeD)

lemma permit_ok:
  assumes "acquire_permit pool i = Inr (Some pool')" and "shard_ok pool hs j"
  shows "shard_ok pool' (Permitted i # hs) j"
  using acquire_permit_SomeD [OF assms(1)] assms(2)
  by (auto simp: shard_ok_def idle_of_def split: option.splits)

lemma pop_some_ok:
  assumes "pop_idle pool i = (Some k, pool')" and "shard_ok pool (xs @ Permitted i # ys) j"
  shows "shard_ok pool' (xs @ Out (pooled i k) # ys) j"
proof -
  from pop_idle_SomeD [OF assms(1)] have "pp_permits pool' = pp_permits pool"
    "pp_max_per_shard pool' = pp_max_per_shard pool"
    "length (idle_of pool' j) + (if j = i then 1 else 0) = length (idle_of pool j)" by blast+
  with assms(2) show ?thesis by (cases "j = i") (auto simp: shard_ok_def split: option.splits)
qed

lemma pop_none_ok:
  assumes "pop_idle pool i = (None, pool')" and "shard_ok pool (xs @ Permitted i # ys) j"
  shows "shard_ok pool' (xs @ Connecting i # ys) j"
proof (cases "j = i")
  case True
  from pop_idle_NoneD [OF assms(1)] have "pool' = pool" "idle_of pool i = []" by auto
  with True assms(2) connections_le_holders [of i xs] connections_le_holders [of i ys] show ?thesis
    by (auto simp: shard_ok_def split: option.splits)
next
  case False
  with pop_idle_NoneD [OF assms(1)] assms(2) show ?thesis by (auto simp: shard_ok_def split: option.splits)
qed

lemma leave_ok:
  assumes "shard_ok pool (xs @ h # ys) j" and "handle_shard h = i"
  shows "shard_ok (release_permit pool i) (xs @ ys) j"
proof (cases "j = i")
  case True
  with assms shard_ok_holder [of pool "xs @ h # ys" h] show ?thesis
    by (auto simp: shard_ok_def split: if_splits)
next
  case False
  with assms show ?thesis by (auto simp: shard_ok_def split: option.splits)
qed

lemma replace_ok:
  assumes "shard_ok pool (xs @ h # ys) j" and "handle_shard h' = handle_shard h"
    and "holds_connection h' \<longrightarrow> holds_connection h"
  shows "shard_ok pool (xs @ h' # ys) j"
  using assms by (auto simp: shard_ok_def split: option.splits if_splits)

lemma dropped_ok:
  assumes "shard_ok pool (xs @ Out pc # ys) j"
  shows "shard_ok (drop_client pool pc) (xs @ Dropped (pc_shard_id pc) # ys) j"
  using assms drop_client_idle [of pool pc j] by (auto simp: shard_ok_def split: option.splits if_splits)

lemma pool_step_inv: "pool_step parse_conn s s' \<Longrightarrow> pool_inv s \<Longrightarrow> pool_inv s'"
proof (induction rule: pool_step.induct)
  case (connected dial pool i client xs ys)
  then show ?case by (simp add: pool_inv_def replace_ok [where h = "Connecting i"])
next
  case (invalidated pool xs pc ys)
  then show ?case by (simp add: pool_inv_def replace_ok [where h = "Out pc"])
qed (auto simp: pool_inv_def intro: permit_ok pop_some_ok pop_none_ok leave_ok dropped_ok)

lemma pool_reachable_inv: "pool_reachable parse_conn shards auth n s \<Longrightarrow> pool_inv s"
  by (induction rule: pool_reachable.induct) (auto intro: pool_new_inv pool_step_inv)

lemma pool_step_config:
  "pool_step parse_conn s s' \<Longrightarrow>
     pp_max_per_shard (fst s') = pp_max_per_shard (fst s) \<and> dom (pp_permits (fst s')) = dom (pp_permits (fst s))
   \<and> pp_shards (fst s') = pp_shards (fst s)"
proof (induction rule: pool_step.induct)
  case (dropped pool xs pc ys)
  then show ?case by (simp add: drop_client_def release_def Let_def split: option.splits)
qed (auto simp: pop_idle_def release_permit_def dest!: acquire_permit_SomeD split: option.splits if_splits)

lemma pool_reachable_config:
  "pool_reachable parse_conn shards auth n s \<Longrightarrow>
     pp_max_per_shard (fst s) = max n 1 \<and> dom (pp_permits (fst s)) = sc_id ` set shards
   \<and> dom (pp_shards (fst s)) = sc_id ` set shards"
proof (induction rule: pool_reachable.induct)
  case start
  show ?case by (simp add: pool_new_def dom_map_of_conv_image_fst image_image)
next
  case (step s s')
  with pool_step_config [OF step(2)] show ?case by (simp only:)
qed

definition demo_pool_shard :: ShardConfig where
  "demo_pool_shard = \<lparr> sc_id = 4, sc_ilp_address = Endpoint ''a:1'', sc_pg_address = Endpoint ''a:2'',
     sc_weight = 1, sc_virtual_nodes = 1 \<rparr>"

definition demo_dial :: "unit \<Rightarrow> string + nat" where
  "demo_dial c = Inr 7"

definition demo_pool :: "nat ShardPgPool" where
  "demo_pool = pool_new [demo_pool_shard] default_pg_auth 0"

definition demo_busy_pool :: "nat ShardPgPool" where
  "demo_busy_pool = demo_pool\<lparr>pp_permits := [4 \<mapsto> 0]\<rparr>"

abbreviation demo_reachable :: "nat pool_system \<Rightarrow> bool" where
  "demo_reachable \<equiv> pool_reachable (\<lambda>_. Inr ()) [demo_pool_shard] default_pg_auth 0"

lemma demo_permit: "acquire_permit demo_pool 4 = Inr (Some demo_busy_pool)"
  by (simp add: acquire_permit_def demo_pool_def demo_busy_pool_def pool_new_def demo_pool_shard_def)

lemma demo_connect: "connect (\<lambda>_. Inr ()) demo_dial demo_busy_pool 4 = Inr 7"
proof -
  have "nat_to_string 2 = ''2''" by code_simp
  then have "host_port (Endpoint ''a:2'') = Inr (''a'', 2)"
    using host_port_render [of "''a''" 2] by simp
  then show ?thesis
    by (simp add: connect_def demo_busy_pool_def demo_pool_def pool_new_def demo_pool_shard_def
        backend_pg_config_def demo_dial_def)
qed

lemma demo_permitted: "demo_reachable (demo_busy_pool, [Permitted 4])"
  using pool_reachable.start [of "\<lambda>_. Inr ()" "[demo_pool_shard]" default_pg_auth 0]
    pool_step.permit [OF demo_permit, of "\<lambda>_. Inr ()" "[]"]
  by (auto simp: demo_pool_def intro: pool_reachable.step)

lemma demo_out: "demo_reachable (demo_busy_pool, [Out (pooled 4 7)])"
proof -
  have "pop_idle demo_busy_pool 4 = (None, demo_busy_pool)"
    by (simp add: pop_idle_def demo_busy_pool_def demo_pool_def pool_new_def)
  from pool_step.pop_none [OF this, of "\<lambda>_. Inr ()" "[]" "[]"]
  have "demo_reachable (demo_busy_pool, [Connecting 4])"
    using pool_reachable.step [OF demo_permitted] by simp
  with pool_step.connected [OF demo_connect, of "[]" "[]"] show ?thesis
    using pool_reachable.step by fastforce
qed

section \<open>Properties\<close>

text \<open>
  In every state any interleaving of the tasks can reach, the connections of a shard - idle,
  being opened and borrowed together - never exceed the configured pool size (at least one), and the
  permits are conserved: free ones plus those held by tasks are exactly that size, so none is lost by
  a failed connect, an invalidated client or a drop, and once no task is left all are free.
\<close>

theorem pool_never_overflows:
  assumes "pool_reachable parse_conn shards auth n (pool, hs)"
  shows "length (idle_of pool i) + connections i hs \<le> max n 1
    \<and> (i \<in> sc_id ` set shards \<longrightarrow> pp_permits pool i = Some (max n 1 - holders i hs) \<and> holders i hs \<le> max n 1)"
proof -
  have ok: "shard_ok pool hs i" using pool_reachable_inv [OF assms] by (simp add: pool_inv_def)
  have conf: "pp_max_per_shard pool = max n 1" "dom (pp_permits pool) = sc_id ` set shards"
    using pool_reachable_config [OF assms] by simp_all
  have "pp_permits pool i \<noteq> None" if "i \<in> sc_id ` set shards" using that conf(2) by blast
  with ok conf(1) show ?thesis by (auto simp: shard_ok_def)
qed

theorem pool_never_overflows_witness:
  "demo_reachable (demo_busy_pool, [Permitted 4]) \<and> pp_permits demo_busy_pool 4 = Some 0"
  using pool_never_overflows [OF demo_permitted, of 4] demo_permitted by (simp add: demo_pool_shard_def)

text \<open>
  A connection handed back is never thrown away: in every reachable state, dropping a client that
  still has its connection appends exactly that connection to the idle list. The size check in
  \<open>release\<close> never fires.
\<close>

theorem returned_connection_is_kept:
  assumes "pool_reachable parse_conn shards auth n (pool, xs @ Out pc # ys)"
    and "pc_return_to_pool pc" and "pc_client pc = Some k"
  shows "idle_of (drop_client pool pc) (pc_shard_id pc) = idle_of pool (pc_shard_id pc) @ [k]"
proof -
  have "shard_ok pool (xs @ Out pc # ys) (pc_shard_id pc)"
    using pool_reachable_inv [OF assms(1)] by (simp add: pool_inv_def)
  with assms(3) have "length (idle_of pool (pc_shard_id pc)) < pp_max_per_shard pool"
    by (auto simp: shard_ok_def)
  with assms(2,3) show ?thesis
    by (auto simp: drop_client_def release_def Let_def idle_of_def split: option.splits)
qed

theorem returned_connection_is_kept_witness:
  "idle_of (drop_client demo_busy_pool (pooled 4 7)) 4 = [7]"
proof -
  have "demo_reachable (demo_busy_pool, [] @ Out (pooled 4 7) # [])" using demo_out by simp
  from returned_connection_is_kept [OF this] have
    "idle_of (drop_client demo_busy_pool (pooled 4 7)) 4 = idle_of demo_busy_pool 4 @ [7]" by simp
  then show ?thesis by (simp add: idle_of_def demo_busy_pool_def demo_pool_def pool_new_def)
qed

text \<open>
  The branches of \<open>acquire\<close>. Success yields a client of the requested shard with a connection, the
  most recently returned idle one if there is any; without a free permit the pool is left as it is
  and the task waits; an error is an unknown shard or a failed connect, and leaves permits and idle
  connections as they were.
\<close>

theorem acquire_branches:
  "case acquire parse_conn dial pool i of
     (Inr (Some pc), pool') \<Rightarrow>
       pc_shard_id pc = i \<and> pp_permits pool' = (pp_permits pool)(i := map_option (\<lambda>n. n - 1) (pp_permits pool i))
     \<and> (if idle_of pool i = [] then pp_clients pool' = pp_clients pool \<and>
            (\<exists>k. connect parse_conn dial pool i = Inr k \<and> client_mut pc = Inr k)
        else client_mut pc = Inr (last (idle_of pool i)) \<and> idle_of pool' i = butlast (idle_of pool i))
   | (Inr None, pool') \<Rightarrow> pool' = pool \<and> pp_permits pool i = Some 0
   | (Inl e, pool') \<Rightarrow> pool' = pool \<and> (e = UnknownShard i \<or> (\<exists>m. e = ConnectFailed i m))"
proof (cases "pp_permits pool i")
  case None
  then show ?thesis by (simp add: acquire_def acquire_permit_def)
next
  case (Some free)
  show ?thesis
  proof (cases free)
    case 0
    with Some show ?thesis by (simp add: acquire_def acquire_permit_def)
  next
    case (Suc n)
    let ?p = "pool\<lparr>pp_permits := (pp_permits pool)(i \<mapsto> n)\<rparr>"
    have c: "connect parse_conn dial ?p i = connect parse_conn dial pool i"
      by (cases "pp_shards pool i") (simp_all add: connect_def)
    have e: "connect parse_conn dial pool i = Inl e \<Longrightarrow> e = UnknownShard i \<or> (\<exists>m. e = ConnectFailed i m)" for e
      by (auto simp: connect_def split: option.splits sum.splits)
    have restored: "release_permit ?p i = pool"
      using Some Suc by (simp add: release_permit_def fun_upd_idem)
    show ?thesis
      using Some Suc e restored
      by (auto simp: acquire_def acquire_permit_def pop_idle_def idle_of_def c client_mut_def
          split: option.splits sum.splits)
  qed
qed

end
