(* ===== verification/App_State.thy ===== *)
theory App_State
  imports Query_Router Stream_Hub Pg_Pool
begin

text \<open>
  The application state, \<open>app/state.rs\<close>: configuration, metadata handle, query router, connection pool
  and, when streaming is enabled, the broadcast hub.
\<close>

record ('r, 'c, 'k) AppState =
  as_config :: Config
  as_metadata :: "'r MetadataHandle"
  as_query_router :: "'r DefaultQueryRouter"
  as_pg_pool :: "'k ShardPgPool"
  as_stream :: "'c BroadcastHub option"

definition app_new ::
    "'c broadcast_ops \<Rightarrow> Config \<Rightarrow> 'r MetadataHandle \<Rightarrow> string + ('r, 'c, 'k) AppState" where
  "app_new bc config metadata =
     (if cfg_shards config = [] then Inl ''at least one shard is required''
      else let table_registry = cs_table_registry (mh_snapshot metadata);
               pg_pool = pool_new (cfg_shards config) (cfg_pg config) (rc_pg_pool_size (cfg_routing config));
               query_router = \<lparr> qr_metadata = metadata,
                                qr_scan_allow_order_by = rc_scan_allow_order_by (cfg_routing config) \<rparr>;
               stream = (if st_enabled (cfg_stream config)
                         then Some (hub_new bc (cfg_stream config) table_registry) else None)
           in Inr \<lparr> as_config = config, as_metadata = metadata, as_query_router = query_router,
                    as_pg_pool = pg_pool, as_stream = stream \<rparr>)"

definition app_table_registry :: "('r, 'c, 'k) AppState \<Rightarrow> TableRegistry" where
  "app_table_registry st = cs_table_registry (mh_snapshot (as_metadata st))"

definition app_route_key ::
    "'r hash_ring_ops \<Rightarrow> ('r, 'c, 'k) AppState \<Rightarrow> string \<Rightarrow> Protocol \<Rightarrow> RoutingError + ShardConfig" where
  "app_route_key ops st key p = router_route_key ops (as_query_router st) key p"

definition app_resolve_route ::
    "'r hash_ring_ops \<Rightarrow> sqlparser \<Rightarrow> ('r, 'c, 'k) AppState \<Rightarrow> string \<Rightarrow> string list option
       \<Rightarrow> RoutingError + ResolvedRoute" where
  "app_resolve_route ops sp st sql params = resolve_route ops sp (as_query_router st) sql params"

definition route_sql_info ::
    "'r hash_ring_ops \<Rightarrow> ('r, 'c, 'k) AppState \<Rightarrow> SqlRouteInfo \<Rightarrow> string list option \<Rightarrow> RoutingError + ShardConfig" where
  "route_sql_info ops st info params =
     (case (case ri_shard_key_param info of
              Some idx \<Rightarrow>
                (case bound_param params idx of
                   Some v \<Rightarrow> Inr v
                 | None \<Rightarrow> Inl (Unsupported (''missing bind parameter $'' @ nat_to_string (idx + 1) @ '' for shard key'')))
            | None \<Rightarrow>
                (case ri_shard_key info of
                   Some k \<Rightarrow> Inr k
                 | None \<Rightarrow> Inl (Unsupported ''query has no shard-key value to route on''))) of
        Inl e \<Rightarrow> Inl e
      | Inr key \<Rightarrow> app_route_key ops st key Pg)"

definition route_sql ::
    "'r hash_ring_ops \<Rightarrow> sqlparser \<Rightarrow> ('r, 'c, 'k) AppState \<Rightarrow> string \<Rightarrow> RoutingError + ShardConfig" where
  "route_sql ops sp st sql =
     (case app_resolve_route ops sp st sql None of
        Inl e \<Rightarrow> Inl e
      | Inr (Single shard) \<Rightarrow> Inr shard
      | Inr PassthroughRoute \<Rightarrow> Inl (Unsupported ''passthrough SQL cannot be shard-routed'')
      | Inr (Federated _) \<Rightarrow> Inl (Unsupported ''federated SQL requires federated executor''))"

definition app_plan_sql :: "sqlparser \<Rightarrow> ('r, 'c, 'k) AppState \<Rightarrow> string \<Rightarrow> RoutingError + RoutePlan" where
  "app_plan_sql sp st sql = router_plan_sql sp (as_query_router st) sql"

definition app_backend_pg_config ::
    "(string \<Rightarrow> string + 'g) \<Rightarrow> ('r, 'c, 'k) AppState \<Rightarrow> ShardConfig \<Rightarrow> string + 'g" where
  "app_backend_pg_config parse_conn st shard = backend_pg_config parse_conn shard (mh_pg_auth (as_metadata st))"

definition healthy_pg_shard_ids :: "('r, 'c, 'k) AppState \<Rightarrow> RoutingError + u32 list" where
  "healthy_pg_shard_ids st =
     (case ensure_min_healthy (mh_snapshot (as_metadata st)) Pg of
        Inl e \<Rightarrow> Inl e
      | Inr _ \<Rightarrow> Inr (healthy_shard_ids (mh_snapshot (as_metadata st)) Pg))"

section \<open>Lemmas\<close>

definition param_missing :: "string list option \<Rightarrow> nat \<Rightarrow> bool" where
  "param_missing params idx \<longleftrightarrow> bound_param params idx = None"

lemma app_new_Inr:
  assumes "app_new bc config metadata = Inr st"
  shows "as_config st = config" "as_metadata st = metadata" "cfg_shards config \<noteq> []"
    "qr_metadata (as_query_router st) = metadata"
    "qr_scan_allow_order_by (as_query_router st) = rc_scan_allow_order_by (cfg_routing config)"
    "as_stream st \<noteq> None \<longleftrightarrow> st_enabled (cfg_stream config)"
  using assms by (auto simp: app_new_def Let_def split: if_splits)

lemma missing_parameter:
  assumes "router_classify sp (as_query_router st) sql = Inr (Routable (SingleShard t k (Some i)))"
    and "param_missing params i"
  shows "app_resolve_route ops sp st sql params = map_sum id Single (app_route_key ops st t Pg)"
    and "route_sql_info ops st \<lparr> ri_table = t, ri_shard_key = k, ri_shard_key_param = Some i \<rparr> params =
      Inl (Unsupported (''missing bind parameter $'' @ nat_to_string (i + 1) @ '' for shard key''))"
  using assms
  by (auto simp: app_resolve_route_def resolve_route_def routing_key_def param_missing_def app_route_key_def
      route_sql_info_def split: sum.splits)

definition demo_handle :: "VNode list MetadataHandle" where
  "demo_handle = spawn_handle (actor_spawn ref_ring_ops (demo_config [demo_shard 0, demo_shard 1] 1))
     (demo_config [demo_shard 0, demo_shard 1] 1)"

definition demo_app :: "(VNode list, nat \<times> StreamTick list, nat) AppState" where
  "demo_app = \<lparr> as_config = demo_config [demo_shard 0, demo_shard 1] 1, as_metadata = demo_handle,
     as_query_router = \<lparr> qr_metadata = demo_handle, qr_scan_allow_order_by = False \<rparr>,
     as_pg_pool = pool_new [] default_pg_auth 1, as_stream = None \<rparr>"

definition demo_param_where :: Expr where
  "demo_param_where = BinaryOp (Identifier (demo_ident ''symbol'')) OpEq (ValueExpr (Placeholder ''$2''))"

section \<open>Properties\<close>

text \<open>
  A prepared query whose shard-key parameter is not bound is routed by its table name: the query
  router falls back to the table as the key, although the other entry point for the same information
  refuses exactly this case so that a query is never mis-sharded.
\<close>

theorem unbound_key_parameter_falls_back_to_table:
  assumes "router_classify sp (as_query_router st) sql = Inr (Routable (SingleShard t k (Some i)))"
    and "param_missing params i"
  shows "app_resolve_route ops sp st sql params = map_sum id Single (app_route_key ops st t Pg)
    \<and> route_sql_info ops st \<lparr> ri_table = t, ri_shard_key = k, ri_shard_key_param = Some i \<rparr> params =
      Inl (Unsupported (''missing bind parameter $'' @ nat_to_string (i + 1) @ '' for shard key''))"
  using missing_parameter [OF assms] by blast

theorem unbound_key_parameter_falls_back_to_table_witness:
  "app_resolve_route ref_ring_ops (demo_parser (QueryStatement (demo_query demo_param_where))) demo_app ''q'' None
     = map_sum id Single (app_route_key ref_ring_ops demo_app ''trades'' Pg)"
proof -
  let ?sp = "demo_parser (QueryStatement (demo_query demo_param_where))"
  have ext: "\<not> has_questdb_extension ''q''" by code_simp
  have p: "placeholder_index ''$2'' = Some 1"
    using placeholder_index_render [of 1] by (simp add: nat_to_string_two)
  have "router_classify ?sp (as_query_router demo_app) ''q'' = Inr (Routable (SingleShard ''trades'' None (Some 1)))"
    by (simp add: router_classify_def demo_app_def demo_handle_def spawn_handle_def classify_sql_def ext
        parse_one_statement_def plan_query_def plan_select_def p primary_table_def object_name_def
        demo_sql_defs demo_param_where_def eq_ignore_ascii_case_def)
  from unbound_key_parameter_falls_back_to_table [OF this, of None ref_ring_ops] show ?thesis
    by (simp add: param_missing_def bound_param_def)
qed

end
