(* ===== verification/Ilp_Forward.thy ===== *)
theory Ilp_Forward
  imports App_State
begin

text \<open>
  The ILP write path, \<open>protocol/ilp_forward.rs\<close> and \<open>protocol/ilp.rs\<close>: framing of a client connection
  into lines, routing of every line, per-shard write buffers and their flushing.

  The network is a parameter: whether a connect or a write succeeds, and how many bytes a failed write had
  sent. What a shard has received is the concatenation of what was written to it. The write buffers live in a hash map; the order in which
  \<open>flush\<close> visits them is the parameter \<open>env_order\<close>. The record \<open>ilp_env\<close> bundles these parameters with
  the hash ring, the byte search, the broadcast channel and the encoder. One call works with one value
  of the snapshot channel; a health report in between only shows in the next call.
\<close>

record netio =
  net_connect :: "string \<Rightarrow> string + unit"
  net_write :: "string \<Rightarrow> bytes \<Rightarrow> (string \<times> nat) + unit"
  net_flush :: "string \<Rightarrow> string + unit"

record ('r, 'c) ilp_env =
  env_ring :: "'r hash_ring_ops"
  env_memchr :: memchr_fn
  env_bc :: "'c broadcast_ops"
  env_enc :: "IlpRow \<Rightarrow> bytes option"
  env_net :: netio
  env_order :: "u32 set \<Rightarrow> u32 list"

record ShardUpstream =
  up_address :: string
  up_written :: bytes
  up_buf :: bytes

type_synonym IlpForwarder = "u32 \<rightharpoonup> ShardUpstream"

datatype ForwardError = RoutingFailed RoutingError | IoFailed string

section \<open>The forwarder\<close>

definition SHARD_BUF_FLUSH_BYTES :: nat where
  "SHARD_BUF_FLUSH_BYTES = 256 * 1024"

definition forwarder_new :: IlpForwarder where
  "forwarder_new = Map.empty"

definition ilp_line_key :: "memchr_fn \<Rightarrow> 'r MetadataHandle \<Rightarrow> bytes \<Rightarrow> string" where
  "ilp_line_key mc metadata line =
     (let measurement = (case measurement_from_ilp_bytes mc line of Some m \<Rightarrow> m | None \<Rightarrow> '''');
          tag_name = shard_key_for (cs_table_registry (mh_snapshot metadata)) measurement (mh_default_shard_key metadata)
      in into_owned (shard_key_from_ilp_cow mc line tag_name))"

definition route_line ::
    "('r, 'c) ilp_env \<Rightarrow> 'r MetadataHandle \<Rightarrow> bytes \<Rightarrow> RoutingError + ShardConfig" where
  "route_line env metadata line =
     shard_for_key (env_ring env) (mh_snapshot metadata) (ilp_line_key (env_memchr env) metadata line) Ilp"

text \<open>The lazily opened connection of a shard.\<close>

definition open_upstream :: "netio \<Rightarrow> ShardConfig \<Rightarrow> IlpForwarder \<Rightarrow> string + ShardUpstream" where
  "open_upstream net shard fwd =
     (case fwd (sc_id shard) of
        Some u \<Rightarrow> Inr u
      | None \<Rightarrow>
          (case net_connect net (as_str (sc_ilp_address shard)) of
             Inl e \<Rightarrow> Inl e
           | Inr _ \<Rightarrow> Inr \<lparr> up_address = as_str (sc_ilp_address shard), up_written = [], up_buf = [] \<rparr>))"

definition write_out :: "netio \<Rightarrow> ShardUpstream \<Rightarrow> (string + unit) \<times> ShardUpstream" where
  "write_out net u =
     (case net_write net (up_address u) (up_buf u) of
        Inl (e, n) \<Rightarrow> (Inl e, u\<lparr>up_written := up_written u @ take n (up_buf u), up_buf := []\<rparr>)
      | Inr _ \<Rightarrow> (Inr (), u\<lparr>up_written := up_written u @ up_buf u, up_buf := []\<rparr>))"

definition route_and_buffer ::
    "('r, 'c) ilp_env \<Rightarrow> ('r, 'c, 'k) AppState \<Rightarrow> IlpForwarder \<Rightarrow> bytes
       \<Rightarrow> (ForwardError + unit) \<times> ('r, 'c, 'k) AppState \<times> IlpForwarder" where
  "route_and_buffer env st fwd line =
     (if length (takeWhile (\<lambda>b. b \<noteq> NL) line) = 0 then (Inr (), st, fwd)
      else case route_line env (as_metadata st) line of
        Inl e \<Rightarrow> (Inl (RoutingFailed e), st, fwd)
      | Inr shard \<Rightarrow>
          (case open_upstream (env_net env) shard fwd of
             Inl e \<Rightarrow> (Inl (IoFailed e), st, fwd)
           | Inr u \<Rightarrow>
               let u1 = u\<lparr>up_buf := up_buf u @ line @ (if last line \<noteq> NL then [NL] else [])\<rparr>;
                   st1 = st\<lparr>as_stream :=
                     map_option (publish (env_bc env) (env_memchr env) (env_enc env) line) (as_stream st)\<rparr>
               in if length (up_buf u1) \<ge> SHARD_BUF_FLUSH_BYTES
                  then (case write_out (env_net env) u1 of
                          (Inl e, u2) \<Rightarrow> (Inl (IoFailed e), st1, fwd(sc_id shard \<mapsto> u2))
                        | (Inr _, u2) \<Rightarrow> (Inr (), st1, fwd(sc_id shard \<mapsto> u2)))
                  else (Inr (), st1, fwd(sc_id shard \<mapsto> u1))))"

definition forward_line ::
    "('r, 'c) ilp_env \<Rightarrow> ('r, 'c, 'k) AppState \<Rightarrow> IlpForwarder \<Rightarrow> bytes
       \<Rightarrow> (ForwardError + unit) \<times> ('r, 'c, 'k) AppState \<times> IlpForwarder" where
  "forward_line env st fwd line = route_and_buffer env st fwd line"

definition flush_one :: "netio \<Rightarrow> u32 \<Rightarrow> IlpForwarder \<Rightarrow> (ForwardError + unit) \<times> IlpForwarder" where
  "flush_one net i fwd =
     (case fwd i of
        None \<Rightarrow> (Inr (), fwd)
      | Some u \<Rightarrow>
          (case (if up_buf u \<noteq> [] then write_out net u else (Inr (), u)) of
             (Inl e, u1) \<Rightarrow> (Inl (IoFailed e), fwd(i \<mapsto> u1))
           | (Inr _, u1) \<Rightarrow>
               (case net_flush net (up_address u1) of
                  Inl e \<Rightarrow> (Inl (IoFailed e), fwd(i \<mapsto> u1))
                | Inr _ \<Rightarrow> (Inr (), fwd(i \<mapsto> u1)))))"

fun flush_loop :: "netio \<Rightarrow> u32 list \<Rightarrow> IlpForwarder \<Rightarrow> (ForwardError + unit) \<times> IlpForwarder" where
  "flush_loop net [] fwd = (Inr (), fwd)"
| "flush_loop net (i # is) fwd =
     (case flush_one net i fwd of
        (Inl e, fwd') \<Rightarrow> (Inl e, fwd')
      | (Inr _, fwd') \<Rightarrow> flush_loop net is fwd')"

definition flush :: "('r, 'c) ilp_env \<Rightarrow> IlpForwarder \<Rightarrow> (ForwardError + unit) \<times> IlpForwarder" where
  "flush env fwd = flush_loop (env_net env) (env_order env (dom fwd)) fwd"

fun forward_lines ::
    "('r, 'c) ilp_env \<Rightarrow> bytes list \<Rightarrow> ('r, 'c, 'k) AppState \<Rightarrow> IlpForwarder
       \<Rightarrow> (ForwardError + unit) \<times> ('r, 'c, 'k) AppState \<times> IlpForwarder" where
  "forward_lines env [] st fwd = (Inr (), st, fwd)"
| "forward_lines env (line # lines) st fwd =
     (case forward_line env st fwd line of
        (Inl e, st', fwd') \<Rightarrow> (Inl e, st', fwd')
      | (Inr _, st', fwd') \<Rightarrow> forward_lines env lines st' fwd')"

definition forward_batch ::
    "('r, 'c) ilp_env \<Rightarrow> bytes list \<Rightarrow> ('r, 'c, 'k) AppState \<Rightarrow> IlpForwarder
       \<Rightarrow> (ForwardError + unit) \<times> ('r, 'c, 'k) AppState \<times> IlpForwarder" where
  "forward_batch env lines st fwd =
     (case forward_lines env lines st fwd of
        (Inl e, st', fwd') \<Rightarrow> (Inl e, st', fwd')
      | (Inr _, st', fwd') \<Rightarrow> (case flush env fwd' of (r, fwd'') \<Rightarrow> (r, st', fwd'')))"

section \<open>A client connection\<close>

text \<open>
  The inner loop of the connection: complete lines are split off the front of the buffer and
  forwarded; what follows the last line feed stays. A byte search never succeeds on an empty buffer.
\<close>

function drain_lines ::
    "('r, 'c) ilp_env \<Rightarrow> bytes \<Rightarrow> ('r, 'c, 'k) AppState \<Rightarrow> IlpForwarder
       \<Rightarrow> (ForwardError + bytes) \<times> ('r, 'c, 'k) AppState \<times> IlpForwarder" where
  "drain_lines env buf st fwd =
     (case (if buf = [] then None else env_memchr env NL buf) of
        None \<Rightarrow> (Inr buf, st, fwd)
      | Some newline \<Rightarrow>
          (case forward_line env st fwd (take (newline + 1) buf) of
             (Inl e, st', fwd') \<Rightarrow> (Inl e, st', fwd')
           | (Inr _, st', fwd') \<Rightarrow> drain_lines env (drop (newline + 1) buf) st' fwd'))"
  by pat_completeness auto
termination
  by (relation "measure (\<lambda>(env, buf, st, fwd). length buf)") (auto split: if_splits)

declare drain_lines.simps [simp del]

text \<open>The reads of the client: an error, or the bytes read (none at the end of the stream).\<close>

fun connection_loop ::
    "('r, 'c) ilp_env \<Rightarrow> (string + bytes) list \<Rightarrow> bytes \<Rightarrow> ('r, 'c, 'k) AppState \<Rightarrow> IlpForwarder
       \<Rightarrow> (ForwardError + unit) \<times> ('r, 'c, 'k) AppState \<times> IlpForwarder" where
  "connection_loop env [] buf st fwd = (case flush env fwd of (r, fwd') \<Rightarrow> (r, st, fwd'))"
| "connection_loop env (Inl e # reads) buf st fwd = (Inl (IoFailed e), st, fwd)"
| "connection_loop env (Inr chunk # reads) buf st fwd =
     (if chunk = [] then (case flush env fwd of (r, fwd') \<Rightarrow> (r, st, fwd'))
      else case drain_lines env (buf @ chunk) st fwd of
        (Inl e, st', fwd') \<Rightarrow> (Inl e, st', fwd')
      | (Inr rest, st', fwd') \<Rightarrow>
          (case flush env fwd' of
             (Inl e, fwd'') \<Rightarrow> (Inl e, st', fwd'')
           | (Inr _, fwd'') \<Rightarrow> connection_loop env reads rest st' fwd''))"

definition handle_connection ::
    "('r, 'c) ilp_env \<Rightarrow> (string + bytes) list \<Rightarrow> ('r, 'c, 'k) AppState
       \<Rightarrow> (ForwardError + unit) \<times> ('r, 'c, 'k) AppState \<times> IlpForwarder" where
  "handle_connection env reads st = connection_loop env reads [] st forwarder_new"

section \<open>Specification vocabulary\<close>

text \<open>The complete lines of a byte sequence, each with its line feed, and what follows the last one.\<close>

function complete_lines :: "bytes \<Rightarrow> bytes list" where
  "complete_lines s =
     (case position (\<lambda>b. b = NL) s of
        None \<Rightarrow> [] | Some i \<Rightarrow> take (Suc i) s # complete_lines (drop (Suc i) s))"
  by pat_completeness auto
termination
  by (relation "measure length") (auto dest: position_SomeD)

declare complete_lines.simps [simp del]

definition after_last_line :: "bytes \<Rightarrow> bytes" where
  "after_last_line s = drop (length (concat (complete_lines s))) s"

definition terminated :: "bytes \<Rightarrow> bytes" where
  "terminated line = line @ (if last line \<noteq> NL then [NL] else [])"

definition goes_to :: "('r, 'c) ilp_env \<Rightarrow> 'r MetadataHandle \<Rightarrow> u32 \<Rightarrow> bytes \<Rightarrow> bool" where
  "goes_to env metadata i line \<longleftrightarrow>
     takeWhile (\<lambda>b. b \<noteq> NL) line \<noteq> []
   \<and> (case route_line env metadata line of Inr shard \<Rightarrow> sc_id shard = i | Inl _ \<Rightarrow> False)"

text \<open>What a shard must receive of a list of lines: its lines, in order, each with a line feed.\<close>

definition shard_bytes :: "('r, 'c) ilp_env \<Rightarrow> 'r MetadataHandle \<Rightarrow> u32 \<Rightarrow> bytes list \<Rightarrow> bytes" where
  "shard_bytes env metadata i lines = concat (map terminated (filter (goes_to env metadata i) lines))"

text \<open>Every line that is not blank has a shard.\<close>

definition all_routed :: "('r, 'c) ilp_env \<Rightarrow> 'r MetadataHandle \<Rightarrow> bytes list \<Rightarrow> bool" where
  "all_routed env metadata lines \<longleftrightarrow>
     (\<forall>line \<in> set lines. takeWhile (\<lambda>b. b \<noteq> NL) line = [] \<or> (\<exists>shard. route_line env metadata line = Inr shard))"

definition taken :: "IlpForwarder \<Rightarrow> u32 \<Rightarrow> bytes" where
  "taken fwd i = (case fwd i of Some u \<Rightarrow> up_written u @ up_buf u | None \<Rightarrow> [])"

definition received :: "IlpForwarder \<Rightarrow> u32 \<Rightarrow> bytes" where
  "received fwd i = (case fwd i of Some u \<Rightarrow> up_written u | None \<Rightarrow> [])"

definition buffers_bounded :: "IlpForwarder \<Rightarrow> bool" where
  "buffers_bounded fwd \<longleftrightarrow> (\<forall>u \<in> ran fwd. length (up_buf u) < SHARD_BUF_FLUSH_BYTES)"

definition order_ok :: "('r, 'c) ilp_env \<Rightarrow> bool" where
  "order_ok env \<longleftrightarrow> (\<forall>S. finite S \<longrightarrow> set (env_order env S) = S)"

definition net_reliable :: "netio \<Rightarrow> bool" where
  "net_reliable net \<longleftrightarrow>
     (\<forall>a. net_connect net a = Inr ()) \<and> (\<forall>a b. net_write net a b = Inr ()) \<and> (\<forall>a. net_flush net a = Inr ())"

section \<open>Lemmas\<close>

subsection \<open>Framing\<close>

lemma after_last_line_None: "position (\<lambda>b. b = NL) s = None \<Longrightarrow> after_last_line s = s"
  by (simp add: after_last_line_def complete_lines.simps [of s])

lemma after_last_line_Some:
  assumes "position (\<lambda>b. b = NL) s = Some i"
  shows "after_last_line s = after_last_line (drop (Suc i) s)"
proof -
  from position_SomeD [OF assms] have "i < length s" by blast
  then show ?thesis
    by (simp add: after_last_line_def complete_lines.simps [of s] assms min_def add.commute)
qed

lemma complete_lines_append:
  "complete_lines (a @ b) = complete_lines a @ complete_lines (after_last_line a @ b)"
proof (induction a rule: complete_lines.induct)
  case (1 a)
  show ?case
  proof (cases "position (\<lambda>b. b = NL) a")
    case None
    then show ?thesis by (simp add: complete_lines.simps [of a] after_last_line_None)
  next
    case (Some i)
    then have ab: "position (\<lambda>b. b = NL) (a @ b) = Some i" by (simp add: position_append)
    from position_SomeD [OF Some] have i: "i < length a" by blast
    show ?thesis
      using 1 [OF Some] i
      by (simp add: complete_lines.simps [of "a @ b"] ab complete_lines.simps [of a] Some
          after_last_line_Some [OF Some] Suc_diff_le)
  qed
qed

lemma after_last_line_clean: "NL \<notin> set (after_last_line s)"
proof (induction s rule: complete_lines.induct)
  case (1 s)
  then show ?case
    by (cases "position (\<lambda>b. b = NL) s")
      (auto simp: after_last_line_None after_last_line_Some position_None_iff)
qed

lemma drain_lines_complete:
  assumes "env_memchr env = memchr_ref"
  shows "drain_lines env buf st fwd =
    (case forward_lines env (complete_lines buf) st fwd of
       (Inl e, st', fwd') \<Rightarrow> (Inl e, st', fwd')
     | (Inr _, st', fwd') \<Rightarrow> (Inr (after_last_line buf), st', fwd'))"
proof (induction buf arbitrary: st fwd rule: complete_lines.induct)
  case (1 buf)
  show ?case
  proof (cases "position (\<lambda>b. b = NL) buf")
    case None
    then show ?thesis
      by (simp add: drain_lines.simps [of env buf] assms memchr_ref_def complete_lines.simps [of buf]
          after_last_line_None)
  next
    case (Some i)
    then have "buf \<noteq> []" by auto
    with Some 1 [OF Some] show ?thesis
      by (simp add: drain_lines.simps [of env buf] assms memchr_ref_def complete_lines.simps [of buf]
          after_last_line_Some split: prod.splits sum.splits)
  qed
qed

subsection \<open>One line\<close>

lemma write_out_ok:
  "write_out net u = (Inr x, u') \<Longrightarrow> up_written u' = up_written u @ up_buf u \<and> up_buf u' = []"
  by (auto simp: write_out_def split: sum.splits)

lemma open_upstream_ok:
  "open_upstream net shard fwd = Inr u \<Longrightarrow>
     up_written u @ up_buf u = taken fwd (sc_id shard)
   \<and> (fwd (sc_id shard) = Some u \<or> (fwd (sc_id shard) = None \<and> up_buf u = []))"
  by (auto simp: open_upstream_def taken_def split: option.splits sum.splits)

lemma taken_upd: "taken (fwd(i \<mapsto> u)) j = (if j = i then up_written u @ up_buf u else taken fwd j)"
  by (simp add: taken_def)

lemma bounded_upd:
  "buffers_bounded fwd \<Longrightarrow> length (up_buf u) < SHARD_BUF_FLUSH_BYTES \<Longrightarrow> buffers_bounded (fwd(i \<mapsto> u))"
  by (auto simp: buffers_bounded_def ran_def)

lemma route_and_buffer_ok:
  assumes "route_and_buffer env st fwd line = (Inr x, st', fwd')"
  shows "as_metadata st' = as_metadata st"
    and "taken fwd' i = taken fwd i @ (if goes_to env (as_metadata st) i line then terminated line else [])"
    and "finite (dom fwd) \<Longrightarrow> finite (dom fwd')"
    and "buffers_bounded fwd \<Longrightarrow> buffers_bounded fwd'"
proof -
  consider (blank) "takeWhile (\<lambda>b. b \<noteq> NL) line = []" "st' = st" "fwd' = fwd"
    | (routed) shard u u' where "takeWhile (\<lambda>b. b \<noteq> NL) line \<noteq> []"
        "route_line env (as_metadata st) line = Inr shard" "open_upstream (env_net env) shard fwd = Inr u"
        "fwd' = fwd(sc_id shard \<mapsto> u')" "as_metadata st' = as_metadata st"
        "up_written u' @ up_buf u' = (up_written u @ up_buf u) @ terminated line"
        "length (up_buf u') < SHARD_BUF_FLUSH_BYTES"
    using assms
    by (auto simp: route_and_buffer_def Let_def terminated_def SHARD_BUF_FLUSH_BYTES_def not_le
        split: if_splits sum.splits prod.splits dest!: write_out_ok)
  then have "as_metadata st' = as_metadata st
    \<and> taken fwd' i = taken fwd i @ (if goes_to env (as_metadata st) i line then terminated line else [])
    \<and> (finite (dom fwd) \<longrightarrow> finite (dom fwd')) \<and> (buffers_bounded fwd \<longrightarrow> buffers_bounded fwd')"
  proof cases
    case blank
    then show ?thesis by (simp add: goes_to_def)
  next
    case routed
    with open_upstream_ok [OF routed(3)] show ?thesis
      by (simp add: goes_to_def taken_upd bounded_upd)
  qed
  then show "as_metadata st' = as_metadata st"
    and "taken fwd' i = taken fwd i @ (if goes_to env (as_metadata st) i line then terminated line else [])"
    and "finite (dom fwd) \<Longrightarrow> finite (dom fwd')"
    and "buffers_bounded fwd \<Longrightarrow> buffers_bounded fwd'" by blast+
qed

lemma forward_lines_ok:
  "forward_lines env lines st fwd = (Inr x, st', fwd') \<Longrightarrow>
     as_metadata st' = as_metadata st
   \<and> taken fwd' i = taken fwd i @ shard_bytes env (as_metadata st) i lines
   \<and> (finite (dom fwd) \<longrightarrow> finite (dom fwd')) \<and> (buffers_bounded fwd \<longrightarrow> buffers_bounded fwd')"
proof (induction lines arbitrary: st fwd)
  case Nil
  then show ?case by (simp add: shard_bytes_def)
next
  case (Cons line lines)
  from Cons.prems obtain y st1 fwd1 where r: "route_and_buffer env st fwd line = (Inr y, st1, fwd1)"
    and f: "forward_lines env lines st1 fwd1 = (Inr x, st', fwd')"
    by (auto simp: forward_line_def split: prod.splits sum.splits)
  from Cons.IH [OF f] route_and_buffer_ok [OF r] show ?case by (simp add: shard_bytes_def)
qed

lemma forward_lines_routed:
  "forward_lines env lines st fwd = (Inr x, st', fwd') \<Longrightarrow> all_routed env (as_metadata st) lines"
proof (induction lines arbitrary: st fwd)
  case (Cons line lines)
  from Cons.prems obtain y st1 fwd1 where r: "route_and_buffer env st fwd line = (Inr y, st1, fwd1)"
    and f: "forward_lines env lines st1 fwd1 = (Inr x, st', fwd')"
    by (auto simp: forward_line_def split: prod.splits sum.splits)
  from r have "takeWhile (\<lambda>b. b \<noteq> NL) line = [] \<or> (\<exists>shard. route_line env (as_metadata st) line = Inr shard)"
    by (auto simp: route_and_buffer_def Let_def split: if_splits sum.splits)
  with Cons.IH [OF f] route_and_buffer_ok(1) [OF r] show ?case by (simp add: all_routed_def)
qed (simp add: all_routed_def)

subsection \<open>Flushing\<close>

definition clean :: "IlpForwarder \<Rightarrow> u32 \<Rightarrow> bool" where
  "clean fwd i \<longleftrightarrow> (case fwd i of Some u \<Rightarrow> up_buf u = [] | None \<Rightarrow> True)"

lemma flush_one_ok:
  "flush_one net i fwd = (Inr x, fwd') \<Longrightarrow>
     taken fwd' j = taken fwd j \<and> dom fwd' = dom fwd \<and> clean fwd' i \<and> (clean fwd j \<longrightarrow> clean fwd' j)"
  by (auto simp: flush_one_def taken_def clean_def split: option.splits if_splits prod.splits sum.splits
      dest!: write_out_ok)

lemma flush_loop_ok:
  "flush_loop net is fwd = (Inr x, fwd') \<Longrightarrow>
     taken fwd' j = taken fwd j \<and> dom fwd' = dom fwd \<and> (j \<in> set is \<or> clean fwd j \<longrightarrow> clean fwd' j)"
proof (induction "is" arbitrary: fwd)
  case (Cons i "is")
  from Cons.prems obtain y fwd1 where o: "flush_one net i fwd = (Inr y, fwd1)"
    and l: "flush_loop net is fwd1 = (Inr x, fwd')" by (auto split: prod.splits sum.splits)
  from Cons.IH [OF l] flush_one_ok [OF o, of j] show ?case by (cases "j = i") simp_all
qed simp

lemma flush_ok:
  assumes "flush env fwd = (Inr x, fwd')" and "order_ok env" and "finite (dom fwd)"
  shows "taken fwd' i = taken fwd i" and "received fwd' i = taken fwd' i"
    and "finite (dom fwd')" and "buffers_bounded fwd'"
proof -
  note l = assms(1) [unfolded flush_def]
  have order: "set (env_order env (dom fwd)) = dom fwd" using assms(2,3) by (simp add: order_ok_def)
  have clean: "clean fwd' j" for j
    using flush_loop_ok [OF l, of j] order by (cases "j \<in> dom fwd") (auto simp: clean_def)
  show "taken fwd' i = taken fwd i" using flush_loop_ok [OF l] by blast
  show "received fwd' i = taken fwd' i"
    using clean [of i] by (simp add: received_def taken_def clean_def split: option.splits)
  show "finite (dom fwd')" using flush_loop_ok [OF l] assms(3) by simp
  have "up_buf u = []" if "fwd' j = Some u" for j u
    using clean [of j] that by (simp add: clean_def)
  then show "buffers_bounded fwd'"
    by (auto simp: buffers_bounded_def ran_def SHARD_BUF_FLUSH_BYTES_def)
qed

subsection \<open>The connection\<close>

lemma shard_bytes_append:
  "shard_bytes env m i (xs @ ys) = shard_bytes env m i xs @ shard_bytes env m i ys"
  by (simp add: shard_bytes_def)

text \<open>The bytes a client sent before the end of its stream.\<close>

fun stream_bytes :: "(string + bytes) list \<Rightarrow> bytes" where
  "stream_bytes [] = []"
| "stream_bytes (Inl e # reads) = []"
| "stream_bytes (Inr chunk # reads) = (if chunk = [] then [] else chunk @ stream_bytes reads)"

lemma complete_lines_clean: "NL \<notin> set s \<Longrightarrow> complete_lines s = []"
  by (simp add: complete_lines.simps [of s] position_absent)

lemma final_flush_ok:
  assumes "(case flush env fwd of (r, fwd1) \<Rightarrow> (r, st, fwd1)) = (Inr x, st', fwd')"
    and "order_ok env" and "finite (dom fwd)" and "NL \<notin> set buf"
  shows "received fwd' i = taken fwd i @ shard_bytes env (as_metadata st) i (complete_lines buf)
    \<and> buffers_bounded fwd'"
proof -
  from assms(1) have "flush env fwd = (Inr x, fwd')" by (auto split: prod.splits)
  from flush_ok [OF this assms(2,3)] assms(4) show ?thesis
    by (simp add: complete_lines_clean shard_bytes_def)
qed

lemma connection_loop_ok:
  assumes mc: "env_memchr env = memchr_ref" and ord: "order_ok env"
  shows "connection_loop env reads buf st fwd = (Inr x, st', fwd') \<Longrightarrow> finite (dom fwd) \<Longrightarrow> NL \<notin> set buf \<Longrightarrow>
     received fwd' i =
       taken fwd i @ shard_bytes env (as_metadata st) i (complete_lines (buf @ stream_bytes reads))
   \<and> buffers_bounded fwd'"
proof (induction reads arbitrary: buf st fwd)
  case Nil
  with final_flush_ok [OF _ ord, where fwd = fwd and buf = buf and i = i] show ?case by simp
next
  case (Cons r reads)
  show ?case
  proof (cases r)
    case (Inl e)
    with Cons.prems show ?thesis by simp
  next
    case (Inr chunk)
    show ?thesis
    proof (cases "chunk = []")
      case True
      with Cons.prems Inr final_flush_ok [OF _ ord, where fwd = fwd and buf = buf and i = i] show ?thesis by simp
    next
      case False
      let ?lines = "complete_lines (buf @ chunk)" and ?rest = "after_last_line (buf @ chunk)"
      from Cons.prems(1) Inr False obtain y st1 fwd1 z fwd2
        where f: "forward_lines env ?lines st fwd = (Inr y, st1, fwd1)"
          and fl: "flush env fwd1 = (Inr z, fwd2)"
          and l: "connection_loop env reads ?rest st1 fwd2 = (Inr x, st', fwd')"
        by (auto simp: drain_lines_complete [OF mc] split: prod.splits sum.splits)
      note one = forward_lines_ok [OF f]
      from one Cons.prems(2) have fin: "finite (dom fwd1)" by blast
      note two = flush_ok [OF fl ord fin]
      from Cons.IH [OF l two(3) after_last_line_clean] one two(1) show ?thesis
        using False Inr complete_lines_append [of "buf @ chunk" "stream_bytes reads"]
        by (simp add: shard_bytes_append)
    qed
  qed
qed

lemma handle_connection_ok:
  assumes "env_memchr env = memchr_ref" and "order_ok env"
    and "handle_connection env reads st = (Inr x, st', fwd')"
  shows "received fwd' i = shard_bytes env (as_metadata st) i (complete_lines (stream_bytes reads))"
  using connection_loop_ok [OF assms(1,2) assms(3) [unfolded handle_connection_def], of i]
  by (simp add: forwarder_new_def taken_def)

subsection \<open>A reliable network\<close>

lemma reliable_write:
  "net_reliable net \<Longrightarrow> write_out net u = (Inr (), u\<lparr>up_written := up_written u @ up_buf u, up_buf := []\<rparr>)"
  by (simp add: write_out_def net_reliable_def)

lemma reliable_route:
  assumes "net_reliable (env_net env)" and "route_line env (as_metadata st) line = Inr shard"
  shows "\<exists>st' fwd'. route_and_buffer env st fwd line = (Inr (), st', fwd')"
proof -
  have "\<exists>u. open_upstream (env_net env) shard fwd = Inr u"
    using assms(1) by (auto simp: open_upstream_def net_reliable_def split: option.splits)
  then obtain u where "open_upstream (env_net env) shard fwd = Inr u" ..
  with assms show ?thesis by (simp add: route_and_buffer_def Let_def reliable_write)
qed

lemma reliable_flush_loop: "net_reliable net \<Longrightarrow> \<exists>fwd'. flush_loop net is fwd = (Inr (), fwd')"
proof (induction "is" arbitrary: fwd)
  case (Cons i "is")
  have "\<exists>fwd1. flush_one net i fwd = (Inr (), fwd1)"
    using Cons.prems by (auto simp: flush_one_def reliable_write split: option.splits)
      (auto simp: net_reliable_def)
  then obtain fwd1 where "flush_one net i fwd = (Inr (), fwd1)" ..
  with Cons show ?case by simp
qed simp

lemma reliable_lines:
  assumes "net_reliable (env_net env)" and "\<forall>line. \<exists>shard. route_line env m line = Inr shard"
  shows "as_metadata st = m \<Longrightarrow> \<exists>st' fwd'. forward_lines env lines st fwd = (Inr (), st', fwd') \<and> as_metadata st' = m"
proof (induction lines arbitrary: st fwd)
  case (Cons line lines)
  from assms(2) Cons.prems obtain shard where "route_line env (as_metadata st) line = Inr shard" by blast
  from reliable_route [OF assms(1) this, of fwd] obtain st1 fwd1
    where r: "route_and_buffer env st fwd line = (Inr (), st1, fwd1)" by blast
  from Cons.IH [of st1 fwd1] route_and_buffer_ok(1) [OF r] Cons.prems r show ?case
    by (auto simp: forward_line_def)
qed simp

lemma reliable_flush: "net_reliable (env_net env) \<Longrightarrow> \<exists>fwd'. flush env fwd = (Inr (), fwd')"
  unfolding flush_def by (rule reliable_flush_loop)

lemma reliable_connection:
  assumes mc: "env_memchr env = memchr_ref" and net: "net_reliable (env_net env)"
    and routes: "\<forall>line. \<exists>shard. route_line env m line = Inr shard"
  shows "\<forall>r \<in> set reads. \<not> isl r \<Longrightarrow> as_metadata st = m \<Longrightarrow>
    \<exists>st' fwd'. connection_loop env reads buf st fwd = (Inr (), st', fwd')"
proof (induction reads arbitrary: buf st fwd)
  case Nil
  obtain fwd' where "flush env fwd = (Inr (), fwd')" using reliable_flush [OF net] by blast
  then show ?case by simp
next
  case (Cons r reads)
  then obtain chunk where r: "r = Inr chunk" by (cases r) auto
  show ?case
  proof (cases "chunk = []")
    case True
    obtain fwd' where "flush env fwd = (Inr (), fwd')" using reliable_flush [OF net] by blast
    with r True show ?thesis by simp
  next
    case False
    from reliable_lines [OF net routes Cons.prems(2), of "complete_lines (buf @ chunk)" fwd]
    obtain st1 fwd1 where one: "forward_lines env (complete_lines (buf @ chunk)) st fwd = (Inr (), st1, fwd1)"
      "as_metadata st1 = m" by blast
    obtain fwd2 where two: "flush env fwd1 = (Inr (), fwd2)" using reliable_flush [OF net] by blast
    from Cons.IH [of st1 "after_last_line (buf @ chunk)" fwd2] Cons.prems one two r False show ?thesis
      by (simp add: drain_lines_complete [OF mc])
  qed
qed

lemma order_ok_empty: "order_ok env \<Longrightarrow> env_order env {} = []"
  unfolding order_ok_def by (metis finite.emptyI set_empty)

lemma unterminated_connection:
  assumes "env_memchr env = memchr_ref" and "order_ok env" and "NL \<notin> set chunk"
  shows "handle_connection env [Inr chunk] st = (Inr (), st, forwarder_new)"
  using assms
  by (auto simp: handle_connection_def forwarder_new_def flush_def order_ok_empty drain_lines_complete
      complete_lines_clean)

text \<open>Environments for the witnesses: two shards, told apart by the key, and a network.\<close>

definition demo_ring_ops :: "VNode list hash_ring_ops" where
  "demo_ring_ops = \<lparr> hr_new = [], hr_add = (\<lambda>v r. r @ [v]),
     hr_get = (\<lambda>r k. find (\<lambda>v. shard_id v = (if k = Key ''A'' then 0 else 1)) r) \<rparr>"

definition good_net :: netio where
  "good_net = \<lparr> net_connect = (\<lambda>_. Inr ()), net_write = (\<lambda>_ _. Inr ()), net_flush = (\<lambda>_. Inr ()) \<rparr>"

definition demo_env :: "netio \<Rightarrow> (VNode list, nat \<times> StreamTick list) ilp_env" where
  "demo_env net = \<lparr> env_ring = demo_ring_ops, env_memchr = memchr_ref, env_bc = ref_bc,
     env_enc = (\<lambda>_. None), env_net = net, env_order = sorted_list_of_set \<rparr>"

definition demo_pair :: "ShardConfig list" where
  "demo_pair = [\<lparr> sc_id = 0, sc_ilp_address = Endpoint ''a'', sc_pg_address = Endpoint ''a'', sc_weight = 1, sc_virtual_nodes = 1 \<rparr>,
     \<lparr> sc_id = 1, sc_ilp_address = Endpoint ''b'', sc_pg_address = Endpoint ''b'', sc_weight = 1, sc_virtual_nodes = 1 \<rparr>]"

definition demo_ilp_app :: "(VNode list, nat \<times> StreamTick list, nat) AppState" where
  "demo_ilp_app = \<lparr> as_config = demo_config demo_pair 0,
     as_metadata = spawn_handle (actor_spawn demo_ring_ops (demo_config demo_pair 0)) (demo_config demo_pair 0),
     as_query_router = \<lparr> qr_metadata = spawn_handle (actor_spawn demo_ring_ops (demo_config demo_pair 0)) (demo_config demo_pair 0),
        qr_scan_allow_order_by = False \<rparr>,
     as_pg_pool = pool_new [] default_pg_auth 1, as_stream = None \<rparr>"

lemma demo_env_simps [simp]:
  "env_memchr (demo_env net) = memchr_ref" "env_net (demo_env net) = net" "order_ok (demo_env net)"
  "net_reliable good_net" "as_stream demo_ilp_app = None"
  by (simp_all add: demo_env_def order_ok_def net_reliable_def good_net_def demo_ilp_app_def)

lemma demo_home:
  "shard_by_key demo_ring_ops (from_shards demo_ring_ops demo_pair) k =
     Some (demo_pair ! (if k = ''A'' then 0 else 1))"
proof -
  have ring: "ring_of demo_ring_ops vs = vs" for vs
    unfolding ring_of_def demo_ring_ops_def by (induction vs rule: rev_induct) auto
  have vnodes: "concat (map vnodes_of demo_pair) = [VNode 0 0, VNode 1 0]"
    by (simp add: demo_pair_def vnodes_of_def unat_effective_vnode_count)
  show ?thesis
    by (simp add: shard_by_key_def sr_ring_from_shards ring vnodes)
      (simp add: demo_ring_ops_def shard_by_id_def demo_pair_def)
qed

lemma demo_route:
  "route_line (demo_env net) (as_metadata demo_ilp_app) line =
     Inr (demo_pair ! (if ilp_line_key memchr_ref (as_metadata demo_ilp_app) line = ''A'' then 0 else 1))"
proof -
  let ?snap = "ms_snapshot (actor_run [] (actor_spawn demo_ring_ops (demo_config demo_pair 0)))"
  have "\<not> is_excluded ?snap Ilp i" for i by (simp add: run_excluded report_simps)
  then have "shard_for_key demo_ring_ops ?snap key Ilp = Inr (demo_pair ! (if key = ''A'' then 0 else 1))" for key
    using filtered_primary [OF demo_home, where excl = "is_excluded ?snap Ilp" and key = key]
    by (simp add: shard_for_key_def ensure_min_healthy_def)
  then show ?thesis
    by (simp add: route_line_def demo_env_def demo_ilp_app_def spawn_handle_def actor_run_def)
qed

lemma demo_routes:
  "\<exists>shard. route_line (demo_env net) (as_metadata demo_ilp_app) line = Inr shard"
  by (simp add: demo_route)

section \<open>Properties\<close>

text \<open>
  C7. The write path delivers. On a network without failures, with every line routable, a connection
  ends without error, and afterwards each shard has received exactly its own complete lines of what
  the client sent - non-blank, in order, each once - however the client's bytes were cut into reads.
  Nothing is left in a buffer.
\<close>

theorem connection_delivers_every_line:
  assumes "memchr_spec (env_memchr env)" and "order_ok env" and "net_reliable (env_net env)"
    and "\<forall>line. \<exists>shard. route_line env (as_metadata st) line = Inr shard" and "\<forall>r \<in> set reads. \<not> isl r"
  shows "\<exists>st' fwd'. handle_connection env reads st = (Inr (), st', fwd')
    \<and> (\<forall>i. received fwd' i = shard_bytes env (as_metadata st) i (complete_lines (stream_bytes reads)))"
proof -
  have mc: "env_memchr env = memchr_ref" by (rule memchr_specD [OF assms(1)])
  from reliable_connection [OF mc assms(3,4,5) refl, of "[]" forwarder_new] obtain st' fwd'
    where "handle_connection env reads st = (Inr (), st', fwd')" by (auto simp: handle_connection_def)
  with handle_connection_ok [OF mc assms(2) this] show ?thesis by blast
qed

theorem connection_delivers_every_line_witness:
  "\<exists>st' fwd'. handle_connection (demo_env good_net) [Inr ''t,symb'', Inr (''ol=A x=1'' @ [NL] @ ''t,'')] demo_ilp_app
       = (Inr (), st', fwd')
    \<and> (\<forall>i. received fwd' i = shard_bytes (demo_env good_net) (as_metadata demo_ilp_app) i [''t,symbol=A x=1'' @ [NL]])"
proof -
  have "complete_lines (stream_bytes [Inr ''t,symb'', Inr (''ol=A x=1'' @ [NL] @ ''t,'')]) = [''t,symbol=A x=1'' @ [NL]]"
    by (simp add: complete_lines.simps)
  with connection_delivers_every_line [of "demo_env good_net" demo_ilp_app
      "[Inr ''t,symb'', Inr (''ol=A x=1'' @ [NL] @ ''t,'')]"] demo_routes
  show ?thesis by simp
qed

text \<open>
  A batch reported as forwarded has been delivered: whatever the network and the health of the
  shards did, when \<open>forward_batch\<close> returns without error every shard has received all it was owed
  before plus exactly its lines of the batch, in order, and no buffer is left above the flush limit.
\<close>

theorem forwarded_batch_is_delivered:
  assumes "order_ok env" and "finite (dom fwd)" and "forward_batch env lines st fwd = (Inr x, st', fwd')"
  shows "received fwd' i = taken fwd i @ shard_bytes env (as_metadata st) i lines \<and> buffers_bounded fwd'"
proof -
  from assms(3) obtain y fwd1 where f: "forward_lines env lines st fwd = (Inr y, st', fwd1)"
    and fl: "flush env fwd1 = (Inr x, fwd')" by (auto simp: forward_batch_def split: prod.splits sum.splits)
  note one = forward_lines_ok [OF f, of i]
  from one assms(2) have "finite (dom fwd1)" by blast
  from flush_ok [OF fl assms(1) this] one show ?thesis by simp
qed

theorem forwarded_batch_is_delivered_witness:
  "\<exists>st' fwd'. forward_batch (demo_env good_net) [''t,symbol=A x=1''] demo_ilp_app forwarder_new = (Inr (), st', fwd')
     \<and> received fwd' 0 = shard_bytes (demo_env good_net) (as_metadata demo_ilp_app) 0 [''t,symbol=A x=1'']"
proof -
  from reliable_lines [of "demo_env good_net" "as_metadata demo_ilp_app" demo_ilp_app "[''t,symbol=A x=1'']" forwarder_new]
    demo_routes obtain st1 fwd1
    where f: "forward_lines (demo_env good_net) [''t,symbol=A x=1''] demo_ilp_app forwarder_new = (Inr (), st1, fwd1)"
    by auto
  obtain fwd2 where "flush (demo_env good_net) fwd1 = (Inr (), fwd2)"
    using reliable_flush [of "demo_env good_net" fwd1] by auto
  with f have b: "forward_batch (demo_env good_net) [''t,symbol=A x=1''] demo_ilp_app forwarder_new = (Inr (), st1, fwd2)"
    by (simp add: forward_batch_def)
  show ?thesis
    using forwarded_batch_is_delivered [OF _ _ b, of 0] b by (simp add: forwarder_new_def taken_def)
qed

text \<open>
  The last line of a connection is forwarded only if it ends in a line feed: a client that sends
  a line without one and closes the connection gets no error, and nothing is sent to any shard.
\<close>

theorem unterminated_line_is_dropped:
  assumes "memchr_spec (env_memchr env)" and "order_ok env" and "NL \<notin> set chunk"
  shows "handle_connection env [Inr chunk] st = (Inr (), st, forwarder_new)"
  by (rule unterminated_connection [OF memchr_specD [OF assms(1)] assms(2,3)])

theorem unterminated_line_is_dropped_witness:
  "handle_connection (demo_env good_net) [Inr ''t,symbol=A x=1''] demo_ilp_app
     = (Inr (), demo_ilp_app, forwarder_new)"
  by (rule unterminated_line_is_dropped) simp_all

text \<open>
  A failure throws away what was already buffered: when a read holds a line for a reachable shard
  followed by a line for a shard that refuses the connection, the connection ends with the I/O error
  before any flush, and the first shard never receives its line although it was routed and buffered.
\<close>

theorem failure_discards_buffered_lines:
  assumes "memchr_spec (env_memchr env)"
    and "complete_lines chunk = [l1, l2]" and "takeWhile (\<lambda>b. b \<noteq> NL) l1 \<noteq> []" and "takeWhile (\<lambda>b. b \<noteq> NL) l2 \<noteq> []"
    and "length l1 + 1 < SHARD_BUF_FLUSH_BYTES"
    and "route_line env (as_metadata st) l1 = Inr s1" and "route_line env (as_metadata st) l2 = Inr s2"
    and "sc_id s1 \<noteq> sc_id s2"
    and "net_connect (env_net env) (as_str (sc_ilp_address s1)) = Inr ()"
    and "net_connect (env_net env) (as_str (sc_ilp_address s2)) = Inl e"
  shows "\<exists>st' fwd'. handle_connection env [Inr chunk] st = (Inl (IoFailed e), st', fwd')
    \<and> taken fwd' (sc_id s1) = terminated l1 \<and> received fwd' (sc_id s1) = []"
proof -
  have mc: "env_memchr env = memchr_ref" by (rule memchr_specD [OF assms(1)])
  let ?st1 = "st\<lparr>as_stream := map_option (publish (env_bc env) memchr_ref (env_enc env) l1) (as_stream st)\<rparr>"
  let ?u = "\<lparr> up_address = as_str (sc_ilp_address s1), up_written = [], up_buf = terminated l1 \<rparr>"
  have "length (terminated l1) < SHARD_BUF_FLUSH_BYTES" using assms(5) by (simp add: terminated_def)
  then have one: "forward_line env st forwarder_new l1 = (Inr (), ?st1, forwarder_new(sc_id s1 \<mapsto> ?u))"
    using assms(3,6,9)
    by (simp add: forward_line_def route_and_buffer_def open_upstream_def forwarder_new_def mc terminated_def)
  have two: "forward_line env ?st1 (forwarder_new(sc_id s1 \<mapsto> ?u)) l2 =
      (Inl (IoFailed e), ?st1, forwarder_new(sc_id s1 \<mapsto> ?u))"
    using assms(4,7,8,10)
    by (simp add: forward_line_def route_and_buffer_def open_upstream_def forwarder_new_def)
  have "chunk \<noteq> []" using assms(2) by (auto simp: complete_lines.simps)
  with one two show ?thesis
    by (simp add: handle_connection_def drain_lines_complete [OF mc] assms(2) taken_def received_def)
qed

theorem failure_discards_buffered_lines_witness:
  "\<exists>st' fwd'. handle_connection (demo_env (good_net\<lparr>net_connect := (\<lambda>a. if a = ''b'' then Inl ''refused'' else Inr ())\<rparr>))
       [Inr (''t,symbol=A x=1'' @ [NL] @ ''t,symbol=B x=1'' @ [NL])] demo_ilp_app = (Inl (IoFailed ''refused''), st', fwd')
     \<and> taken fwd' 0 = ''t,symbol=A x=1'' @ [NL] \<and> received fwd' 0 = []"
proof -
  let ?net = "good_net\<lparr>net_connect := (\<lambda>a. if a = ''b'' then Inl ''refused'' else Inr ())\<rparr>"
  let ?l1 = "''t,symbol=A x=1'' @ [NL]" and ?l2 = "''t,symbol=B x=1'' @ [NL]"
  have keys: "ilp_line_key memchr_ref (as_metadata demo_ilp_app) ?l1 = ''A''"
    "ilp_line_key memchr_ref (as_metadata demo_ilp_app) ?l2 = ''B''"
    by (simp_all add: ilp_line_key_def demo_ilp_app_def spawn_handle_def registry_from_config_def
        shard_key_for_def registry_get_def) code_simp+
  have lines: "complete_lines (?l1 @ ?l2) = [?l1, ?l2]" by (simp add: complete_lines.simps)
  show ?thesis
    using failure_discards_buffered_lines [where env = "demo_env ?net" and st = demo_ilp_app
        and ?s1.0 = "demo_pair ! 0" and ?s2.0 = "demo_pair ! 1" and e = "''refused''", OF _ lines] keys
    by (simp add: demo_route demo_pair_def SHARD_BUF_FLUSH_BYTES_def terminated_def)
qed

end
