(* ===== verification/Stream_Flow.thy ===== *)
theory Stream_Flow
  imports Ilp_Forward Stream_Ws
begin

text \<open>
  From a written line to the frames of a stream client: \<open>forward_line\<close> of \<open>protocol/ilp_forward.rs\<close> publishes to the
  hub of \<open>stream/hub.rs\<close>, whose topic channel feeds the fan-out of \<open>stream/ws.rs\<close>. The broadcast channel is
  third-party: \<open>sent\<close> is what has been sent on a channel and \<open>recv\<close> what a receiver answers for the ticks sent since
  it subscribed; the laws are those of its documentation, for a receiver that is not behind by more than the
  capacity.
\<close>

section \<open>Specification vocabulary\<close>

definition broadcast_log :: "'c broadcast_ops \<Rightarrow> ('c \<Rightarrow> StreamTick list) \<Rightarrow> bool" where
  "broadcast_log bc sent \<longleftrightarrow>
     (\<forall>t c. sent (bc_send bc t c) = sent c @ [t]) \<and> (\<forall>c. sent (bc_subscribe bc c) = sent c)
   \<and> (\<forall>c. sent (bc_drop bc c) = sent c)"

definition receiver_law :: "nat \<Rightarrow> (StreamTick list \<Rightarrow> TryRecv list) \<Rightarrow> bool" where
  "receiver_law capacity recv \<longleftrightarrow> (\<forall>ticks. length ticks \<le> capacity \<longrightarrow> recv ticks = map Tick ticks)"

definition nonblank :: "bytes \<Rightarrow> bool" where
  "nonblank line \<longleftrightarrow> takeWhile (\<lambda>b. b \<noteq> NL) line \<noteq> []"

text \<open>The frames a topic is owed for a list of lines: the encoded rows of the lines it covers, in order.\<close>

definition topic_frames ::
    "memchr_fn \<Rightarrow> (IlpRow \<Rightarrow> bytes option) \<Rightarrow> StreamConfig \<Rightarrow> TableRegistry \<Rightarrow> string \<Rightarrow> bytes list \<Rightarrow> bytes list" where
  "topic_frames mc enc config registry topic lines =
     map (\<lambda>row. the (enc row)) (List.map_filter (published_row mc enc config registry topic) (filter nonblank lines))"

section \<open>Lemmas\<close>

lemma dedup_fresh:
  "distinct (map tick_ptr ts) \<Longrightarrow> set seen \<inter> tick_ptr ` set ts = {} \<Longrightarrow> dedup seen ts = ts"
  by (induction ts arbitrary: seen) auto

lemma ticks_of_ticks [simp]: "ticks_of (map Tick ts) = ts"
  by (induction ts) auto

lemma forward_lines_stream:
  "forward_lines env lines st fwd = (Inr x, st', fwd') \<Longrightarrow>
     as_stream st' = map_option (fold (publish (env_bc env) (env_memchr env) (env_enc env)) (filter nonblank lines)) (as_stream st)"
proof (induction lines arbitrary: st fwd)
  case Nil
  then show ?case by (cases "as_stream st") auto
next
  case (Cons line lines)
  from Cons.prems obtain y st1 fwd1 where r: "route_and_buffer env st fwd line = (Inr y, st1, fwd1)"
    and f: "forward_lines env lines st1 fwd1 = (Inr x, st', fwd')"
    by (auto simp: forward_line_def split: prod.splits sum.splits)
  from r have "as_stream st1 =
      (if nonblank line then map_option (publish (env_bc env) (env_memchr env) (env_enc env) line) (as_stream st) else as_stream st)"
    by (auto simp: route_and_buffer_def Let_def nonblank_def split: if_splits sum.splits prod.splits)
  with Cons.IH [OF f] show ?case by (cases "as_stream st") auto
qed

lemma publish_live_tick:
  assumes log: "broadcast_log bc sent" and ch: "hub_topics hub topic = Some ch" and live: "bc_receiver_count bc (ch_tx ch) > 0"
  shows "\<exists>ch'. hub_topics (publish bc mc enc line hub) topic = Some ch'
    \<and> sent (ch_tx ch') = sent (ch_tx ch) @
        (case published_row mc enc (hub_config hub) (hub_registry hub) topic line of
           Some row \<Rightarrow> [\<lparr> tick_row = row, tick_wire = the (enc row), tick_ptr = hub_next_ptr hub \<rparr>] | None \<Rightarrow> [])
    \<and> hub_next_ptr (publish bc mc enc line hub) \<ge> hub_next_ptr hub
        + (if published_row mc enc (hub_config hub) (hub_registry hub) topic line = None then 0 else 1)"
  using ch live live_topic_has_subscribers [OF ch live] log
  by (auto simp: publish_def Let_def published_row_def send_to_topic_def get_or_create_topic_def wake_waiters_def
      record_stream_tick_published_def topic_receiver_count_def broadcast_log_def split: option.splits)

lemma publish_run_log:
  assumes laws: "broadcast_laws bc" and log: "broadcast_log bc sent"
  shows "hub_topics hub topic = Some ch \<Longrightarrow> bc_receiver_count bc (ch_tx ch) > 0 \<Longrightarrow>
    \<exists>ch' ticks. hub_topics (fold (publish bc mc enc) lines hub) topic = Some ch' \<and> sent (ch_tx ch') = sent (ch_tx ch) @ ticks
      \<and> distinct (map tick_ptr ticks) \<and> (\<forall>t \<in> set ticks. hub_next_ptr hub \<le> tick_ptr t)
      \<and> map tick_wire ticks = map (\<lambda>row. the (enc row))
          (List.map_filter (published_row mc enc (hub_config hub) (hub_registry hub) topic) lines)"
proof (induction lines arbitrary: hub ch)
  case Nil
  then show ?case by (simp add: List.map_filter_simps)
next
  case (Cons line lines)
  let ?hub = "publish bc mc enc line hub" and ?row = "published_row mc enc (hub_config hub) (hub_registry hub) topic line"
  from publish_live_tick [OF log Cons.prems, of mc enc line] publish_live_topic [OF laws Cons.prems, of mc enc line]
  obtain ch1 where ch1: "hub_topics ?hub topic = Some ch1" "bc_receiver_count bc (ch_tx ch1) > 0"
    "sent (ch_tx ch1) = sent (ch_tx ch) @ (case ?row of
       Some row \<Rightarrow> [\<lparr> tick_row = row, tick_wire = the (enc row), tick_ptr = hub_next_ptr hub \<rparr>] | None \<Rightarrow> [])"
    "hub_next_ptr ?hub \<ge> hub_next_ptr hub + (if ?row = None then 0 else 1)"
    using Cons.prems(2) by auto
  from Cons.IH [OF ch1(1,2)] obtain ch' ticks where
    rest: "hub_topics (fold (publish bc mc enc) lines ?hub) topic = Some ch'" "sent (ch_tx ch') = sent (ch_tx ch1) @ ticks"
      "distinct (map tick_ptr ticks)" "\<forall>t \<in> set ticks. hub_next_ptr ?hub \<le> tick_ptr t"
      "map tick_wire ticks = map (\<lambda>row. the (enc row))
          (List.map_filter (published_row mc enc (hub_config hub) (hub_registry hub) topic) lines)"
    by auto
  show ?case
  proof (cases ?row)
    case None
    with ch1 rest show ?thesis by (intro exI [of _ ch'] exI [of _ ticks]) (auto simp: List.map_filter_simps intro: order_trans)
  next
    case (Some row)
    let ?tick = "\<lparr> tick_row = row, tick_wire = the (enc row), tick_ptr = hub_next_ptr hub \<rparr>"
    from Some ch1 rest show ?thesis
      by (intro exI [of _ ch'] exI [of _ "?tick # ticks"]) (fastforce simp: List.map_filter_simps)
  qed
qed

lemma subscribed_topic:
  assumes "broadcast_laws bc" and "broadcast_log bc sent"
  shows "\<exists>ch. hub_topics (subscribe bc topic hub) topic = Some ch \<and> bc_receiver_count bc (ch_tx ch) > 0
    \<and> sent (ch_tx ch) = sent (ch_tx (get_or_create_topic bc topic hub))"
  using assms broadcast_lawsD(3) [OF assms(1)] by (simp add: subscribe_topics broadcast_log_def)

lemma drain_ticks:
  "\<exists>st'. drain_receiver max_lag (map Tick ts) st = (Drained, [], st') \<and> ds_lag_drops st' = ds_lag_drops st"
proof (induction ts arbitrary: st)
  case (Cons t ts)
  from Cons [of st] Cons [of "st\<lparr>ds_seen := ds_seen st @ [tick_ptr t], ds_pending := ds_pending st @ [tick_wire t], ds_got_any := True\<rparr>"]
  show ?case by auto
qed simp

lemma fanout_pass_ticks:
  assumes "lag < max_lag" and "length q \<le> OUTBOUND_CAPACITY" and "distinct (map tick_ptr ts)"
  shows "\<exists>subs' out'. fanout_pass max_lag [(topic, map Tick ts)] lag \<lparr> ob_queue = q, ob_lagged_metric = k \<rparr> = (ts \<noteq> [], subs', lag, out')
    \<and> ob_queue out' = last_n OUTBOUND_CAPACITY (q @ map tick_wire ts)"
proof -
  let ?out = "\<lparr> ob_queue = q, ob_lagged_metric = k \<rparr>"
  obtain got subs' lag' out' where p: "fanout_pass max_lag [(topic, map Tick ts)] lag ?out = (got, subs', lag', out')"
    by (metis prod_cases4)
  have "lag' = lag"
    using drain_ticks [of max_lag ts "\<lparr> ds_seen = [], ds_pending = [], ds_lag_drops = lag, ds_got_any = False, ds_lagged_metric = 0 \<rparr>"] p
    by (auto simp: fanout_pass_def drain_subscriptions_def)
  with fanout_pass_frames [OF p] assms dedup_fresh [OF assms(3), of "[]"] have
    "got = (ts \<noteq> [])" "out' = fold enqueue_frame (map tick_wire ts) ?out" by (simp_all add: Let_def)
  moreover have "last_n OUTBOUND_CAPACITY q = q" using assms(2) by (simp add: last_n_def)
  ultimately show ?thesis
    using p \<open>lag' = lag\<close> outbound.run_last_n [of "map tick_wire ts" q] by (simp add: enqueue_run)
qed

section \<open>Properties\<close>

text \<open>
  C18. Written lines reach the stream. A client has subscribed to a topic, and lines have been forwarded without an error,
  at most as many for the topic as the channel holds, and its count of lag drops is below the limit. Then one pass of the fan-out that nothing interrupts
  takes from the channel the encoded rows of the non-blank lines of sharded tables that carry the topic, in the order they were
  written and each once, and nothing else: the outbound queue ends up with the last \<open>OUTBOUND_CAPACITY\<close> (256) of what it held and
  these rows. If all of them fit, none is lost and the queue has grown by exactly these rows; of a larger
  burst the oldest frames are dropped. What the writer takes from the queue meanwhile is the subject of \<open>Stream_Session\<close>.
\<close>

theorem written_lines_reach_subscribers:
  assumes "broadcast_laws (env_bc env)" and "broadcast_log (env_bc env) sent"
    and "receiver_law (st_broadcast_capacity (hub_config hub)) recv"
    and "as_stream st = Some (subscribe (env_bc env) topic hub)" and "forward_lines env lines st fwd = (Inr x, st', fwd')"
    and frames: "frames = topic_frames (env_memchr env) (env_enc env) (hub_config hub) (hub_registry hub) topic lines"
    and "length frames \<le> st_broadcast_capacity (hub_config hub)" and "length q \<le> OUTBOUND_CAPACITY" and "lag < max_lag"
  shows "\<exists>hub' ch subs' out'. as_stream st' = Some hub' \<and> hub_topics hub' topic = Some ch
    \<and> fanout_pass max_lag
        [(topic, recv (drop (length (sent (ch_tx (get_or_create_topic (env_bc env) topic hub)))) (sent (ch_tx ch))))]
        lag \<lparr> ob_queue = q, ob_lagged_metric = k \<rparr> = (frames \<noteq> [], subs', lag, out')
    \<and> ob_queue out' = last_n OUTBOUND_CAPACITY (q @ frames)
    \<and> (length q + length frames \<le> OUTBOUND_CAPACITY \<longrightarrow> ob_queue out' = q @ frames)"
proof -
  let ?publish = "publish (env_bc env) (env_memchr env) (env_enc env)"
  let ?hub' = "fold ?publish (filter nonblank lines) (subscribe (env_bc env) topic hub)"
  from forward_lines_stream [OF assms(5)] assms(4) have hub': "as_stream st' = Some ?hub'" by simp
  from subscribed_topic [OF assms(1,2), of topic hub] obtain ch0 where
    ch0: "hub_topics (subscribe (env_bc env) topic hub) topic = Some ch0" "bc_receiver_count (env_bc env) (ch_tx ch0) > 0"
      "sent (ch_tx ch0) = sent (ch_tx (get_or_create_topic (env_bc env) topic hub))" by blast
  from publish_run_log [OF assms(1,2) ch0(1,2), of "env_memchr env" "env_enc env" "filter nonblank lines"] obtain ch ticks where
    ch: "hub_topics ?hub' topic = Some ch" "sent (ch_tx ch) = sent (ch_tx ch0) @ ticks" "distinct (map tick_ptr ticks)"
      "map tick_wire ticks = frames" by (auto simp: frames topic_frames_def)
  have "length ticks = length frames" using ch(4) by (metis length_map)
  then have "recv ticks = map Tick ticks" and "ticks \<noteq> [] \<longleftrightarrow> frames \<noteq> []"
    using assms(3,7) by (auto simp: receiver_law_def)
  moreover have "last_n OUTBOUND_CAPACITY (q @ frames) = q @ frames" if "length q + length frames \<le> OUTBOUND_CAPACITY"
    using that by (simp add: last_n_def)
  ultimately show ?thesis
    using fanout_pass_ticks [OF assms(9,8) ch(3), of topic k] ch hub' ch0(3) by auto
qed

text \<open>A hub with one subscriber on the topic BTC, for the witness.\<close>

definition demo_flow_env :: "(VNode list, nat \<times> StreamTick list) ilp_env" where
  "demo_flow_env = (demo_env good_net)\<lparr>env_enc := \<lambda>row. Some (render_row row)\<rparr>"

definition demo_flow_app :: "(VNode list, nat \<times> StreamTick list, nat) AppState" where
  "demo_flow_app = demo_ilp_app\<lparr>as_stream := Some (subscribe ref_bc ''BTC'' demo_hub)\<rparr>"

lemma ref_bc_log: "broadcast_log ref_bc snd"
  by (simp add: broadcast_log_def ref_bc_def)

theorem written_lines_reach_subscribers_witness:
  "\<exists>st' fwd' hub' ch subs' out'. forward_lines demo_flow_env [render_row demo_row @ [NL]] demo_flow_app forwarder_new = (Inr (), st', fwd')
     \<and> as_stream st' = Some hub' \<and> hub_topics hub' ''BTC'' = Some ch
     \<and> fanout_pass 10 [(''BTC'', map Tick (snd (ch_tx ch)))] 0 \<lparr> ob_queue = [], ob_lagged_metric = 0 \<rparr> = (True, subs', 0, out')
     \<and> ob_queue out' = [render_row demo_row]"
proof -
  let ?line = "render_row demo_row @ [NL]"
  have m: "measurement_from_ilp_bytes memchr_ref ?line = Some ''trades''" and n: "nonblank ?line" by code_simp+
  have b: "is_broadcastable ''trades'' (hub_registry demo_hub)" by (simp add: demo_hub_def hub_new_def) code_simp
  have t: "derive_topic demo_row (hub_config demo_hub) = ''BTC''"
    by (simp add: demo_hub_def hub_new_def) code_simp
  have env: "env_bc demo_flow_env = ref_bc" "env_memchr demo_flow_env = memchr_ref" "env_enc demo_flow_env = (\<lambda>row. Some (render_row row))"
    "net_reliable (env_net demo_flow_env)"
    by (simp_all add: demo_flow_env_def demo_env_def net_reliable_def good_net_def)
  have routes: "\<forall>line. \<exists>shard. route_line demo_flow_env (as_metadata demo_ilp_app) line = Inr shard"
    using demo_routes [of good_net] by (simp add: demo_flow_env_def route_line_def)
  from reliable_lines [OF env(4) routes, of demo_flow_app "[?line]" forwarder_new] obtain st' fwd'
    where f: "forward_lines demo_flow_env [?line] demo_flow_app forwarder_new = (Inr (), st', fwd')"
    by (auto simp: demo_flow_app_def)
  have frames: "topic_frames memchr_ref (\<lambda>row. Some (render_row row)) (hub_config demo_hub) (hub_registry demo_hub) ''BTC'' [?line] = [render_row demo_row]"
    using n by (simp add: topic_frames_def published_row_def m b t parse_render_row [OF demo_row_plain] List.map_filter_simps)
  have cap: "1 \<le> st_broadcast_capacity (hub_config demo_hub)" and none: "get_or_create_topic ref_bc ''BTC'' demo_hub = \<lparr> ch_tx = (0, []), ch_replay = [] \<rparr>"
    by (simp_all add: demo_hub_def hub_new_def default_stream_def get_or_create_topic_def ref_bc_def)
  have "receiver_law (st_broadcast_capacity (hub_config demo_hub)) (map Tick)" by (simp add: receiver_law_def)
  from written_lines_reach_subscribers [where env = demo_flow_env and sent = snd and topic = "''BTC''" and lag = 0 and max_lag = 10
      and q = "[]" and k = 0, OF _ _ this _ f refl] f cap show ?thesis
    by (auto simp: env ref_bc_laws ref_bc_log demo_flow_app_def frames none last_n_def OUTBOUND_CAPACITY_def)
qed

end
