(* ===== verification/Ingest_Checkpoint.thy ===== *)
theory Ingest_Checkpoint
  imports Router_Prelude
begin

text \<open>
  The checkpoint of processed objects, \<open>ingest/checkpoint.rs\<close>. JSON encoding and decoding of the
  entries are third-party and parameters (\<open>ser\<close>, \<open>de\<close>). The file system is a map from paths to
  contents; each of its operations can fail or be cut short by a crash, which the parameter \<open>fault\<close>
  decides, together with the number of bytes that an interrupted write has put into its file.
\<close>

record ProcessedMeta =
  pm_etag :: "string option"
  pm_processed_at :: nat
  pm_rows :: u64

type_synonym entries = "string \<rightharpoonup> ProcessedMeta"

record CheckpointStore =
  cp_path :: string
  cp_entries :: entries

datatype CheckpointError = Io string | Json string

type_synonym files = "string \<rightharpoonup> bytes"

datatype file_op = CreateDirAll string | WriteFile string bytes | Rename string string

type_synonym fault_fn = "file_op \<Rightarrow> (string \<times> nat) option"

section \<open>Operations\<close>

definition encode :: "string \<Rightarrow> string \<Rightarrow> string" where
  "encode bucket key = bucket @ [CHR 0x00] @ key"

definition load :: "(string \<Rightarrow> string + entries) \<Rightarrow> files \<Rightarrow> string \<Rightarrow> CheckpointError + CheckpointStore" where
  "load de fs path =
     (case fs path of
        None \<Rightarrow> Inr \<lparr> cp_path = path, cp_entries = Map.empty \<rparr>
      | Some raw \<Rightarrow>
          (case from_utf8 raw of
             None \<Rightarrow> Inl (Io ''stream did not contain valid UTF-8'')
           | Some data \<Rightarrow>
               if trim data = [] then Inr \<lparr> cp_path = path, cp_entries = Map.empty \<rparr>
               else (case de data of
                       Inl e \<Rightarrow> Inl (Json e)
                     | Inr entries \<Rightarrow> Inr \<lparr> cp_path = path, cp_entries = entries \<rparr>)))"

definition should_process :: "CheckpointStore \<Rightarrow> string \<Rightarrow> string \<Rightarrow> string option \<Rightarrow> bool" where
  "should_process cp bucket key etag =
     (case cp_entries cp (encode bucket key) of
        None \<Rightarrow> True
      | Some meta \<Rightarrow>
          (case (pm_etag meta, etag) of
             (Some stored, Some current) \<Rightarrow> stored \<noteq> current
           | _ \<Rightarrow> True))"

definition contains :: "CheckpointStore \<Rightarrow> string \<Rightarrow> string \<Rightarrow> bool" where
  "contains cp bucket key \<longleftrightarrow> cp_entries cp (encode bucket key) \<noteq> None"

text \<open>
  \<open>Path::parent\<close> and \<open>Path::with_extension\<close> for a path that ends in a file name: the directory part,
  and the file name with what follows its last dot replaced (a leading dot does not count).
\<close>

definition path_parent :: "string \<Rightarrow> string" where
  "path_parent path = (case rsplit_once CHR ''/'' path of None \<Rightarrow> '''' | Some (dir, name) \<Rightarrow> dir)"

definition with_extension :: "string \<Rightarrow> string \<Rightarrow> string" where
  "with_extension path ext =
     (let (dir, name) = (case rsplit_once CHR ''/'' path of None \<Rightarrow> ([], path) | Some (d, n) \<Rightarrow> (d @ ''/'', n));
          stem = (case rsplit_once CHR ''.'' name of None \<Rightarrow> name | Some (s, e) \<Rightarrow> if s = [] then name else s)
      in dir @ stem @ ''.'' @ ext)"

definition persist_ops :: "string \<Rightarrow> bytes \<Rightarrow> file_op list" where
  "persist_ops path data =
     [WriteFile (with_extension path ''tmp'') data, Rename (with_extension path ''tmp'') path]"

fun apply_op :: "file_op \<Rightarrow> files \<Rightarrow> files" where
  "apply_op (CreateDirAll d) fs = fs"
| "apply_op (WriteFile p data) fs = fs(p \<mapsto> data)"
| "apply_op (Rename a b) fs = (case fs a of Some data \<Rightarrow> (fs(a := None))(b \<mapsto> data) | None \<Rightarrow> fs)"

text \<open>An operation that fails changes nothing, except that a write leaves a truncated file.\<close>

fun interrupt_op :: "nat \<Rightarrow> file_op \<Rightarrow> files \<Rightarrow> files" where
  "interrupt_op n (WriteFile p data) fs = fs(p \<mapsto> take n data)"
| "interrupt_op n op fs = fs"

fun run_ops :: "fault_fn \<Rightarrow> file_op list \<Rightarrow> files \<Rightarrow> (CheckpointError + unit) \<times> files" where
  "run_ops fault [] fs = (Inr (), fs)"
| "run_ops fault (op # ops) fs =
     (case fault op of
        Some (e, n) \<Rightarrow> (Inl (Io e), interrupt_op n op fs)
      | None \<Rightarrow> run_ops fault ops (apply_op op fs))"

definition persist ::
    "(entries \<Rightarrow> string + string) \<Rightarrow> fault_fn \<Rightarrow> CheckpointStore \<Rightarrow> files
       \<Rightarrow> (CheckpointError + unit) \<times> files" where
  "persist ser fault cp fs =
     (let parent = path_parent (cp_path cp);
          dir_fault = (if parent \<noteq> [] then fault (CreateDirAll parent) else None)
      in case dir_fault of
           Some (e, n) \<Rightarrow> (Inl (Io e), fs)
         | None \<Rightarrow>
             (case ser (cp_entries cp) of
                Inl e \<Rightarrow> (Inl (Json e), fs)
              | Inr data \<Rightarrow> run_ops fault (persist_ops (cp_path cp) data) fs))"

definition mark_processed ::
    "(entries \<Rightarrow> string + string) \<Rightarrow> fault_fn \<Rightarrow> nat \<Rightarrow> string \<Rightarrow> string \<Rightarrow> string option \<Rightarrow> u64
       \<Rightarrow> CheckpointStore \<Rightarrow> files \<Rightarrow> (CheckpointError + unit) \<times> CheckpointStore \<times> files" where
  "mark_processed ser fault now bucket key etag rows cp fs =
     (let cp' = cp\<lparr>cp_entries := (cp_entries cp)(encode bucket key \<mapsto>
                    \<lparr> pm_etag = etag, pm_processed_at = now, pm_rows = rows \<rparr>)\<rparr>
      in case persist ser fault cp' fs of (r, fs') \<Rightarrow> (r, cp', fs'))"

section \<open>Specification vocabulary\<close>

text \<open>What the loader relies on of the JSON library: it reads back what it wrote, as non-blank text.\<close>

definition json_laws :: "(entries \<Rightarrow> string + string) \<Rightarrow> (string \<Rightarrow> string + entries) \<Rightarrow> bool" where
  "json_laws ser de \<longleftrightarrow>
     (\<forall>m data. ser m = Inr data \<longrightarrow> de data = Inr m \<and> valid_utf8 data \<and> trim data \<noteq> [])"

section \<open>Lemmas\<close>

lemma encode_inj:
  "CHR 0x00 \<notin> set b \<Longrightarrow> CHR 0x00 \<notin> set b' \<Longrightarrow> encode b k = encode b' k' \<longleftrightarrow> b = b' \<and> k = k'"
proof (induction b arbitrary: b')
  case Nil
  then show ?case by (cases b') (auto simp: encode_def)
next
  case (Cons c b)
  then show ?case by (cases b') (auto simp: encode_def)
qed

lemma run_persist_ops:
  assumes "with_extension path ''tmp'' \<noteq> path" and "run_ops fault (persist_ops path data) fs = (r, fs')"
  shows "fs' path \<in> {fs path, Some data}" and "r = Inr () \<Longrightarrow> fs' path = Some data"
  using assms by (auto simp: persist_ops_def split: option.splits)

lemma load_content:
  assumes "json_laws ser de" and "ser m = Inr data" and "fs path = Some data"
  shows "load de fs path = Inr \<lparr> cp_path = path, cp_entries = m \<rparr>"
  using assms by (auto simp: json_laws_def load_def from_utf8_def)

lemma load_cong: "fs path = fs' path \<Longrightarrow> load de fs path = load de fs' path"
  by (simp add: load_def)

lemma persist_run:
  assumes "json_laws ser de" and tmp: "with_extension path ''tmp'' \<noteq> path"
    and m: "ser m = Inr data" and run: "run_ops fault (persist_ops path data) fs = (r, fs')"
  shows "load de fs' path \<in> {load de fs path, Inr \<lparr> cp_path = path, cp_entries = m \<rparr>}"
    and "r = Inr () \<Longrightarrow> load de fs' path = Inr \<lparr> cp_path = path, cp_entries = m \<rparr>"
proof -
  note load = load_content [OF assms(1) m, of fs' path]
  from run_persist_ops(1) [OF tmp run] have "fs' path \<in> {fs path, Some data}" .
  with load load_cong [of fs' path fs de]
  show "load de fs' path \<in> {load de fs path, Inr \<lparr> cp_path = path, cp_entries = m \<rparr>}" by auto
  show "load de fs' path = Inr \<lparr> cp_path = path, cp_entries = m \<rparr>" if "r = Inr ()"
    using run_persist_ops(2) [OF tmp run that] by (rule load)
qed

text \<open>An instance of the JSON parameters for the witnesses: it knows one map.\<close>

definition demo_entries :: entries where
  "demo_entries = [encode ''b'' ''k'' \<mapsto> \<lparr> pm_etag = Some ''e1'', pm_processed_at = 0, pm_rows = 3 \<rparr>]"

definition demo_ser :: "entries \<Rightarrow> string + string" where
  "demo_ser m = (if m = demo_entries then Inr ''x'' else Inl ''no'')"

definition demo_de :: "string \<Rightarrow> string + entries" where
  "demo_de s = (if s = ''x'' then Inr demo_entries else Inl ''no'')"

lemma demo_json: "json_laws demo_ser demo_de"
proof -
  have "valid_utf8 ''x''" "trim ''x'' = ''x''" by code_simp+
  then show ?thesis by (auto simp: json_laws_def demo_ser_def demo_de_def)
qed

section \<open>Properties\<close>

text \<open>
  C24. The checkpoint is crash-safe: whichever file operation of \<open>mark_processed\<close> fails or is cut short
  after any number of bytes, a later load of the file sees either exactly what it saw before or exactly
  the updated entries, never a partial file; and when \<open>mark_processed\<close> reports success it sees the update.
\<close>

theorem checkpoint_is_crash_safe:
  assumes "json_laws ser de" and "with_extension (cp_path cp) ''tmp'' \<noteq> cp_path cp"
    and "mark_processed ser fault now bucket key etag rows cp fs = (r, cp', fs')"
  shows "load de fs' (cp_path cp) \<in> {load de fs (cp_path cp), Inr cp'}
    \<and> (r = Inr () \<longrightarrow> load de fs' (cp_path cp) = Inr \<lparr> cp_path = cp_path cp, cp_entries = cp_entries cp' \<rparr>)"
proof -
  from assms(3) have p: "persist ser fault cp' fs = (r, fs')" and path: "cp_path cp' = cp_path cp"
    by (auto simp: mark_processed_def Let_def split: prod.splits)
  then have eq: "cp' = \<lparr> cp_path = cp_path cp, cp_entries = cp_entries cp' \<rparr>" by (cases cp') simp
  consider "fs' = fs" "r \<noteq> Inr ()" | data where "ser (cp_entries cp') = Inr data"
      "run_ops fault (persist_ops (cp_path cp) data) fs = (r, fs')"
    using p path by (auto simp: persist_def Let_def split: option.splits sum.splits if_splits)
  then show ?thesis
  proof cases
    case 1
    then show ?thesis by simp
  next
    case (2 data)
    from persist_run [OF assms(1,2) 2] eq show ?thesis by auto
  qed
qed

theorem checkpoint_is_crash_safe_witness:
  "load demo_de (snd (snd (mark_processed demo_ser (\<lambda>_. None) 0 ''b'' ''k'' (Some ''e1'') 3
       \<lparr> cp_path = ''d/c.json'', cp_entries = Map.empty \<rparr> Map.empty))) ''d/c.json''
   = Inr \<lparr> cp_path = ''d/c.json'', cp_entries = demo_entries \<rparr>"
proof -
  let ?cp = "\<lparr> cp_path = ''d/c.json'', cp_entries = Map.empty \<rparr>"
  have tmp: "with_extension ''d/c.json'' ''tmp'' = ''d/c.tmp''" by code_simp
  obtain fs' where m: "mark_processed demo_ser (\<lambda>_. None) 0 ''b'' ''k'' (Some ''e1'') 3 ?cp Map.empty
      = (Inr (), \<lparr> cp_path = ''d/c.json'', cp_entries = demo_entries \<rparr>, fs')"
    by (simp add: mark_processed_def persist_def demo_ser_def demo_entries_def persist_ops_def Let_def)
  from checkpoint_is_crash_safe [OF demo_json _ m] m tmp show ?thesis by simp
qed

text \<open>
  What the checkpoint skips: after an object has been marked, the same object with the same etag
  is skipped, with another etag it is processed, and objects of any other bucket or key are
  unaffected (names without the separator byte cannot collide). An object marked without an etag is
  never skipped.
\<close>

theorem checkpoint_skips_same_etag:
  assumes "mark_processed ser fault now bucket key etag rows cp fs = (r, cp', fs')"
    and "CHR 0x00 \<notin> set bucket" and "CHR 0x00 \<notin> set bucket'"
  shows "should_process cp' bucket' key' etag' \<longleftrightarrow>
    (if (bucket', key') = (bucket, key) then etag = None \<or> etag' = None \<or> etag \<noteq> etag'
     else should_process cp bucket' key' etag')"
proof -
  from assms(1) have cp': "cp_entries cp' = (cp_entries cp)(encode bucket key \<mapsto>
      \<lparr> pm_etag = etag, pm_processed_at = now, pm_rows = rows \<rparr>)"
    by (auto simp: mark_processed_def Let_def split: prod.splits)
  show ?thesis
  proof (cases "(bucket', key') = (bucket, key)")
    case True
    then show ?thesis by (auto simp: should_process_def cp' split: option.splits)
  next
    case False
    then have "encode bucket' key' \<noteq> encode bucket key" using encode_inj [OF assms(3,2)] by auto
    then have "should_process cp' bucket' key' etag' = should_process cp bucket' key' etag'"
      by (simp add: should_process_def cp')
    with False show ?thesis by (simp only: if_False)
  qed
qed

theorem checkpoint_skips_same_etag_witness:
  "\<not> should_process (fst (snd (mark_processed demo_ser (\<lambda>_. None) 0 ''b'' ''k'' (Some ''e1'') 3
      \<lparr> cp_path = ''c'', cp_entries = Map.empty \<rparr> Map.empty))) ''b'' ''k'' (Some ''e1'')"
proof -
  obtain r cp' fs' where m: "mark_processed demo_ser (\<lambda>_. None) 0 ''b'' ''k'' (Some ''e1'') 3
      \<lparr> cp_path = ''c'', cp_entries = Map.empty \<rparr> Map.empty = (r, cp', fs')" by (rule prod_cases3)
  from checkpoint_skips_same_etag [OF m, of "''b''" "''k''" "Some ''e1''"] m show ?thesis by simp
qed

end
