(* ===== verification/Ingest_Events.thy ===== *)
theory Ingest_Events
  imports Ingest_Checkpoint Router_Config
begin

text \<open>
  How objects reach the ingest actor: notifications (\<open>ingest/events.rs\<close>), the webhook
  (\<open>ingest/http.rs\<close>), the reconcile scan (\<open>ingest/reconcile.rs\<close>) with the filtered listing of
  \<open>ingest/fetcher.rs\<close>, and the bounded mailbox of \<open>ingest/actor.rs\<close>. JSON decoding of a notification
  and the object store are third-party and parameters.
\<close>

section \<open>Notifications\<close>

record ObjectRef =
  or_bucket :: string
  or_key :: string
  or_etag :: "string option"
  or_event_name :: string

record S3Object =
  so_key :: string
  so_etag :: "string option"

record S3Entity =
  se_bucket_name :: string
  se_object :: S3Object

record S3Record =
  sr_event_name :: "string option"
  sr_s3 :: "S3Entity option"

record S3NotificationEnvelope =
  ne_records :: "S3Record list"
  ne_event_name :: "string option"
  ne_key :: "string option"

definition decode_object_key :: "string \<Rightarrow> string" where
  "decode_object_key key = replace_sub ''+'' '' '' (replace_sub ''%20'' '' '' key)"

definition should_ingest_key :: "string \<Rightarrow> bool" where
  "should_ingest_key key =
     (if ends_with key ''/'' then False
      else let lower = to_ascii_lowercase key
           in if \<not> (ends_with lower ''.feather'' \<or> ends_with lower ''.arrow'') then False
              else if ends_with lower ''.part'' \<or> ends_with lower ''.tmp'' then False
              else True)"

definition matches_prefix :: "string \<Rightarrow> string \<Rightarrow> bool" where
  "matches_prefix key pre = (if pre = [] then True else starts_with key pre)"

definition split_bucket_key :: "string \<Rightarrow> (string \<times> string) option" where
  "split_bucket_key full = split_once CHR ''/'' full"

definition normalize_key :: "string \<Rightarrow> string \<Rightarrow> string \<Rightarrow> string option \<Rightarrow> ObjectRef option" where
  "normalize_key event_name bucket key_or_full etag =
     (if \<not> starts_with event_name ''s3:ObjectCreated:'' then None
      else case (if CHR ''/'' \<in> set key_or_full \<and> bucket = [] then split_bucket_key key_or_full
                 else if bucket = [] then None
                 else Some (bucket, key_or_full)) of
             None \<Rightarrow> None
           | Some (b, k) \<Rightarrow>
               if \<not> should_ingest_key k then None
               else Some \<lparr> or_bucket = b, or_key = k, or_etag = etag, or_event_name = event_name \<rparr>)"

definition record_ref :: "string \<Rightarrow> S3Record \<Rightarrow> ObjectRef option" where
  "record_ref default_bucket r =
     (case sr_s3 r of
        None \<Rightarrow> None
      | Some s3 \<Rightarrow>
          normalize_key (case sr_event_name r of Some e \<Rightarrow> e | None \<Rightarrow> '''')
            (if se_bucket_name s3 = [] then default_bucket else se_bucket_name s3)
            (decode_object_key (so_key (se_object s3))) (so_etag (se_object s3)))"

definition parse_notification ::
    "(string \<Rightarrow> string + S3NotificationEnvelope) \<Rightarrow> string \<Rightarrow> string \<Rightarrow> string + ObjectRef list" where
  "parse_notification de body default_bucket =
     (case de body of
        Inl e \<Rightarrow> Inl e
      | Inr envelope \<Rightarrow>
          if ne_records envelope = [] then
            Inr (case (ne_event_name envelope, ne_key envelope) of
                   (Some event_name, Some key) \<Rightarrow>
                     (case normalize_key event_name default_bucket key None of Some r \<Rightarrow> [r] | None \<Rightarrow> [])
                 | _ \<Rightarrow> [])
          else Inr (List.map_filter (record_ref default_bucket) (ne_records envelope)))"

section \<open>The mailbox\<close>

datatype IngestSource = Webhook | Reconcile

record ProcessObject =
  po_bucket :: string
  po_key :: string
  po_etag :: "string option"
  po_source :: IngestSource

record Mailbox =
  mb_queue :: "ProcessObject list"
  mb_capacity :: nat

text \<open>\<open>try_send\<close>: refused when the mailbox is full; the actor keeps its end open while it runs.\<close>

definition enqueue :: "ProcessObject \<Rightarrow> Mailbox \<Rightarrow> Mailbox option" where
  "enqueue msg mb =
     (if length (mb_queue mb) < mb_capacity mb then Some (mb\<lparr>mb_queue := mb_queue mb @ [msg]\<rparr>) else None)"

definition mailbox_depth :: "Mailbox \<Rightarrow> nat" where
  "mailbox_depth mb = mb_capacity mb - (mb_capacity mb - length (mb_queue mb))"

section \<open>The webhook\<close>

datatype StatusCode = StatusOk | BadRequest | ServiceUnavailable

record HttpState =
  hs_default_bucket :: string
  hs_prefix :: string

fun enqueue_refs :: "string \<Rightarrow> ObjectRef list \<Rightarrow> Mailbox \<Rightarrow> StatusCode \<times> Mailbox" where
  "enqueue_refs pre [] mb = (StatusOk, mb)"
| "enqueue_refs pre (r # refs) mb =
     (if \<not> matches_prefix (or_key r) pre then enqueue_refs pre refs mb
      else case enqueue \<lparr> po_bucket = or_bucket r, po_key = or_key r, po_etag = or_etag r,
                          po_source = Webhook \<rparr> mb of
             None \<Rightarrow> (ServiceUnavailable, mb)
           | Some mb' \<Rightarrow> enqueue_refs pre refs mb')"

definition ingest_events ::
    "(string \<Rightarrow> string + S3NotificationEnvelope) \<Rightarrow> HttpState \<Rightarrow> string + string \<Rightarrow> Mailbox \<Rightarrow> StatusCode \<times> Mailbox" where
  "ingest_events de st body mb =
     (case body of
        Inl e \<Rightarrow> (BadRequest, mb)
      | Inr body_str \<Rightarrow>
          (case parse_notification de body_str (hs_default_bucket st) of
             Inl e \<Rightarrow> (BadRequest, mb)
           | Inr refs \<Rightarrow> enqueue_refs (hs_prefix st) refs mb))"

section \<open>The reconcile scan\<close>

record ObjectMeta =
  om_location :: string
  om_e_tag :: "string option"

record ObjectFetcher =
  of_bucket :: string
  of_prefix :: string

definition fetcher_from_config :: "RustFsConfig \<Rightarrow> (RustFsConfig \<Rightarrow> string option) \<Rightarrow> string + ObjectFetcher" where
  "fetcher_from_config config build_error =
     (if rf_endpoint config = None then Inl ''ingest.rustfs.endpoint is required when ingest is enabled''
      else case rf_bucket config of
        None \<Rightarrow> Inl ''ingest.rustfs.bucket is required when ingest is enabled''
      | Some bucket \<Rightarrow>
          if rf_access_key config = None then Inl ''ingest.rustfs.access_key is required when ingest is enabled''
          else if rf_secret_key config = None then Inl ''ingest.rustfs.secret_key is required when ingest is enabled''
          else case build_error config of
            Some e \<Rightarrow> Inl e
          | None \<Rightarrow> Inr \<lparr> of_bucket = bucket, of_prefix = rf_prefix config \<rparr>)"

definition trim_end_slashes :: "string \<Rightarrow> string" where
  "trim_end_slashes s = rev (dropWhile (\<lambda>c. c = CHR ''/'') (rev s))"

text \<open>The store lists the objects below a path, each an error or its description.\<close>

fun collect_listed :: "string \<Rightarrow> (string + ObjectMeta) list \<Rightarrow> ObjectMeta list \<Rightarrow> string + ObjectMeta list" where
  "collect_listed pre [] objects = Inr objects"
| "collect_listed pre (Inl e # items) objects = Inl e"
| "collect_listed pre (Inr meta # items) objects =
     collect_listed pre items
       (if should_ingest_key (om_location meta) \<and> matches_prefix (om_location meta) pre
        then objects @ [meta] else objects)"

definition list_feather_objects ::
    "(string \<Rightarrow> (string + ObjectMeta) list) \<Rightarrow> ObjectFetcher \<Rightarrow> string + ObjectMeta list" where
  "list_feather_objects store f =
     collect_listed (of_prefix f) (store (trim_end_slashes (of_prefix f))) []"

fun reconcile_objects ::
    "CheckpointStore \<Rightarrow> string \<Rightarrow> ObjectMeta list \<Rightarrow> nat \<Rightarrow> Mailbox \<Rightarrow> nat \<times> Mailbox" where
  "reconcile_objects cp bucket [] lag mb = (lag, mb)"
| "reconcile_objects cp bucket (meta # objects) lag mb =
     (if contains cp bucket (om_location meta) then reconcile_objects cp bucket objects lag mb
      else case enqueue \<lparr> po_bucket = bucket, po_key = om_location meta, po_etag = om_e_tag meta,
                          po_source = Reconcile \<rparr> mb of
             None \<Rightarrow> (lag + 1, mb)
           | Some mb' \<Rightarrow> reconcile_objects cp bucket objects (lag + 1) mb')"

text \<open>One scan: the lag gauge it sets, if it gets that far, and the mailbox.\<close>

definition reconcile_once ::
    "(string \<Rightarrow> string + entries) \<Rightarrow> files \<Rightarrow> (string \<Rightarrow> (string + ObjectMeta) list) \<Rightarrow> ObjectFetcher \<Rightarrow> string
       \<Rightarrow> Mailbox \<Rightarrow> nat option \<times> Mailbox" where
  "reconcile_once de fs store f checkpoint_path mb =
     (case load de fs checkpoint_path of
        Inl e \<Rightarrow> (None, mb)
      | Inr cp \<Rightarrow>
          (case list_feather_objects store f of
             Inl e \<Rightarrow> (None, mb)
           | Inr objects \<Rightarrow>
               (case reconcile_objects cp (of_bucket f) objects 0 mb of (lag, mb') \<Rightarrow> (Some lag, mb'))))"

section \<open>The mailbox contract\<close>

text \<open>
  The two producers rely on one contract of the mailbox: a message is appended while there is room
  and refused otherwise. What follows for a producer that stops at the first refusal is proved once.
\<close>

locale bounded_mailbox =
  fixes send :: "'m \<Rightarrow> 's \<Rightarrow> 's option"
    and queued :: "'s \<Rightarrow> 'm list"
    and room :: "'s \<Rightarrow> nat"
  assumes send_room: "room mb > 0 \<Longrightarrow>
      \<exists>mb'. send m mb = Some mb' \<and> queued mb' = queued mb @ [m] \<and> Suc (room mb') = room mb"
    and send_full: "room mb = 0 \<Longrightarrow> send m mb = None"
begin

fun send_all :: "'m list \<Rightarrow> 's \<Rightarrow> bool \<times> 's" where
  "send_all [] mb = (True, mb)"
| "send_all (m # ms) mb = (case send m mb of None \<Rightarrow> (False, mb) | Some mb' \<Rightarrow> send_all ms mb')"

lemma send_all_spec:
  "send_all ms mb = (ok, mb') \<Longrightarrow>
     queued mb' = queued mb @ take (room mb) ms \<and> (ok \<longleftrightarrow> length ms \<le> room mb)
   \<and> room mb' = room mb - length ms"
proof (induction ms arbitrary: mb)
  case (Cons m ms)
  show ?case
  proof (cases "room mb")
    case 0
    with Cons.prems send_full [OF 0] show ?thesis by simp
  next
    case (Suc r)
    then obtain mb1 where mb1: "send m mb = Some mb1" "queued mb1 = queued mb @ [m]" "room mb1 = r"
      using send_room [of mb m] by auto
    with Cons.prems Cons.IH [of mb1] Suc show ?thesis by simp
  qed
qed simp

end

section \<open>Lemmas\<close>

definition mailbox_room :: "Mailbox \<Rightarrow> nat" where
  "mailbox_room mb = mb_capacity mb - length (mb_queue mb)"

interpretation mbox: bounded_mailbox enqueue mb_queue mailbox_room
  by unfold_locales (auto simp: enqueue_def mailbox_room_def)

lemma capacity_send_all: "mbox.send_all ms mb = (ok, mb') \<Longrightarrow> mb_capacity mb' = mb_capacity mb"
  by (induction ms arbitrary: mb) (auto simp: enqueue_def split: if_splits option.splits)

definition webhook_msg :: "ObjectRef \<Rightarrow> ProcessObject" where
  "webhook_msg r = \<lparr> po_bucket = or_bucket r, po_key = or_key r, po_etag = or_etag r, po_source = Webhook \<rparr>"

definition reconcile_msg :: "string \<Rightarrow> ObjectMeta \<Rightarrow> ProcessObject" where
  "reconcile_msg bucket meta =
     \<lparr> po_bucket = bucket, po_key = om_location meta, po_etag = om_e_tag meta, po_source = Reconcile \<rparr>"

lemma enqueue_refs_send_all:
  "enqueue_refs pre refs mb =
     (case mbox.send_all (map webhook_msg (filter (\<lambda>r. matches_prefix (or_key r) pre) refs)) mb of
        (ok, mb') \<Rightarrow> (if ok then StatusOk else ServiceUnavailable, mb'))"
  by (induction refs arbitrary: mb) (auto simp: webhook_msg_def split: option.splits)

lemma reconcile_objects_send_all:
  "reconcile_objects cp bucket objects lag mb =
     (let new = map (reconcile_msg bucket) (filter (\<lambda>m. \<not> contains cp bucket (om_location m)) objects)
      in case mbox.send_all new mb of (ok, mb') \<Rightarrow>
           (lag + (if ok then length new else mailbox_room mb + 1), mb'))"
proof (induction objects arbitrary: lag mb)
  case (Cons meta objects)
  have step: "reconcile_objects cp bucket (meta # objects) lag mb =
      (if contains cp bucket (om_location meta) then reconcile_objects cp bucket objects lag mb
       else case enqueue (reconcile_msg bucket meta) mb of
              None \<Rightarrow> (lag + 1, mb) | Some mb' \<Rightarrow> reconcile_objects cp bucket objects (lag + 1) mb')"
    by (simp add: reconcile_msg_def)
  show ?case
  proof (cases "enqueue (reconcile_msg bucket meta) mb")
    case None
    then have "mailbox_room mb = 0" by (auto simp: enqueue_def mailbox_room_def split: if_splits)
    with None Cons.IH [of lag mb] show ?thesis unfolding step by (simp add: Let_def)
  next
    case (Some mb1)
    then have "mailbox_room mb = Suc (mailbox_room mb1)"
      by (auto simp: enqueue_def mailbox_room_def split: if_splits)
    with Some Cons.IH [of lag mb] Cons.IH [of "lag + 1" mb1] show ?thesis
      unfolding step by (simp add: Let_def split: prod.splits)
  qed
qed simp

lemma should_ingest_key_iff:
  "should_ingest_key key \<longleftrightarrow>
     ends_with (to_ascii_lowercase key) ''.feather'' \<or> ends_with (to_ascii_lowercase key) ''.arrow''"
proof -
  have last: "last (to_ascii_lowercase s) = c" if "ends_with (to_ascii_lowercase s) (t @ [c])" for s t c
    using that by (auto simp: ends_with_iff)
  have slash: "to_ascii_lowercase (t @ ''/'') = to_ascii_lowercase t @ ''/''" for t
    by (simp add: to_ascii_lowercase_def ascii_lower_def byte_def)
  have "\<not> ends_with key ''/''" if "last (to_ascii_lowercase key) \<noteq> CHR ''/''"
    using that by (auto simp: ends_with_iff slash)
  moreover have "last (to_ascii_lowercase key) = CHR ''r''" if "ends_with (to_ascii_lowercase key) ''.feather''"
    using last [of key "''.feathe''"] that by simp
  moreover have "last (to_ascii_lowercase key) = CHR ''w''" if "ends_with (to_ascii_lowercase key) ''.arrow''"
    using last [of key "''.arro''"] that by simp
  moreover have "last (to_ascii_lowercase key) = CHR ''t''" if "ends_with (to_ascii_lowercase key) ''.part''"
    using last [of key "''.par''"] that by simp
  moreover have "last (to_ascii_lowercase key) = CHR ''p''" if "ends_with (to_ascii_lowercase key) ''.tmp''"
    using last [of key "''.tm''"] that by simp
  ultimately show ?thesis by (auto simp: should_ingest_key_def Let_def)
qed

lemma normalize_key_SomeD:
  assumes "normalize_key event_name bucket key etag = Some r"
  shows "starts_with event_name ''s3:ObjectCreated:'' \<and> should_ingest_key (or_key r) \<and> or_etag r = etag
    \<and> (if bucket = [] then key = or_bucket r @ ''/'' @ or_key r
       else or_bucket r = bucket \<and> or_key r = key)"
proof -
  have "key = b @ CHR ''/'' # k" if "split_bucket_key key = Some (b, k)" for b k
    using that by (auto simp: split_bucket_key_def split_once_def dest!: position_SomeD)
      (metis id_take_nth_drop)
  with assms show ?thesis
    by (auto simp: normalize_key_def split: if_splits option.splits)
qed

definition demo_envelope :: S3NotificationEnvelope where
  "demo_envelope = \<lparr> ne_records =
     [\<lparr> sr_event_name = Some ''s3:ObjectCreated:Put'',
        sr_s3 = Some \<lparr> se_bucket_name = ''b'', se_object = \<lparr> so_key = ''live/a.feather'', so_etag = Some ''e'' \<rparr> \<rparr> \<rparr>],
     ne_event_name = None, ne_key = None \<rparr>"

section \<open>Properties\<close>

text \<open>
  The webhook. A body that is not a notification answers 400 and queues nothing. Otherwise the
  objects of the notification below the configured prefix are queued in order as far as there is
  room, the answer is 200 exactly if all of them fit and 503 if not, and the mailbox never exceeds its
  capacity.
\<close>

theorem webhook_queues_in_order:
  assumes "length (mb_queue mb) \<le> mb_capacity mb"
  shows "case ingest_events de st body mb of (status, mb') \<Rightarrow>
      length (mb_queue mb') \<le> mb_capacity mb'
    \<and> (case body of
         Inl e \<Rightarrow> status = BadRequest \<and> mb' = mb
       | Inr text \<Rightarrow>
           (case parse_notification de text (hs_default_bucket st) of
              Inl e \<Rightarrow> status = BadRequest \<and> mb' = mb
            | Inr refs \<Rightarrow>
                let msgs = map webhook_msg (filter (\<lambda>r. matches_prefix (or_key r) (hs_prefix st)) refs)
                in mb_queue mb' = mb_queue mb @ take (mb_capacity mb - length (mb_queue mb)) msgs
                 \<and> status = (if length (mb_queue mb) + length msgs \<le> mb_capacity mb
                             then StatusOk else ServiceUnavailable)))"
proof -
  have run: "case enqueue_refs p refs mb of (status, mb') \<Rightarrow>
      length (mb_queue mb') \<le> mb_capacity mb'
    \<and> (let msgs = map webhook_msg (filter (\<lambda>r. matches_prefix (or_key r) p) refs)
       in mb_queue mb' = mb_queue mb @ take (mb_capacity mb - length (mb_queue mb)) msgs
        \<and> status = (if length (mb_queue mb) + length msgs \<le> mb_capacity mb then StatusOk else ServiceUnavailable))"
    for p refs
  proof -
    let ?msgs = "map webhook_msg (filter (\<lambda>r. matches_prefix (or_key r) p) refs)"
    obtain ok mb' where r: "mbox.send_all ?msgs mb = (ok, mb')" by fastforce
    from mbox.send_all_spec [OF r] capacity_send_all [OF r] assms show ?thesis
      by (auto simp: enqueue_refs_send_all r mailbox_room_def Let_def min_def)
  qed
  show ?thesis
  proof (cases body)
    case (Inl e)
    with assms show ?thesis by (simp add: ingest_events_def)
  next
    case (Inr raw)
    with assms run [of "hs_prefix st"] show ?thesis
      by (cases "parse_notification de raw (hs_default_bucket st)") (simp_all add: ingest_events_def)
  qed
qed

theorem webhook_queues_in_order_witness:
  "fst (ingest_events (\<lambda>_. Inr demo_envelope) \<lparr> hs_default_bucket = ''b'', hs_prefix = ''live/'' \<rparr> (Inr ''{}'')
     \<lparr> mb_queue = [], mb_capacity = 0 \<rparr>) = ServiceUnavailable"
proof -
  have p: "parse_notification (\<lambda>_. Inr demo_envelope) ''{}'' ''b'' =
      Inr [\<lparr> or_bucket = ''b'', or_key = ''live/a.feather'', or_etag = Some ''e'', or_event_name = ''s3:ObjectCreated:Put'' \<rparr>]"
    by code_simp
  have m: "matches_prefix ''live/a.feather'' ''live/''" by code_simp
  show ?thesis
    using webhook_queues_in_order [where mb = "\<lparr> mb_queue = [], mb_capacity = 0 \<rparr>" and de = "\<lambda>_. Inr demo_envelope"
        and st = "\<lparr> hs_default_bucket = ''b'', hs_prefix = ''live/'' \<rparr>" and body = "Inr ''{}''"] p m
    by (auto split: prod.splits)
qed

text \<open>
  One reconcile scan queues, in listing order, exactly the objects that are not in the checkpoint,
  as far as there is room, and reports their number as the lag (when the mailbox fills up, the number
  queued and the one refused). Whether an object's etag has changed is not looked at.
\<close>

theorem reconcile_queues_unseen_objects:
  assumes "load de fs path = Inr cp" and "list_feather_objects store f = Inr objects"
    and "length (mb_queue mb) \<le> mb_capacity mb"
  shows "case reconcile_once de fs store f path mb of (lag, mb') \<Rightarrow>
    (let new = map (reconcile_msg (of_bucket f)) (filter (\<lambda>m. \<not> contains cp (of_bucket f) (om_location m)) objects);
         free = mb_capacity mb - length (mb_queue mb)
     in mb_queue mb' = mb_queue mb @ take free new
      \<and> lag = Some (if length new \<le> free then length new else free + 1)
      \<and> length (mb_queue mb') \<le> mb_capacity mb')"
proof -
  let ?new = "map (reconcile_msg (of_bucket f)) (filter (\<lambda>m. \<not> contains cp (of_bucket f) (om_location m)) objects)"
  obtain ok mb' where r: "mbox.send_all ?new mb = (ok, mb')" by fastforce
  from mbox.send_all_spec [OF r] capacity_send_all [OF r] assms show ?thesis
    by (auto simp: reconcile_once_def reconcile_objects_send_all r mailbox_room_def Let_def min_def)
qed

theorem reconcile_queues_unseen_objects_witness:
  "mb_queue (snd (reconcile_once demo_de Map.empty (\<lambda>_. [Inr \<lparr> om_location = ''k.arrow'', om_e_tag = None \<rparr>])
     \<lparr> of_bucket = ''b'', of_prefix = [] \<rparr> ''c'' \<lparr> mb_queue = [], mb_capacity = 4 \<rparr>))
   = [reconcile_msg ''b'' \<lparr> om_location = ''k.arrow'', om_e_tag = None \<rparr>]"
proof -
  let ?f = "\<lparr> of_bucket = ''b'', of_prefix = [] \<rparr>"
  have l: "load demo_de Map.empty ''c'' = Inr \<lparr> cp_path = ''c'', cp_entries = Map.empty \<rparr>" by (simp add: load_def)
  have k: "should_ingest_key ''k.arrow''" by code_simp
  have o: "list_feather_objects (\<lambda>_. [Inr \<lparr> om_location = ''k.arrow'', om_e_tag = None \<rparr>]) ?f
      = Inr [\<lparr> om_location = ''k.arrow'', om_e_tag = None \<rparr>]"
    by (simp add: list_feather_objects_def k matches_prefix_def)
  show ?thesis
    using reconcile_queues_unseen_objects [OF l o, of "\<lparr> mb_queue = [], mb_capacity = 4 \<rparr>"]
    by (auto simp: contains_def split: prod.splits)
qed

text \<open>
  Which objects a notification can yield: only created objects whose key ends in \<open>.feather\<close> or
  \<open>.arrow\<close> in any case (the tests for \<open>.part\<close> and \<open>.tmp\<close> after that never fire). A notification of the
  top-level form carries the bucket in front of its key; with a configured bucket the bucket stays in
  the key, so the object is looked up as \<open>bucket/key\<close> inside that bucket.
\<close>

theorem notification_refs_are_ingestible:
  "(\<forall>r. normalize_key event_name bucket key etag = Some r \<longrightarrow>
      starts_with event_name ''s3:ObjectCreated:''
    \<and> (ends_with (to_ascii_lowercase (or_key r)) ''.feather'' \<or> ends_with (to_ascii_lowercase (or_key r)) ''.arrow'')
    \<and> (if bucket = [] then key = or_bucket r @ ''/'' @ or_key r else or_bucket r = bucket \<and> or_key r = key))
   \<and> map_option or_key (normalize_key ''s3:ObjectCreated:Put'' ''market-data'' ''market-data/a.feather'' None)
     = Some ''market-data/a.feather''"
proof (rule conjI)
  show "map_option or_key (normalize_key ''s3:ObjectCreated:Put'' ''market-data'' ''market-data/a.feather'' None)
     = Some ''market-data/a.feather''" by code_simp
qed (use normalize_key_SomeD in \<open>fastforce simp: should_ingest_key_iff\<close>)

theorem notification_refs_are_ingestible_witness:
  "\<exists>r. normalize_key ''s3:ObjectCreated:Put'' [] ''b/k.ARROW'' None = Some r
     \<and> ''b/k.ARROW'' = or_bucket r @ ''/'' @ or_key r"
proof -
  have "normalize_key ''s3:ObjectCreated:Put'' [] ''b/k.ARROW'' None \<noteq> None" by code_simp
  then obtain r where "normalize_key ''s3:ObjectCreated:Put'' [] ''b/k.ARROW'' None = Some r" by blast
  with notification_refs_are_ingestible [of "''s3:ObjectCreated:Put''" "[]" "''b/k.ARROW''" None]
  show ?thesis by auto
qed

end
