(* ===== verification/Ingest_Nautilus.thy ===== *)
theory Ingest_Nautilus
  imports Ilp_Keys Router_Config
begin

text \<open>
  Decoding of Nautilus objects into ILP lines, \<open>ingest/nautilus.rs\<close>. The Arrow stream reader is
  third-party: the parameter \<open>reader\<close> yields the record batches, each an error or its schema metadata,
  columns and number of rows. The text of a fixed-point value is \<open>fmt raw precision\<close>, the rendering of
  the 64-bit float \<open>raw / 10 ^ precision\<close>; its arithmetic is a parameter too. Reading a cell beyond the
  end of a column panics in the source and is an error here.
\<close>

datatype NautilusDataKind = TradeTick | QuoteTick

record InstrumentMeta =
  im_symbol :: string
  im_venue :: string
  im_price_precision :: u8
  im_size_precision :: u8

datatype ArrowColumn =
    FixedSizeBinary "bytes list"
  | UInt8Column "u8 list"
  | Utf8Column "string list"
  | UInt64Column "u64 list"
  | OtherColumn

record RecordBatch =
  rb_metadata :: "string \<rightharpoonup> string"
  rb_columns :: "string \<rightharpoonup> ArrowColumn"
  rb_num_rows :: nat

type_synonym fixed_fmt = "int \<Rightarrow> u8 \<Rightarrow> string"

section \<open>Names and metadata\<close>

definition classify_object_key :: "string \<Rightarrow> NautilusDataKind option" where
  "classify_object_key key =
     (let lower = to_ascii_lowercase key
      in if contains_sub lower ''/data/trades/'' then Some TradeTick
         else if contains_sub lower ''/data/quotes/'' then Some QuoteTick
         else None)"

fun kind_marker :: "NautilusDataKind \<Rightarrow> string" where
  "kind_marker TradeTick = ''/data/trades/''"
| "kind_marker QuoteTick = ''/data/quotes/''"

definition instrument_from_path :: "string \<Rightarrow> NautilusDataKind \<Rightarrow> string option" where
  "instrument_from_path key kind =
     (case find_sub (to_ascii_lowercase key) (kind_marker kind) of
        None \<Rightarrow> None
      | Some idx \<Rightarrow>
          let instrument = hd (split_on CHR ''/'' (drop (idx + length (kind_marker kind)) key))
          in if instrument = [] then None else Some instrument)"

definition parse_instrument_id :: "string \<Rightarrow> string \<times> string" where
  "parse_instrument_id instrument_id =
     (case rsplit_once CHR ''.'' instrument_id of
        Some (symbol, venue) \<Rightarrow> (symbol, venue)
      | None \<Rightarrow> (instrument_id, ''UNKNOWN''))"

definition precision_of :: "string option \<Rightarrow> u8" where
  "precision_of v = (case v of None \<Rightarrow> 8 | Some s \<Rightarrow> (case parse_u8 s of Some p \<Rightarrow> p | None \<Rightarrow> 8))"

definition schema_meta :: "RecordBatch \<Rightarrow> InstrumentMeta" where
  "schema_meta batch =
     (let instrument_id = (case rb_metadata batch ''instrument_id'' of Some i \<Rightarrow> i | None \<Rightarrow> []);
          (symbol, venue) = (if instrument_id = [] then (''UNKNOWN'', ''UNKNOWN'') else parse_instrument_id instrument_id)
      in \<lparr> im_symbol = symbol, im_venue = venue,
           im_price_precision = precision_of (rb_metadata batch ''price_precision''),
           im_size_precision = precision_of (rb_metadata batch ''size_precision'') \<rparr>)"

section \<open>Values\<close>

definition from_le_bytes :: "bytes \<Rightarrow> int" where
  "from_le_bytes bs =
     (let n = foldr (\<lambda>b acc. byte b + 256 * acc) bs 0
      in if n < 2 ^ 63 then int n else int n - 2 ^ 64)"

definition fixed_to_f64 :: "fixed_fmt \<Rightarrow> bytes \<Rightarrow> u8 \<Rightarrow> string + string" where
  "fixed_to_f64 fmt bs precision =
     (if length bs \<noteq> 8 then Inl (''expected 8-byte fixed value, got '' @ nat_to_string (length bs))
      else Inr (fmt (from_le_bytes bs) precision))"

definition aggressor_name :: "u8 \<Rightarrow> string" where
  "aggressor_name v = (if v = 1 then ''BUYER'' else if v = 2 then ''SELLER'' else ''NO_AGGRESSOR'')"

definition BACKSLASH :: char where
  "BACKSLASH = CHR 0x5C"

definition escape_tag :: "string \<Rightarrow> string" where
  "escape_tag value =
     replace_sub ''='' [BACKSLASH, CHR ''='']
       (replace_sub '','' [BACKSLASH, CHR '','']
         (replace_sub '' '' [BACKSLASH, CHR '' '']
           (replace_sub [BACKSLASH] [BACKSLASH, BACKSLASH] value)))"

definition escape_field_string :: "string \<Rightarrow> string" where
  "escape_field_string value =
     replace_sub [CHR 0x22] [BACKSLASH, CHR 0x22] (replace_sub [BACKSLASH] [BACKSLASH, BACKSLASH] value)"

section \<open>Lines\<close>

definition column :: "RecordBatch \<Rightarrow> string \<Rightarrow> string \<Rightarrow> string + ArrowColumn" where
  "column batch name missing = (case rb_columns batch name of None \<Rightarrow> Inl missing | Some c \<Rightarrow> Inr c)"

fun as_fixed :: "string \<Rightarrow> ArrowColumn \<Rightarrow> string + bytes list" where
  "as_fixed wrong (FixedSizeBinary xs) = Inr xs"
| "as_fixed wrong _ = Inl wrong"

fun as_u8 :: "string \<Rightarrow> ArrowColumn \<Rightarrow> string + u8 list" where
  "as_u8 wrong (UInt8Column xs) = Inr xs"
| "as_u8 wrong _ = Inl wrong"

fun as_utf8 :: "string \<Rightarrow> ArrowColumn \<Rightarrow> string + string list" where
  "as_utf8 wrong (Utf8Column xs) = Inr xs"
| "as_utf8 wrong _ = Inl wrong"

fun as_u64 :: "string \<Rightarrow> ArrowColumn \<Rightarrow> string + u64 list" where
  "as_u64 wrong (UInt64Column xs) = Inr xs"
| "as_u64 wrong _ = Inl wrong"

text \<open>The question mark operator on results.\<close>

definition try_bind :: "'e + 'a \<Rightarrow> ('a \<Rightarrow> 'e + 'b) \<Rightarrow> 'e + 'b" where
  "try_bind r f = (case r of Inl e \<Rightarrow> Inl e | Inr x \<Rightarrow> f x)"

definition cell :: "'a list \<Rightarrow> nat \<Rightarrow> string + 'a" where
  "cell xs row = (if row < length xs then Inr (xs ! row) else Inl ''index out of bounds'')"

definition fixed_column :: "RecordBatch \<Rightarrow> string \<Rightarrow> string \<Rightarrow> string \<Rightarrow> string + bytes list" where
  "fixed_column batch name missing wrong = try_bind (column batch name missing) (as_fixed wrong)"

definition fixed_cell :: "fixed_fmt \<Rightarrow> bytes list \<Rightarrow> nat \<Rightarrow> u8 \<Rightarrow> string + string" where
  "fixed_cell fmt col row precision = try_bind (cell col row) (\<lambda>bs. fixed_to_f64 fmt bs precision)"

definition tags_text :: "InstrumentMeta \<Rightarrow> string" where
  "tags_text meta = ''symbol='' @ escape_tag (im_symbol meta) @ '',venue='' @ escape_tag (im_venue meta)"

definition format_trade_line :: "fixed_fmt \<Rightarrow> InstrumentMeta \<Rightarrow> RecordBatch \<Rightarrow> nat \<Rightarrow> string \<Rightarrow> string + string" where
  "format_trade_line fmt meta batch row table =
     try_bind (fixed_column batch ''price'' ''missing price column'' ''price not fixed binary'') (\<lambda>price_col.
     try_bind (fixed_column batch ''size'' ''missing size column'' ''size not fixed binary'') (\<lambda>size_col.
     try_bind (try_bind (column batch ''aggressor_side'' ''missing aggressor_side column'') (as_u8 ''aggressor_side not u8'')) (\<lambda>side_col.
     try_bind (try_bind (column batch ''trade_id'' ''missing trade_id column'') (as_utf8 ''trade_id not utf8'')) (\<lambda>trade_id_col.
     try_bind (try_bind (column batch ''ts_event'' ''missing ts_event column'') (as_u64 ''ts_event not u64'')) (\<lambda>ts_col.
     try_bind (fixed_cell fmt price_col row (im_price_precision meta)) (\<lambda>price.
     try_bind (fixed_cell fmt size_col row (im_size_precision meta)) (\<lambda>size.
     try_bind (cell side_col row) (\<lambda>side.
     try_bind (cell trade_id_col row) (\<lambda>trade_id.
     try_bind (cell ts_col row) (\<lambda>ts.
       Inr (table @ '','' @ tags_text meta @ '' ''
         @ ''price='' @ price @ '',size='' @ size
         @ '',aggressor_side='' @ [CHR 0x22] @ escape_field_string (aggressor_name side) @ [CHR 0x22]
         @ '',trade_id='' @ [CHR 0x22] @ escape_field_string trade_id @ [CHR 0x22]
         @ '' '' @ nat_to_string (unat ts))))))))))))"

definition format_quote_line :: "fixed_fmt \<Rightarrow> InstrumentMeta \<Rightarrow> RecordBatch \<Rightarrow> nat \<Rightarrow> string \<Rightarrow> string + string" where
  "format_quote_line fmt meta batch row table =
     try_bind (fixed_column batch ''bid_price'' ''missing bid_price'' ''bid_price not fixed binary'') (\<lambda>bid.
     try_bind (fixed_column batch ''ask_price'' ''missing ask_price'' ''ask_price not fixed binary'') (\<lambda>ask.
     try_bind (fixed_column batch ''bid_size'' ''missing bid_size'' ''bid_size not fixed binary'') (\<lambda>bid_size.
     try_bind (fixed_column batch ''ask_size'' ''missing ask_size'' ''ask_size not fixed binary'') (\<lambda>ask_size.
     try_bind (try_bind (column batch ''ts_event'' ''missing ts_event'') (as_u64 ''ts_event not u64'')) (\<lambda>ts_col.
     try_bind (fixed_cell fmt bid row (im_price_precision meta)) (\<lambda>b.
     try_bind (fixed_cell fmt ask row (im_price_precision meta)) (\<lambda>a.
     try_bind (fixed_cell fmt bid_size row (im_size_precision meta)) (\<lambda>bs.
     try_bind (fixed_cell fmt ask_size row (im_size_precision meta)) (\<lambda>as.
     try_bind (cell ts_col row) (\<lambda>ts.
       Inr (table @ '','' @ tags_text meta @ '' ''
         @ ''bid='' @ b @ '',ask='' @ a @ '',bid_size='' @ bs @ '',ask_size='' @ as
         @ '' '' @ nat_to_string (unat ts))))))))))))"

section \<open>Decoding\<close>

text \<open>The metadata of a batch, completed from the object's path when the schema names no instrument.\<close>

definition resolve_meta :: "string \<Rightarrow> NautilusDataKind \<Rightarrow> RecordBatch \<Rightarrow> InstrumentMeta" where
  "resolve_meta key kind batch =
     (let meta = schema_meta batch
      in if im_symbol meta = ''UNKNOWN'' then
           (case instrument_from_path key kind of
              Some instrument \<Rightarrow>
                (case parse_instrument_id instrument of
                   (symbol, venue) \<Rightarrow> meta\<lparr>im_symbol := symbol, im_venue := venue\<rparr>)
            | None \<Rightarrow> meta)
         else meta)"

definition kind_table :: "NautilusIngestConfig \<Rightarrow> NautilusDataKind \<Rightarrow> string" where
  "kind_table config kind = (case kind of TradeTick \<Rightarrow> ni_trade_table config | QuoteTick \<Rightarrow> ni_quote_table config)"

definition format_line ::
    "fixed_fmt \<Rightarrow> NautilusDataKind \<Rightarrow> InstrumentMeta \<Rightarrow> RecordBatch \<Rightarrow> nat \<Rightarrow> string \<Rightarrow> string + string" where
  "format_line fmt kind meta batch row table =
     (case kind of TradeTick \<Rightarrow> format_trade_line fmt meta batch row table
      | QuoteTick \<Rightarrow> format_quote_line fmt meta batch row table)"

fun row_loop :: "(nat \<Rightarrow> string + string) \<Rightarrow> nat list \<Rightarrow> string list \<Rightarrow> string + string list" where
  "row_loop line [] lines = Inr lines"
| "row_loop line (row # rows) lines =
     (case line row of Inl e \<Rightarrow> Inl e | Inr l \<Rightarrow> row_loop line rows (lines @ [l]))"

fun batch_loop ::
    "fixed_fmt \<Rightarrow> string \<Rightarrow> NautilusDataKind \<Rightarrow> NautilusIngestConfig \<Rightarrow> (string + RecordBatch) list
       \<Rightarrow> string \<Rightarrow> string list \<Rightarrow> string + (string \<times> string list)" where
  "batch_loop fmt key kind config [] table_name lines = Inr (table_name, lines)"
| "batch_loop fmt key kind config (Inl e # batches) table_name lines = Inl ''read record batch''"
| "batch_loop fmt key kind config (Inr batch # batches) table_name lines =
     (let meta = resolve_meta key kind batch; table = kind_table config kind
      in case row_loop (\<lambda>row. format_line fmt kind meta batch row table) [0..<rb_num_rows batch] lines of
           Inl e \<Rightarrow> Inl e
         | Inr lines' \<Rightarrow> batch_loop fmt key kind config batches table lines')"

definition decode_feather_to_ilp ::
    "fixed_fmt \<Rightarrow> (bytes \<Rightarrow> string + (string + RecordBatch) list) \<Rightarrow> string \<Rightarrow> bytes \<Rightarrow> NautilusIngestConfig
       \<Rightarrow> string + (string \<times> string list)" where
  "decode_feather_to_ilp fmt reader key bytes config =
     (case classify_object_key key of
        None \<Rightarrow> Inl (''unsupported nautilus object key: '' @ key)
      | Some kind \<Rightarrow>
          (case reader bytes of
             Inl e \<Rightarrow> Inl ''invalid arrow ipc stream''
           | Inr batches \<Rightarrow>
               (case batch_loop fmt key kind config batches [] [] of
                  Inl e \<Rightarrow> Inl e
                | Inr (table_name, lines) \<Rightarrow>
                    if lines = [] then Inl (''no rows decoded from '' @ key) else Inr (table_name, lines))))"

section \<open>Specification vocabulary\<close>

text \<open>The lines of the batches by rows, as the source formats them: batch by batch, row by row.\<close>

definition batch_lines ::
    "fixed_fmt \<Rightarrow> string \<Rightarrow> NautilusDataKind \<Rightarrow> NautilusIngestConfig \<Rightarrow> RecordBatch \<Rightarrow> (string + string) list" where
  "batch_lines fmt key kind config batch =
     map (\<lambda>row. format_line fmt kind (resolve_meta key kind batch) batch row (kind_table config kind))
       [0..<rb_num_rows batch]"

definition line_tags :: "InstrumentMeta \<Rightarrow> (bytes \<times> bytes) list" where
  "line_tags meta = [(''symbol'', escape_tag (im_symbol meta)), (''venue'', escape_tag (im_venue meta))]"

text \<open>Text without any of the characters that are escaped or that end a line.\<close>

definition unescaped :: "string \<Rightarrow> bool" where
  "unescaped s \<longleftrightarrow> set s \<inter> {BACKSLASH, CHR '' '', CHR '','', CHR ''='', NL} = {}"

section \<open>Lemmas\<close>

lemma try_bind_Inr_iff: "try_bind r f = Inr y \<longleftrightarrow> (\<exists>x. r = Inr x \<and> f x = Inr y)"
  by (cases r) (auto simp: try_bind_def)

lemma replace_sub_char:
  "replace_sub [c] w s = concat (map (\<lambda>b. if b = c then w else [b]) s)"
  by (induction s) (auto simp: replace_sub.simps(2) starts_with_iff)

lemma escape_tag_chars:
  "escape_tag s = concat (map (\<lambda>b. if b \<in> {BACKSLASH, CHR '' '', CHR '','', CHR ''=''} then [BACKSLASH, b] else [b]) s)"
  by (induction s) (auto simp: escape_tag_def replace_sub_char BACKSLASH_def)

lemma escape_tag_unescaped: "unescaped s \<Longrightarrow> escape_tag s = s"
  by (induction s) (auto simp: escape_tag_chars unescaped_def)

lemma format_line_shape:
  assumes "format_line fmt kind meta batch row table = Inr l"
  shows "\<exists>rest. l = render_line table (line_tags meta) rest"
proof -
  have glue: "table @ '','' @ tags_text meta @ '' '' @ x = render_line table (line_tags meta) x" for x
    by (simp add: tags_text_def render_line_def line_tags_def render_tag_def)
  from assms show ?thesis
    by (cases kind)
      (auto simp: format_line_def format_trade_line_def format_quote_line_def try_bind_Inr_iff
        glue [simplified])
qed

lemma row_loop_Inr:
  "row_loop line rows lines = Inr out \<longleftrightarrow>
     (\<exists>ls. map line rows = map Inr ls \<and> out = lines @ ls)"
proof (induction rows arbitrary: lines)
  case (Cons row rows)
  show ?case
  proof (cases "line row")
    case (Inr l)
    then show ?thesis using Cons [of "lines @ [l]"] by (auto simp: map_eq_Cons_conv Cons_eq_map_conv)
  qed (auto simp: Cons_eq_map_conv)
qed auto

lemma batch_loop_Inr:
  assumes "batch_loop fmt key kind config batches table lines = Inr (table', out)"
  shows "\<exists>bs ls. batches = map Inr bs \<and> out = lines @ ls
    \<and> map Inr ls = concat (map (batch_lines fmt key kind config) bs)
    \<and> table' = (if bs = [] then table else kind_table config kind)"
  using assms
proof (induction batches arbitrary: table lines)
  case (Cons b batches)
  show ?case
  proof (cases b)
    case (Inr batch)
    from Cons.prems Inr obtain ls where
        rows: "batch_lines fmt key kind config batch = map Inr ls"
      and rec: "batch_loop fmt key kind config batches (kind_table config kind) (lines @ ls) = Inr (table', out)"
      by (auto simp: Let_def batch_lines_def row_loop_Inr split: sum.splits)
    from Cons.IH [OF rec] obtain bs ls' where
      "batches = map Inr bs" "out = (lines @ ls) @ ls'"
      "map Inr ls' = concat (map (batch_lines fmt key kind config) bs)"
      "table' = kind_table config kind" by auto
    with Inr rows show ?thesis
      by (intro exI [of _ "batch # bs"] exI [of _ "ls @ ls'"]) simp
  qed (use Cons.prems in simp)
qed auto

lemma render_first_line:
  assumes "plain_name m" and "\<forall>nv \<in> set tags. plain_tag nv"
  shows "takeWhile (\<lambda>b. b \<noteq> NL) (render_line m tags rest) = render_line m tags (takeWhile (\<lambda>b. b \<noteq> NL) rest)"
  using assms rendered_no_space [OF assms(2)]
  by (simp add: render_line_def plain_name_def takeWhile_append)

text \<open>The key of a rendered line, whatever follows the tags.\<close>

lemma shard_key_of_line:
  assumes "plain_name m" and "tags \<noteq> []" and "\<forall>nv \<in> set tags. plain_tag nv"
  shows "shard_key_from_ilp memchr_ref (render_line m tags rest) t =
    (case find (\<lambda>nv. tag_name_eq (fst nv) t) tags of Some nv \<Rightarrow> from_utf8_lossy (snd nv) | None \<Rightarrow> t)"
proof -
  have nl: "NL \<notin> set (takeWhile (\<lambda>b. b \<noteq> NL) rest)" by (auto dest: set_takeWhileD)
  show ?thesis
    unfolding shard_key_from_ilp_def
    by (subst shard_key_first_line)
      (simp add: render_first_line [OF assms(1,3)] shard_key_rendered_line [OF assms nl]
        into_owned_tag_value split: option.splits)
qed

lemma symbol_tag_name: "tag_name_eq ''symbol'' ''symbol''"
  by code_simp

lemma measurement_of_line:
  assumes "plain_name m" and "m \<noteq> []" and "valid_utf8 m" and "\<forall>nv \<in> set tags. plain_tag nv"
  shows "measurement_from_ilp_bytes memchr_ref (render_line m tags rest) = Some m"
proof -
  let ?line = "render_line m tags (takeWhile (\<lambda>b. b \<noteq> NL) rest)"
  have nl: "NL \<notin> set (takeWhile (\<lambda>b. b \<noteq> NL) rest)" by (auto dest: set_takeWhileD)
  have "takeWhile (\<lambda>b. b \<noteq> NL) ?line = ?line" by (simp add: render_first_line [OF assms(1,4)])
  then have "measurement_from_ilp_bytes memchr_ref (render_line m tags rest) = measurement_from_ilp_bytes memchr_ref ?line"
    by (subst measurement_first_line) (simp add: render_first_line [OF assms(1,4)])
  with measurement_rendered_line [OF assms nl] show ?thesis by simp
qed

lemma batch_loop_complete:
  assumes "concat (map (batch_lines fmt key kind config) bs) = map Inr ls"
  shows "batch_loop fmt key kind config (map Inr bs) table lines =
    Inr (if bs = [] then table else kind_table config kind, lines @ ls)"
  using assms
proof (induction bs arbitrary: table lines ls)
  case (Cons b bs)
  from Cons.prems obtain l1 l2 where ls: "ls = l1 @ l2" and l1: "batch_lines fmt key kind config b = map Inr l1"
    and l2: "concat (map (batch_lines fmt key kind config) bs) = map Inr l2"
    by (auto simp: append_eq_map_conv)
  from l1 have "row_loop (\<lambda>row. format_line fmt kind (resolve_meta key kind b) b row (kind_table config kind))
      [0..<rb_num_rows b] lines = Inr (lines @ l1)"
    by (simp add: row_loop_Inr batch_lines_def)
  with Cons.IH [OF l2] ls show ?case by (simp add: Let_def)
qed simp

text \<open>A batch of one trade, for the witnesses.\<close>

definition demo_batch :: "string \<Rightarrow> RecordBatch" where
  "demo_batch instrument =
     \<lparr> rb_metadata = [''instrument_id'' \<mapsto> instrument],
       rb_columns = [''price'' \<mapsto> FixedSizeBinary [replicate 8 CHR 0x01], ''size'' \<mapsto> FixedSizeBinary [replicate 8 CHR 0x02],
         ''aggressor_side'' \<mapsto> UInt8Column [1], ''trade_id'' \<mapsto> Utf8Column [''t1''], ''ts_event'' \<mapsto> UInt64Column [7]],
       rb_num_rows = 1 \<rparr>"

definition demo_key :: string where
  "demo_key = ''live/data/trades/AAPL.XNAS/1.feather''"

definition demo_fmt :: fixed_fmt where
  "demo_fmt raw precision = ''1.5''"

definition demo_line :: "string \<Rightarrow> string" where
  "demo_line tags = ''trade_ticks,'' @ tags @ '' price=1.5,size=1.5,aggressor_side='' @ [CHR 0x22] @ ''BUYER'' @ [CHR 0x22]
     @ '',trade_id='' @ [CHR 0x22] @ ''t1'' @ [CHR 0x22] @ '' 7''"

lemma demo_key_kind: "classify_object_key demo_key = Some TradeTick"
  by code_simp

lemma demo_meta:
  "resolve_meta demo_key TradeTick (demo_batch ''AAPL.XNAS'')
     = \<lparr> im_symbol = ''AAPL'', im_venue = ''XNAS'', im_price_precision = 8, im_size_precision = 8 \<rparr>"
  by code_simp

lemma demo_space_meta:
  "resolve_meta demo_key TradeTick (demo_batch ''BRK B.XNYS'')
     = \<lparr> im_symbol = ''BRK B'', im_venue = ''XNYS'', im_price_precision = 8, im_size_precision = 8 \<rparr>"
  by code_simp

lemma demo_batch_line:
  assumes "resolve_meta demo_key TradeTick (demo_batch i) =
    \<lparr> im_symbol = symbol, im_venue = venue, im_price_precision = 8, im_size_precision = 8 \<rparr>"
  shows "batch_lines demo_fmt demo_key TradeTick default_nautilus (demo_batch i) =
    [Inr (demo_line (''symbol='' @ escape_tag symbol @ '',venue='' @ escape_tag venue))]"
proof -
  have "escape_field_string ''BUYER'' = ''BUYER''" "escape_field_string ''t1'' = ''t1''" "nat_to_string 7 = ''7''"
    by code_simp+
  then show ?thesis
    unfolding batch_lines_def assms
    by (simp add: format_line_def format_trade_line_def try_bind_def fixed_column_def fixed_cell_def cell_def column_def
        fixed_to_f64_def demo_fmt_def demo_batch_def demo_line_def tags_text_def aggressor_name_def kind_table_def
        default_nautilus_def)
qed

lemma demo_batch_lines:
  "batch_lines demo_fmt demo_key TradeTick default_nautilus (demo_batch ''AAPL.XNAS'') = [Inr (demo_line ''symbol=AAPL,venue=XNAS'')]"
proof -
  have "escape_tag ''AAPL'' = ''AAPL''" "escape_tag ''XNAS'' = ''XNAS''" by code_simp+
  with demo_batch_line [OF demo_meta] show ?thesis by simp
qed

section \<open>Properties\<close>

text \<open>
  C31. Decoding is all or nothing and keeps the order: an object of a known kind decodes exactly when every
  batch of the stream can be read and every row of every batch can be formatted, and there is at least
  one row; the result is then one line per row, batch by batch and row by row, for the table of the kind.
\<close>

theorem decode_emits_every_row_in_order:
  assumes "classify_object_key key = Some kind" and "reader bytes = Inr batches"
  shows "decode_feather_to_ilp fmt reader key bytes config = Inr (table, lines) \<longleftrightarrow>
    (\<exists>bs. batches = map Inr bs \<and> lines \<noteq> [] \<and> table = kind_table config kind
       \<and> concat (map (batch_lines fmt key kind config) bs) = map Inr lines)"
proof
  assume "decode_feather_to_ilp fmt reader key bytes config = Inr (table, lines)"
  then have loop: "batch_loop fmt key kind config batches [] [] = Inr (table, lines)" and ne: "lines \<noteq> []"
    using assms by (auto simp: decode_feather_to_ilp_def split: sum.splits if_splits)
  from batch_loop_Inr [OF loop] ne
  show "\<exists>bs. batches = map Inr bs \<and> lines \<noteq> [] \<and> table = kind_table config kind
      \<and> concat (map (batch_lines fmt key kind config) bs) = map Inr lines" by fastforce
next
  assume "\<exists>bs. batches = map Inr bs \<and> lines \<noteq> [] \<and> table = kind_table config kind
    \<and> concat (map (batch_lines fmt key kind config) bs) = map Inr lines"
  then obtain bs where bs: "batches = map Inr bs" "lines \<noteq> []" "table = kind_table config kind"
    and rows: "concat (map (batch_lines fmt key kind config) bs) = map Inr lines" by blast
  from bs(2) rows have "bs \<noteq> []" by auto
  with batch_loop_complete [OF rows, of "[]" "[]"] bs assms
  show "decode_feather_to_ilp fmt reader key bytes config = Inr (table, lines)"
    by (simp add: decode_feather_to_ilp_def)
qed

theorem decode_emits_every_row_in_order_witness:
  "decode_feather_to_ilp demo_fmt (\<lambda>_. Inr [Inr (demo_batch ''AAPL.XNAS''), Inr (demo_batch ''AAPL.XNAS'')]) demo_key [] default_nautilus
     = Inr (''trade_ticks'', [demo_line ''symbol=AAPL,venue=XNAS'', demo_line ''symbol=AAPL,venue=XNAS''])"
proof -
  let ?b = "demo_batch ''AAPL.XNAS''" and ?l = "demo_line ''symbol=AAPL,venue=XNAS''"
  have "\<exists>bs. [Inr ?b, Inr ?b] = map (Inr :: _ \<Rightarrow> string + _) bs \<and> [?l, ?l] \<noteq> []
      \<and> ''trade_ticks'' = kind_table default_nautilus TradeTick
      \<and> concat (map (batch_lines demo_fmt demo_key TradeTick default_nautilus) bs) = map Inr [?l, ?l]"
    by (intro exI [of _ "[?b, ?b]"]) (auto simp: demo_batch_lines, simp add: kind_table_def default_nautilus_def)
  with decode_emits_every_row_in_order [OF demo_key_kind,
      where reader = "\<lambda>_. Inr [Inr ?b, Inr ?b]" and bytes = "[]" and batches = "[Inr ?b, Inr ?b]"
        and fmt = demo_fmt and config = default_nautilus and table = "''trade_ticks''" and lines = "[?l, ?l]"]
  show ?thesis by blast
qed

text \<open>
  Ingested rows are routed by their instrument: when symbol and venue hold none of the characters that
  line protocol escapes, the key the router extracts from a decoded line for the tag \<open>symbol\<close> is the
  symbol of the batch the row came from, and its measurement is the table of the data kind, whatever the
  fields of the row contain.
\<close>

theorem decoded_lines_carry_their_symbol:
  assumes "decode_feather_to_ilp fmt reader key bytes config = Inr (table, lines)"
    and kind: "classify_object_key key = Some kind" and bs: "reader bytes = Inr (map Inr bs)"
    and clean: "\<forall>b \<in> set bs. unescaped (im_symbol (resolve_meta key kind b)) \<and> valid_utf8 (im_symbol (resolve_meta key kind b))
      \<and> unescaped (im_venue (resolve_meta key kind b))"
    and table: "plain_name table" "table \<noteq> []" "valid_utf8 table"
    and "line \<in> set lines"
  shows "\<exists>b \<in> set bs. shard_key_from_ilp memchr_ref line ''symbol'' = im_symbol (resolve_meta key kind b)
    \<and> measurement_from_ilp memchr_ref line = Some table"
proof -
  from assms(1) kind bs have "batch_loop fmt key kind config (map Inr bs) [] [] = Inr (table, lines)"
      and "lines \<noteq> []"
    by (auto simp: decode_feather_to_ilp_def split: sum.splits if_splits)
  from batch_loop_Inr [OF this(1)] this(2) have t: "table = kind_table config kind"
      and ls: "map Inr lines = concat (map (batch_lines fmt key kind config) bs)"
    by (auto dest: map_injective [of Inr] simp: inj_def split: if_splits)
  from \<open>line \<in> set lines\<close> have "Inr line \<in> set (map (Inr :: _ \<Rightarrow> string + _) lines)" by simp
  then obtain b where b: "b \<in> set bs" and "Inr line \<in> set (batch_lines fmt key kind config b)"
    unfolding ls by auto
  then obtain row where "format_line fmt kind (resolve_meta key kind b) b row table = Inr line"
    by (auto simp: batch_lines_def t)
  from format_line_shape [OF this] obtain rest where
    line: "line = render_line table (line_tags (resolve_meta key kind b)) rest" ..
  let ?tags = "line_tags (resolve_meta key kind b)"
  from clean b have esc: "unescaped (im_symbol (resolve_meta key kind b))" "unescaped (im_venue (resolve_meta key kind b))"
    and utf8: "valid_utf8 (im_symbol (resolve_meta key kind b))" by auto
  then have plain: "\<forall>nv \<in> set ?tags. plain_tag nv"
    by (auto simp: line_tags_def plain_tag_def escape_tag_unescaped unescaped_def)
  have "shard_key_from_ilp memchr_ref line ''symbol'' = im_symbol (resolve_meta key kind b)"
    using shard_key_of_line [OF table(1) _ plain, of rest "''symbol''"] utf8 symbol_tag_name
    by (simp add: line line_tags_def escape_tag_unescaped [OF esc(1)])
  moreover have "measurement_from_ilp memchr_ref line = Some table"
    using measurement_of_line [OF table plain] by (simp add: line measurement_from_ilp_def)
  ultimately show ?thesis using b by blast
qed

theorem decoded_lines_carry_their_symbol_witness:
  "decode_feather_to_ilp demo_fmt (\<lambda>_. Inr [Inr (demo_batch ''AAPL.XNAS'')]) demo_key [] default_nautilus
     = Inr (''trade_ticks'', [demo_line ''symbol=AAPL,venue=XNAS''])
   \<and> shard_key_from_ilp memchr_ref (demo_line ''symbol=AAPL,venue=XNAS'') ''symbol'' = ''AAPL''"
proof -
  let ?b = "demo_batch ''AAPL.XNAS''" and ?l = "demo_line ''symbol=AAPL,venue=XNAS''"
  have table: "kind_table default_nautilus TradeTick = ''trade_ticks''"
    by (simp add: kind_table_def default_nautilus_def)
  have "concat (map (batch_lines demo_fmt demo_key TradeTick default_nautilus) [?b]) = map Inr [?l]"
    by (simp add: demo_batch_lines)
  from batch_loop_complete [OF this, of "[]" "[]"] table
  have "batch_loop demo_fmt demo_key TradeTick default_nautilus (map Inr [?b]) [] [] = Inr (''trade_ticks'', [?l])"
    by (simp del: batch_loop.simps)
  then have d: "decode_feather_to_ilp demo_fmt (\<lambda>_. Inr [Inr ?b]) demo_key [] default_nautilus = Inr (''trade_ticks'', [?l])"
    by (simp add: decode_feather_to_ilp_def demo_key_kind)
  have ok: "unescaped ''AAPL''" "valid_utf8 ''AAPL''" "unescaped ''XNAS''" "plain_name ''trade_ticks''" "valid_utf8 ''trade_ticks''"
    by code_simp+
  show ?thesis
    using decoded_lines_carry_their_symbol [OF d demo_key_kind, of "[?b]" ?l] d ok by (simp add: demo_meta)
qed

text \<open>
  An escaped symbol is not the routing key: for a symbol with a space the router takes the text up to
  and including the backslash of the escape as the key, so such rows are placed by a key that no query
  for the symbol mentions, and all symbols with the same first word share it.
\<close>

theorem escaped_symbol_loses_its_key:
  assumes "format_line fmt kind meta batch row table = Inr line"
    and "im_symbol meta = a @ CHR '' '' # b" and a: "unescaped a" "valid_utf8 (a @ [BACKSLASH])"
    and "plain_name table"
  shows "shard_key_from_ilp memchr_ref line ''symbol'' = a @ [BACKSLASH]"
proof -
  from format_line_shape [OF assms(1)] obtain rest where
    line: "line = render_line table (line_tags meta) rest" ..
  have "escape_tag (im_symbol meta) = a @ BACKSLASH # CHR '' '' # escape_tag b"
    using escape_tag_unescaped [OF a(1)] by (simp add: assms(2) escape_tag_chars)
  then obtain rest' where "line = render_line table [(''symbol'', a @ [BACKSLASH])] rest'"
    by (simp add: line line_tags_def render_line_def render_tag_def)
  moreover have "\<forall>nv \<in> set [(''symbol'', a @ [BACKSLASH])]. plain_tag nv"
    using a(1) by (auto simp: plain_tag_def unescaped_def BACKSLASH_def)
  ultimately show ?thesis
    using shard_key_of_line [OF assms(5), of "[(''symbol'', a @ [BACKSLASH])]" rest' "''symbol''"] symbol_tag_name a(2)
    by simp
qed

theorem escaped_symbol_loses_its_key_witness:
  "\<exists>line. format_line demo_fmt TradeTick (resolve_meta demo_key TradeTick (demo_batch ''BRK B.XNYS'')) (demo_batch ''BRK B.XNYS'') 0 ''trade_ticks''
       = Inr line
     \<and> shard_key_from_ilp memchr_ref line ''symbol'' = ''BRK'' @ [BACKSLASH]"
proof -
  obtain line where l: "format_line demo_fmt TradeTick (resolve_meta demo_key TradeTick (demo_batch ''BRK B.XNYS''))
      (demo_batch ''BRK B.XNYS'') 0 ''trade_ticks'' = Inr line"
    unfolding demo_space_meta
    by (simp add: format_line_def format_trade_line_def try_bind_def fixed_column_def fixed_cell_def cell_def column_def
        fixed_to_f64_def demo_fmt_def demo_batch_def)
  have ok: "unescaped ''BRK''" "valid_utf8 (''BRK'' @ [BACKSLASH])" "plain_name ''trade_ticks''" by code_simp+
  show ?thesis
    using escaped_symbol_loses_its_key [OF l, of "''BRK''" "''B''"] l ok by (simp add: demo_space_meta)
qed


end
