(* ===== verification/Ingest_Actor.thy ===== *)
theory Ingest_Actor
  imports Ilp_Forward Ingest_Events Ingest_Nautilus
begin

text \<open>
  The ingest actor, \<open>ingest/actor.rs\<close>: it takes objects from its mailbox one at a time, fetches and
  decodes them, forwards their lines through one long-lived \<open>IlpForwarder\<close> and marks them in the
  checkpoint, with up to three attempts per object.

  The world outside changes between attempts: the record \<open>ingest_world\<close> gives, for the n-th attempt the
  actor makes since its start, the metadata handle, the network environment, the answer of the object store, the clock and the
  faults of the file system. The counters of \<open>metrics/mod.rs\<close> are a log of the calls that record them.
\<close>

datatype IngestError =
    FetchFailed string | DecodeFailed string | ForwardFailed ForwardError | CheckpointFailed CheckpointError

datatype IngestMetric =
    ObjectsProcessed string string
  | RowsForwarded string u64
  | MailboxDepth nat

record ('r, 'c) ingest_world =
  iw_env :: "nat \<Rightarrow> ('r, 'c) ilp_env"
  iw_metadata :: "nat \<Rightarrow> 'r MetadataHandle"
  iw_get :: "nat \<Rightarrow> string \<Rightarrow> string + (bytes \<times> string option)"
  iw_fmt :: fixed_fmt
  iw_reader :: "bytes \<Rightarrow> string + (string + RecordBatch) list"
  iw_ser :: "entries \<Rightarrow> string + string"
  iw_fault :: "nat \<Rightarrow> fault_fn"
  iw_now :: "nat \<Rightarrow> nat"

record ('r, 'c, 'k) IngestState =
  is_app :: "('r, 'c, 'k) AppState"
  is_forwarder :: IlpForwarder
  is_checkpoint :: CheckpointStore
  is_files :: files
  is_attempts :: nat
  is_metrics :: "IngestMetric list"

section \<open>Metrics\<close>

fun ingest_source_label :: "IngestSource \<Rightarrow> string" where
  "ingest_source_label Webhook = ''webhook''"
| "ingest_source_label Reconcile = ''reconcile''"

definition record_ingest_object_processed ::
    "IngestSource \<Rightarrow> string \<Rightarrow> ('r, 'c, 'k) IngestState \<Rightarrow> ('r, 'c, 'k) IngestState" where
  "record_ingest_object_processed source status s =
     s\<lparr>is_metrics := is_metrics s @ [ObjectsProcessed (ingest_source_label source) status]\<rparr>"

definition record_ingest_rows_forwarded ::
    "string \<Rightarrow> u64 \<Rightarrow> ('r, 'c, 'k) IngestState \<Rightarrow> ('r, 'c, 'k) IngestState" where
  "record_ingest_rows_forwarded table rows s = s\<lparr>is_metrics := is_metrics s @ [RowsForwarded table rows]\<rparr>"

definition record_ingest_mailbox_depth :: "nat \<Rightarrow> ('r, 'c, 'k) IngestState \<Rightarrow> ('r, 'c, 'k) IngestState" where
  "record_ingest_mailbox_depth depth s = s\<lparr>is_metrics := is_metrics s @ [MailboxDepth depth]\<rparr>"

section \<open>One object\<close>

text \<open>One attempt. The etag of the store is read and dropped, as in the source.\<close>

definition fetch_decode_forward ::
    "('r, 'c) ingest_world \<Rightarrow> IngestConfig \<Rightarrow> ProcessObject \<Rightarrow> ('r, 'c, 'k) IngestState
       \<Rightarrow> (IngestError + (string \<times> u64)) \<times> ('r, 'c, 'k) IngestState" where
  "fetch_decode_forward w config object s =
     (let n = is_attempts s;
          s = s\<lparr>is_attempts := Suc n, is_app := (is_app s)\<lparr>as_metadata := iw_metadata w n\<rparr>\<rparr>
      in case iw_get w n (po_key object) of
           Inl e \<Rightarrow> (Inl (FetchFailed e), s)
         | Inr (bytes, etag_from_store) \<Rightarrow>
             (case decode_feather_to_ilp (iw_fmt w) (iw_reader w) (po_key object) bytes (ig_nautilus config) of
                Inl e \<Rightarrow> (Inl (DecodeFailed e), s)
              | Inr (table, lines) \<Rightarrow>
                  (case forward_batch (iw_env w n) lines (is_app s) (is_forwarder s) of
                     (Inl e, app', fwd') \<Rightarrow> (Inl (ForwardFailed e), s\<lparr>is_app := app', is_forwarder := fwd'\<rparr>)
                   | (Inr _, app', fwd') \<Rightarrow>
                       (Inr (table, of_nat (length lines)), s\<lparr>is_app := app', is_forwarder := fwd'\<rparr>))))"

definition mark_object ::
    "('r, 'c) ingest_world \<Rightarrow> ProcessObject \<Rightarrow> string \<times> u64 \<Rightarrow> ('r, 'c, 'k) IngestState
       \<Rightarrow> (IngestError + unit) \<times> ('r, 'c, 'k) IngestState" where
  "mark_object w object tr s =
     (case mark_processed (iw_ser w) (iw_fault w (is_attempts s)) (iw_now w (is_attempts s))
             (po_bucket object) (po_key object) (po_etag object) (snd tr) (is_checkpoint s) (is_files s) of
        (r, cp', fs') \<Rightarrow>
          let s' = s\<lparr>is_checkpoint := cp', is_files := fs'\<rparr>
          in case r of
               Inl e \<Rightarrow> (Inl (CheckpointFailed e), s')
             | Inr _ \<Rightarrow> (Inr (), record_ingest_rows_forwarded (fst tr) (snd tr)
                                (record_ingest_object_processed (po_source object) ''ok'' s')))"

text \<open>The attempts; \<open>last_err\<close> is the error of the latest failed one.\<close>

fun attempt_loop ::
    "('r, 'c) ingest_world \<Rightarrow> IngestConfig \<Rightarrow> ProcessObject \<Rightarrow> nat list \<Rightarrow> IngestError option
       \<Rightarrow> ('r, 'c, 'k) IngestState \<Rightarrow> (IngestError + unit) \<times> ('r, 'c, 'k) IngestState" where
  "attempt_loop w config object [] last_err s =
     (Inl (case last_err of Some e \<Rightarrow> e | None \<Rightarrow> FetchFailed ''ingest failed''), s)"
| "attempt_loop w config object (attempt # attempts) last_err s =
     (case fetch_decode_forward w config object s of
        (Inr tr, s') \<Rightarrow> mark_object w object tr s'
      | (Inl e, s') \<Rightarrow> attempt_loop w config object attempts (Some e) s')"

definition process_object ::
    "('r, 'c) ingest_world \<Rightarrow> IngestConfig \<Rightarrow> ProcessObject \<Rightarrow> ('r, 'c, 'k) IngestState
       \<Rightarrow> (IngestError + unit) \<times> ('r, 'c, 'k) IngestState" where
  "process_object w config object s =
     (if \<not> should_ingest_key (po_key object) then (Inr (), s)
      else if \<not> matches_prefix (po_key object) (rf_prefix (ig_rustfs config)) then (Inr (), s)
      else if \<not> should_process (is_checkpoint s) (po_bucket object) (po_key object) (po_etag object)
      then (Inr (), record_ingest_object_processed (po_source object) ''skipped'' s)
      else attempt_loop w config object [0..<3] None s)"

section \<open>The actor\<close>

text \<open>
  The messages in the order they are received, each with the number of messages still waiting. A failed object is counted and the loop goes on.
\<close>

definition handle_ingest_message ::
    "('r, 'c) ingest_world \<Rightarrow> IngestConfig \<Rightarrow> nat \<times> ProcessObject
       \<Rightarrow> ('r, 'c, 'k) IngestState \<Rightarrow> ('r, 'c, 'k) IngestState" where
  "handle_ingest_message w config msg s =
     (case msg of (waiting, object) \<Rightarrow>
        (case process_object w config object (record_ingest_mailbox_depth waiting s) of
           (Inl e, s') \<Rightarrow> record_ingest_object_processed (po_source object) ''error'' s'
         | (Inr _, s') \<Rightarrow> s'))"

definition ingest_run ::
    "('r, 'c) ingest_world \<Rightarrow> IngestConfig \<Rightarrow> (nat \<times> ProcessObject) list
       \<Rightarrow> ('r, 'c, 'k) IngestState \<Rightarrow> ('r, 'c, 'k) IngestState" where
  "ingest_run w config msgs s = fold (handle_ingest_message w config) msgs s"

definition ingest_spawn ::
    "(RustFsConfig \<Rightarrow> string option) \<Rightarrow> (string \<Rightarrow> string + entries) \<Rightarrow> files \<Rightarrow> ('r, 'c, 'k) AppState \<Rightarrow> IngestConfig
       \<Rightarrow> string + (Mailbox \<times> ('r, 'c, 'k) IngestState)" where
  "ingest_spawn build_error de fs app config =
     (case fetcher_from_config (ig_rustfs config) build_error of
        Inl e \<Rightarrow> Inl e
      | Inr fetcher \<Rightarrow>
          (case load de fs (ic_path (ig_checkpoint config)) of
             Inl e \<Rightarrow> Inl ''load ingest checkpoint''
           | Inr checkpoint \<Rightarrow>
               if ig_mailbox_capacity config = 0 then Inl ''mpsc bounded channel requires buffer > 0''
               else Inr (\<lparr> mb_queue = [], mb_capacity = ig_mailbox_capacity config \<rparr>,
                    \<lparr> is_app = app, is_forwarder = forwarder_new, is_checkpoint = checkpoint, is_files = fs,
                      is_attempts = 0, is_metrics = [] \<rparr>)))"

section \<open>Specification vocabulary\<close>

text \<open>
  The n-th attempt ingested the object: the store answered, its bytes decoded, every shard has received
  at least all the lines of the object that were its own, complete and in order, and the checkpoint
  records the object with its number of rows.
\<close>

definition ingested_at ::
    "('r, 'c) ingest_world \<Rightarrow> IngestConfig \<Rightarrow> ProcessObject \<Rightarrow> nat \<Rightarrow> ('r, 'c, 'k) IngestState \<Rightarrow> bool" where
  "ingested_at w config object n s \<longleftrightarrow>
     (\<exists>bytes etag table lines. iw_get w n (po_key object) = Inr (bytes, etag)
      \<and> decode_feather_to_ilp (iw_fmt w) (iw_reader w) (po_key object) bytes (ig_nautilus config) = Inr (table, lines)
      \<and> (\<forall>i. \<exists>earlier. received (is_forwarder s) i = earlier @ shard_bytes (iw_env w n) (iw_metadata w n) i lines)
      \<and> cp_entries (is_checkpoint s) (encode (po_bucket object) (po_key object)) =
          Some \<lparr> pm_etag = po_etag object, pm_processed_at = iw_now w (Suc n), pm_rows = of_nat (length lines) \<rparr>)"

text \<open>Objects the actor works on: the others it drops or skips.\<close>

definition eligible :: "IngestConfig \<Rightarrow> ProcessObject \<Rightarrow> bool" where
  "eligible config object \<longleftrightarrow>
     should_ingest_key (po_key object) \<and> matches_prefix (po_key object) (rf_prefix (ig_rustfs config))"

text \<open>What an attempt needs of the world to succeed.\<close>

definition world_ok :: "('r, 'c) ingest_world \<Rightarrow> nat \<Rightarrow> bool" where
  "world_ok w n \<longleftrightarrow>
     net_reliable (env_net (iw_env w n)) \<and> (\<forall>line. \<exists>shard. route_line (iw_env w n) (iw_metadata w n) line = Inr shard)"

definition store_ok :: "('r, 'c) ingest_world \<Rightarrow> IngestConfig \<Rightarrow> ProcessObject \<Rightarrow> nat \<Rightarrow> bool" where
  "store_ok w config object n \<longleftrightarrow>
     (\<exists>bytes etag tl. iw_get w n (po_key object) = Inr (bytes, etag)
      \<and> decode_feather_to_ilp (iw_fmt w) (iw_reader w) (po_key object) bytes (ig_nautilus config) = Inr tl)"

text \<open>Of any three attempts in a row at least one finds the network, the routing and the store working.\<close>

definition served :: "('r, 'c) ingest_world \<Rightarrow> IngestConfig \<Rightarrow> ProcessObject \<Rightarrow> bool" where
  "served w config object \<longleftrightarrow> (\<forall>k. \<exists>n. k \<le> n \<and> n < k + 3 \<and> world_ok w n \<and> store_ok w config object n)"

definition disk_ok :: "('r, 'c) ingest_world \<Rightarrow> bool" where
  "disk_ok w \<longleftrightarrow> (\<forall>n op. iw_fault w n op = None) \<and> (\<forall>m. finite (dom m) \<longrightarrow> (\<exists>data. iw_ser w m = Inr data))"

text \<open>The checkpoint is a hash map, which holds finitely many entries.\<close>

definition finite_checkpoint :: "('r, 'c, 'k) IngestState \<Rightarrow> bool" where
  "finite_checkpoint s \<longleftrightarrow> finite (dom (cp_entries (is_checkpoint s)))"

section \<open>Lemmas\<close>

subsection \<open>The forwarder keeps finitely many connections\<close>

lemma route_and_buffer_finite:
  "finite (dom fwd) \<Longrightarrow> finite (dom (snd (snd (route_and_buffer env st fwd line))))"
  by (auto simp: route_and_buffer_def Let_def split: sum.splits prod.splits)

lemma forward_lines_finite:
  "finite (dom fwd) \<Longrightarrow> finite (dom (snd (snd (forward_lines env lines st fwd))))"
proof (induction lines arbitrary: st fwd)
  case (Cons line lines)
  from route_and_buffer_finite [OF Cons.prems, of env st line] Cons.IH show ?case
    by (auto simp: forward_line_def split: sum.splits prod.splits)
qed simp

lemma flush_loop_finite: "finite (dom fwd) \<Longrightarrow> finite (dom (snd (flush_loop net is fwd)))"
proof (induction "is" arbitrary: fwd)
  case (Cons i "is")
  have "finite (dom (snd (flush_one net i fwd)))"
    using Cons.prems by (auto simp: flush_one_def split: option.splits sum.splits prod.splits)
  with Cons.IH show ?case by (auto split: sum.splits prod.splits)
qed simp

lemma forward_batch_finite:
  "finite (dom fwd) \<Longrightarrow> finite (dom (snd (snd (forward_batch env lines st fwd))))"
  using forward_lines_finite [of fwd env lines st] flush_loop_finite
  by (auto simp: forward_batch_def flush_def split: sum.splits prod.splits)

lemma forward_batch_ok:
  assumes "order_ok env" and "finite (dom fwd)" and "forward_batch env lines st fwd = (Inr x, st', fwd')"
  shows "received fwd' i = taken fwd i @ shard_bytes env (as_metadata st) i lines"
proof -
  from assms(3) obtain y fwd1 where f: "forward_lines env lines st fwd = (Inr y, st', fwd1)"
    and fl: "flush env fwd1 = (Inr x, fwd')" by (auto simp: forward_batch_def split: prod.splits sum.splits)
  note one = forward_lines_ok [OF f, of i]
  from one assms(2) have "finite (dom fwd1)" by blast
  from flush_ok [OF fl assms(1) this] one show ?thesis by simp
qed

lemma forward_batch_routed:
  "forward_batch env lines st fwd = (Inr x, st', fwd') \<Longrightarrow> all_routed env (as_metadata st) lines"
  by (auto simp: forward_batch_def split: prod.splits sum.splits dest: forward_lines_routed)

lemma reliable_batch:
  assumes "net_reliable (env_net env)" and "\<forall>line. \<exists>shard. route_line env (as_metadata st) line = Inr shard"
  shows "\<exists>st' fwd'. forward_batch env lines st fwd = (Inr (), st', fwd')"
proof -
  from reliable_lines [OF assms refl] obtain st1 fwd1 where
    "forward_lines env lines st fwd = (Inr (), st1, fwd1)" by blast
  moreover obtain fwd2 where "flush env fwd1 = (Inr (), fwd2)" using reliable_flush [OF assms(1)] by blast
  ultimately show ?thesis by (simp add: forward_batch_def)
qed

subsection \<open>One attempt\<close>

lemma attempt_frame:
  assumes "fetch_decode_forward w config object s = (r, s')"
  shows "is_attempts s' = Suc (is_attempts s)" and "is_checkpoint s' = is_checkpoint s"
    and "is_files s' = is_files s" and "is_metrics s' = is_metrics s"
    and "finite (dom (is_forwarder s)) \<Longrightarrow> finite (dom (is_forwarder s'))"
proof -
  have fin: "finite (dom fwd) \<Longrightarrow> forward_batch env ls st fwd = (x, st', fwd') \<Longrightarrow> finite (dom fwd')"
    for env st fwd ls x st' fwd'
    using forward_batch_finite [of fwd env ls st] by simp
  from assms show "is_attempts s' = Suc (is_attempts s)" "is_checkpoint s' = is_checkpoint s"
      "is_files s' = is_files s" "is_metrics s' = is_metrics s"
      "finite (dom (is_forwarder s)) \<Longrightarrow> finite (dom (is_forwarder s'))"
    by (auto simp: fetch_decode_forward_def Let_def split: sum.splits prod.splits dest!: fin)
qed

lemma attempt_ok:
  assumes "fetch_decode_forward w config object s = (Inr (table, rows), s')"
    and "order_ok (iw_env w (is_attempts s))" and "finite (dom (is_forwarder s))"
  obtains bytes etag lines where "iw_get w (is_attempts s) (po_key object) = Inr (bytes, etag)"
    and "decode_feather_to_ilp (iw_fmt w) (iw_reader w) (po_key object) bytes (ig_nautilus config) = Inr (table, lines)"
    and "rows = of_nat (length lines)"
    and "all_routed (iw_env w (is_attempts s)) (iw_metadata w (is_attempts s)) lines"
    and "\<And>i. received (is_forwarder s') i = taken (is_forwarder s) i
          @ shard_bytes (iw_env w (is_attempts s)) (iw_metadata w (is_attempts s)) i lines"
proof -
  let ?n = "is_attempts s" and ?app = "(is_app s)\<lparr>as_metadata := iw_metadata w (is_attempts s)\<rparr>"
  from assms(1) obtain bytes etag lines x app' where
      "iw_get w ?n (po_key object) = Inr (bytes, etag)"
      "decode_feather_to_ilp (iw_fmt w) (iw_reader w) (po_key object) bytes (ig_nautilus config) = Inr (table, lines)"
      "rows = of_nat (length lines)"
      and b: "forward_batch (iw_env w ?n) lines ?app (is_forwarder s) = (Inr x, app', is_forwarder s')"
    by (auto simp: fetch_decode_forward_def Let_def split: sum.splits prod.splits)
  with forward_batch_ok [OF assms(2,3) b] forward_batch_routed [OF b] that show ?thesis by simp
qed

lemma mark_object_ok:
  assumes "mark_object w object tr s = (r, s')"
  shows "is_attempts s' = is_attempts s" and "is_forwarder s' = is_forwarder s"
    and "cp_entries (is_checkpoint s') = (cp_entries (is_checkpoint s))(encode (po_bucket object) (po_key object) \<mapsto>
      \<lparr> pm_etag = po_etag object, pm_processed_at = iw_now w (is_attempts s), pm_rows = snd tr \<rparr>)"
    and "r = Inr () \<or> (\<exists>ce. r = Inl (CheckpointFailed ce))"
  using assms
  by (auto simp: mark_object_def mark_processed_def Let_def record_ingest_rows_forwarded_def
      record_ingest_object_processed_def split: prod.splits sum.splits)

lemma attempt_succeeds:
  assumes "world_ok w (is_attempts s)" and "store_ok w config object (is_attempts s)"
  shows "\<exists>tr s'. fetch_decode_forward w config object s = (Inr tr, s')"
proof -
  let ?n = "is_attempts s" and ?app = "(is_app s)\<lparr>as_metadata := iw_metadata w (is_attempts s)\<rparr>"
  from assms(2) obtain bytes etag table lines where store: "iw_get w ?n (po_key object) = Inr (bytes, etag)"
    "decode_feather_to_ilp (iw_fmt w) (iw_reader w) (po_key object) bytes (ig_nautilus config) = Inr (table, lines)"
    by (auto simp: store_ok_def)
  from assms(1) reliable_batch [of "iw_env w ?n" ?app lines "is_forwarder s"] obtain app' fwd' where
    "forward_batch (iw_env w ?n) lines ?app (is_forwarder s) = (Inr (), app', fwd')"
    by (auto simp: world_ok_def)
  with store show ?thesis by (simp add: fetch_decode_forward_def)
qed

lemma mark_object_succeeds:
  assumes "disk_ok w" and "finite_checkpoint s"
  shows "fst (mark_object w object tr s) = Inr ()"
proof -
  let ?m = "(cp_entries (is_checkpoint s))(encode (po_bucket object) (po_key object) \<mapsto>
    \<lparr> pm_etag = po_etag object, pm_processed_at = iw_now w (is_attempts s), pm_rows = snd tr \<rparr>)"
  have "finite (dom ?m)" using assms(2) by (simp add: finite_checkpoint_def)
  with assms(1) obtain data where "iw_ser w ?m = Inr data" unfolding disk_ok_def by blast
  then show ?thesis
    using assms(1) by (simp add: disk_ok_def mark_object_def mark_processed_def persist_def persist_ops_def Let_def)
qed

subsection \<open>The attempts\<close>

lemma attempt_loop_ok:
  assumes "\<And>n. order_ok (iw_env w n)"
  shows "attempt_loop w config object tries err s = (Inr x, s') \<Longrightarrow> finite (dom (is_forwarder s)) \<Longrightarrow>
    \<exists>n. is_attempts s \<le> n \<and> n < is_attempts s + length tries \<and> ingested_at w config object n s'"
proof (induction tries arbitrary: err s)
  case (Cons a tries)
  obtain r s1 where one: "fetch_decode_forward w config object s = (r, s1)" by (cases "fetch_decode_forward w config object s")
  note frame = attempt_frame [OF one]
  show ?case
  proof (cases r)
    case (Inl e)
    with Cons.prems(1) one have "attempt_loop w config object tries (Some e) s1 = (Inr x, s')" by simp
    from Cons.IH [OF this frame(5) [OF Cons.prems(2)]] obtain n where
      "is_attempts s1 \<le> n" "n < is_attempts s1 + length tries" "ingested_at w config object n s'" by blast
    with frame(1) show ?thesis by (intro exI [of _ n]) simp
  next
    case (Inr tr)
    obtain table rows where tr: "tr = (table, rows)" by (cases tr)
    from Inr Cons.prems(1) one have m: "mark_object w object tr s1 = (Inr x, s')" by simp
    from attempt_ok [OF one [unfolded Inr tr] assms Cons.prems(2)] mark_object_ok [OF m] frame(1) tr
    have "ingested_at w config object (is_attempts s) s'"
      unfolding ingested_at_def by (metis fun_upd_same snd_conv)
    then show ?thesis by (intro exI [of _ "is_attempts s"]) simp
  qed
qed simp

lemma attempt_loop_failed:
  "attempt_loop w config object tries err s = (Inl e, s') \<Longrightarrow>
     is_attempts s' \<le> is_attempts s + length tries
   \<and> ((\<exists>ce. e = CheckpointFailed ce) \<or>
      (is_attempts s' = is_attempts s + length tries \<and> is_checkpoint s' = is_checkpoint s \<and> is_files s' = is_files s))"
proof (induction tries arbitrary: err s)
  case (Cons a tries)
  obtain r s1 where one: "fetch_decode_forward w config object s = (r, s1)" by (cases "fetch_decode_forward w config object s")
  note frame = attempt_frame [OF one]
  show ?case
  proof (cases r)
    case (Inl e1)
    with Cons.prems(1) one have "attempt_loop w config object tries (Some e1) s1 = (Inl e, s')" by simp
    from Cons.IH [OF this] frame show ?thesis by simp
  next
    case (Inr tr)
    with Cons.prems one have "mark_object w object tr s1 = (Inl e, s')" by simp
    from mark_object_ok [OF this] frame show ?thesis by auto
  qed
qed simp

lemma attempt_loop_succeeds:
  assumes "disk_ok w"
  shows "finite_checkpoint s \<Longrightarrow> \<exists>n. is_attempts s \<le> n \<and> n < is_attempts s + length tries \<and> world_ok w n \<and> store_ok w config object n \<Longrightarrow>
    fst (attempt_loop w config object tries err s) = Inr ()"
proof (induction tries arbitrary: err s)
  case (Cons a tries)
  obtain r s1 where one: "fetch_decode_forward w config object s = (r, s1)" by (cases "fetch_decode_forward w config object s")
  note frame = attempt_frame [OF one]
  show ?case
  proof (cases r)
    case (Inl e)
    from Cons.prems(2) obtain n where n: "is_attempts s \<le> n" "n < is_attempts s + length (a # tries)"
        "world_ok w n" "store_ok w config object n" by blast
    with attempt_succeeds [of w s config object] one Inl have "n \<noteq> is_attempts s" by auto
    with n frame(1) have "\<exists>n. is_attempts s1 \<le> n \<and> n < is_attempts s1 + length tries \<and> world_ok w n \<and> store_ok w config object n"
      by (intro exI [of _ n]) simp
    from Cons.IH [OF _ this] Cons.prems(1) frame(2) one Inl show ?thesis by (simp add: finite_checkpoint_def)
  next
    case (Inr tr)
    with one mark_object_succeeds [OF assms, of s1] Cons.prems(1) frame(2) show ?thesis
      by (simp add: finite_checkpoint_def)
  qed
qed auto

lemma process_object_eligible:
  "eligible config object \<Longrightarrow> should_process (is_checkpoint s) (po_bucket object) (po_key object) (po_etag object) \<Longrightarrow>
     process_object w config object s = attempt_loop w config object [0..<3] None s"
  by (simp add: process_object_def eligible_def)

subsection \<open>The checkpoint only grows\<close>

lemma mark_object_dom:
  "mark_object w object tr s = (r, s') \<Longrightarrow>
     dom (cp_entries (is_checkpoint s')) = insert (encode (po_bucket object) (po_key object)) (dom (cp_entries (is_checkpoint s)))"
  by (simp add: mark_object_ok(3))

lemma attempt_loop_dom:
  "attempt_loop w config object tries err s = (r, s') \<Longrightarrow>
     dom (cp_entries (is_checkpoint s)) \<subseteq> dom (cp_entries (is_checkpoint s'))
   \<and> (r = Inr () \<longrightarrow> encode (po_bucket object) (po_key object) \<in> dom (cp_entries (is_checkpoint s')))"
proof (induction tries arbitrary: err s)
  case (Cons a tries)
  obtain r1 s1 where one: "fetch_decode_forward w config object s = (r1, s1)" by (cases "fetch_decode_forward w config object s")
  show ?case
  proof (cases r1)
    case (Inl e)
    with Cons.prems one have "attempt_loop w config object tries (Some e) s1 = (r, s')" by simp
    from Cons.IH [OF this] attempt_frame(2) [OF one] show ?thesis by simp
  next
    case (Inr tr)
    with Cons.prems one have m: "mark_object w object tr s1 = (r, s')" by simp
    show ?thesis unfolding mark_object_dom [OF m] attempt_frame(2) [OF one] by blast
  qed
qed auto

lemma process_object_dom:
  assumes "process_object w config object s = (r, s')"
  shows "dom (cp_entries (is_checkpoint s)) \<subseteq> dom (cp_entries (is_checkpoint s'))"
  using assms attempt_loop_dom [of w config object "[0..<3]" None s r s']
  by (auto simp: process_object_def record_ingest_object_processed_def split: if_splits)

lemma handle_ingest_message_dom:
  "dom (cp_entries (is_checkpoint s)) \<subseteq> dom (cp_entries (is_checkpoint (handle_ingest_message w config msg s)))"
proof -
  obtain waiting object where msg: "msg = (waiting, object)" by (cases msg)
  obtain r s' where p: "process_object w config object (record_ingest_mailbox_depth waiting s) = (r, s')"
    by (cases "process_object w config object (record_ingest_mailbox_depth waiting s)")
  from process_object_dom [OF p] p show ?thesis
    by (cases r) (simp_all add: handle_ingest_message_def msg record_ingest_mailbox_depth_def record_ingest_object_processed_def)
qed

lemma ingest_run_dom:
  "dom (cp_entries (is_checkpoint s)) \<subseteq> dom (cp_entries (is_checkpoint (ingest_run w config msgs s)))"
  unfolding ingest_run_def
proof (induction msgs arbitrary: s)
  case (Cons msg msgs)
  from handle_ingest_message_dom [of s w config msg] Cons.IH [of "handle_ingest_message w config msg s"] show ?case by simp
qed simp

lemma attempt_loop_finite_checkpoint:
  "attempt_loop w config object tries err s = (r, s') \<Longrightarrow> finite_checkpoint s \<Longrightarrow> finite_checkpoint s'"
proof (induction tries arbitrary: err s)
  case (Cons a tries)
  obtain r1 s1 where one: "fetch_decode_forward w config object s = (r1, s1)" by (cases "fetch_decode_forward w config object s")
  from Cons.prems(2) attempt_frame(2) [OF one] have fin: "finite_checkpoint s1" by (simp add: finite_checkpoint_def)
  show ?case
  proof (cases r1)
    case (Inl e)
    with Cons one fin show ?thesis by simp
  next
    case (Inr tr)
    with Cons.prems one have "mark_object w object tr s1 = (r, s')" by simp
    from mark_object_dom [OF this] fin show ?thesis by (simp add: finite_checkpoint_def)
  qed
qed simp

lemma ingest_run_finite_checkpoint: "finite_checkpoint s \<Longrightarrow> finite_checkpoint (ingest_run w config msgs s)"
proof -
  have "finite_checkpoint (handle_ingest_message w config (n, object) s)" if fin: "finite_checkpoint s" for n object s
  proof -
    let ?s = "s\<lparr>is_metrics := is_metrics s @ [MailboxDepth n]\<rparr>"
    obtain r s' where loop: "attempt_loop w config object [0..<3] None ?s = (r, s')" by fastforce
    from attempt_loop_finite_checkpoint [OF loop] fin loop show ?thesis
      by (auto simp: handle_ingest_message_def process_object_def record_ingest_object_processed_def
          record_ingest_mailbox_depth_def finite_checkpoint_def split: sum.splits prod.splits)
  qed
  then show "finite_checkpoint s \<Longrightarrow> finite_checkpoint (ingest_run w config msgs s)"
    unfolding ingest_run_def by (induction msgs arbitrary: s) auto
qed

lemma handle_ingest_message_marks:
  assumes "disk_ok w" and "served w config object" and "eligible config object" and "finite_checkpoint s"
  shows "contains (is_checkpoint (handle_ingest_message w config (waiting, object) s)) (po_bucket object) (po_key object)"
proof (cases "should_process (is_checkpoint s) (po_bucket object) (po_key object) (po_etag object)")
  case False
  then have "encode (po_bucket object) (po_key object) \<in> dom (cp_entries (is_checkpoint s))"
    by (auto simp: should_process_def split: option.splits)
  with handle_ingest_message_dom [of s w config "(waiting, object)"] show ?thesis by (auto simp: contains_def)
next
  case True
  let ?s = "record_ingest_mailbox_depth waiting s"
  from True have cp: "should_process (is_checkpoint ?s) (po_bucket object) (po_key object) (po_etag object)"
    by (simp add: record_ingest_mailbox_depth_def)
  have "fst (attempt_loop w config object [0..<3] None ?s) = Inr ()"
    by (rule attempt_loop_succeeds [OF assms(1)])
      (use assms(2,4) in \<open>simp_all add: served_def finite_checkpoint_def record_ingest_mailbox_depth_def\<close>)
  then obtain s' where l: "attempt_loop w config object [0..<3] None ?s = (Inr (), s')"
    by (metis prod.collapse)
  from attempt_loop_dom [OF l] l process_object_eligible [OF assms(3) cp] show ?thesis
    by (auto simp: handle_ingest_message_def contains_def)
qed

lemma ingest_run_marks:
  assumes "disk_ok w" and "served w config object"
    and "eligible config object" and "finite_checkpoint s" and "(waiting, object) \<in> set msgs"
  shows "contains (is_checkpoint (ingest_run w config msgs s)) (po_bucket object) (po_key object)"
proof -
  from assms(5) obtain before after where msgs: "msgs = before @ (waiting, object) # after"
    by (auto simp: in_set_conv_decomp)
  let ?s = "handle_ingest_message w config (waiting, object) (ingest_run w config before s)"
  have "contains (is_checkpoint ?s) (po_bucket object) (po_key object)"
    by (rule handle_ingest_message_marks [OF assms(1-3) ingest_run_finite_checkpoint [OF assms(4)]])
  moreover have "ingest_run w config msgs s = ingest_run w config after ?s"
    by (simp add: ingest_run_def msgs)
  ultimately show ?thesis using ingest_run_dom [of ?s w config after] by (auto simp: contains_def)
qed

subsection \<open>A failed attempt\<close>

lemma forward_lines_append:
  "forward_lines env (xs @ ys) st fwd =
     (case forward_lines env xs st fwd of
        (Inl e, st', fwd') \<Rightarrow> (Inl e, st', fwd')
      | (Inr _, st', fwd') \<Rightarrow> forward_lines env ys st' fwd')"
  by (induction xs arbitrary: st fwd) (auto split: prod.splits sum.splits)

lemma forward_failure:
  assumes "iw_get w (is_attempts s) (po_key object) = Inr (bytes, etag)"
    and "decode_feather_to_ilp (iw_fmt w) (iw_reader w) (po_key object) bytes (ig_nautilus config) = Inr (table, ls1 @ l # ls2)"
    and "forward_lines (iw_env w (is_attempts s)) ls1 ((is_app s)\<lparr>as_metadata := iw_metadata w (is_attempts s)\<rparr>)
      (is_forwarder s) = (Inr x, app1, fwd1)"
    and "forward_line (iw_env w (is_attempts s)) app1 fwd1 l = (Inl e, app2, fwd2)"
  shows "\<exists>s1. fetch_decode_forward w config object s = (Inl (ForwardFailed e), s1) \<and> is_forwarder s1 = fwd2"
proof -
  from assms(3,4) have "forward_batch (iw_env w (is_attempts s)) (ls1 @ l # ls2)
      ((is_app s)\<lparr>as_metadata := iw_metadata w (is_attempts s)\<rparr>) (is_forwarder s) = (Inl e, app2, fwd2)"
    by (simp add: forward_batch_def forward_lines_append)
  with assms(1,2) show ?thesis by (simp add: fetch_decode_forward_def)
qed

subsection \<open>A world for the witnesses\<close>

text \<open>One object with a trade of the instrument A and one of the instrument B, on two shards.\<close>

definition demo_world :: "(nat \<Rightarrow> netio) \<Rightarrow> (VNode list, nat \<times> StreamTick list) ingest_world" where
  "demo_world nets =
     \<lparr> iw_env = (\<lambda>n. demo_env (nets n)), iw_metadata = (\<lambda>n. as_metadata demo_ilp_app), iw_get = (\<lambda>n k. Inr ([], None)),
       iw_fmt = demo_fmt, iw_reader = (\<lambda>_. Inr [Inr (demo_batch ''A.X''), Inr (demo_batch ''B.X'')]),
       iw_ser = (\<lambda>_. Inr ''x''), iw_fault = (\<lambda>n op. None), iw_now = (\<lambda>n. n) \<rparr>"

definition demo_object :: ProcessObject where
  "demo_object = \<lparr> po_bucket = ''b'', po_key = demo_key, po_etag = Some ''e1'', po_source = Webhook \<rparr>"

definition demo_ingest :: "(VNode list, nat \<times> StreamTick list, nat) IngestState" where
  "demo_ingest = \<lparr> is_app = demo_ilp_app, is_forwarder = forwarder_new,
     is_checkpoint = \<lparr> cp_path = ''c.json'', cp_entries = Map.empty \<rparr>, is_files = Map.empty, is_attempts = 0, is_metrics = [] \<rparr>"

lemma demo_decode:
  "decode_feather_to_ilp demo_fmt (\<lambda>_. Inr [Inr (demo_batch ''A.X''), Inr (demo_batch ''B.X'')]) demo_key bytes default_nautilus
     = Inr (''trade_ticks'', [demo_line ''symbol=A,venue=X'', demo_line ''symbol=B,venue=X''])"
proof -
  have meta: "resolve_meta demo_key TradeTick (demo_batch ''A.X'')
      = \<lparr> im_symbol = ''A'', im_venue = ''X'', im_price_precision = 8, im_size_precision = 8 \<rparr>"
    "resolve_meta demo_key TradeTick (demo_batch ''B.X'')
      = \<lparr> im_symbol = ''B'', im_venue = ''X'', im_price_precision = 8, im_size_precision = 8 \<rparr>"
    by code_simp+
  have tags: "escape_tag ''A'' = ''A''" "escape_tag ''B'' = ''B''" "escape_tag ''X'' = ''X''" by code_simp+
  have "concat (map (batch_lines demo_fmt demo_key TradeTick default_nautilus) [demo_batch ''A.X'', demo_batch ''B.X''])
      = map Inr [demo_line ''symbol=A,venue=X'', demo_line ''symbol=B,venue=X'']"
    using demo_batch_line [OF meta(1)] demo_batch_line [OF meta(2)] tags by simp
  from batch_loop_complete [OF this, of "[]" "[]"]
  have "batch_loop demo_fmt demo_key TradeTick default_nautilus [Inr (demo_batch ''A.X''), Inr (demo_batch ''B.X'')] [] []
      = Inr (kind_table default_nautilus TradeTick, [demo_line ''symbol=A,venue=X'', demo_line ''symbol=B,venue=X''])"
    by (simp del: batch_loop.simps)
  then show ?thesis
    by (simp add: decode_feather_to_ilp_def demo_key_kind del: batch_loop.simps)
      (simp add: kind_table_def default_nautilus_def)
qed

lemma demo_world_simps:
  "order_ok (iw_env (demo_world nets) n)" "disk_ok (demo_world nets)"
  "store_ok (demo_world nets) default_ingest demo_object n"
  "eligible default_ingest demo_object" "finite (dom (is_forwarder demo_ingest))"
  "should_process (is_checkpoint demo_ingest) (po_bucket demo_object) (po_key demo_object) (po_etag demo_object)"
  "finite_checkpoint demo_ingest"
proof -
  show "eligible default_ingest demo_object" by code_simp
  show "store_ok (demo_world nets) default_ingest demo_object n"
    by (simp add: store_ok_def demo_world_def demo_object_def default_ingest_def demo_decode)
qed (simp_all add: demo_world_def disk_ok_def demo_ingest_def finite_checkpoint_def forwarder_new_def should_process_def)

lemma demo_world_ok: "nets n = good_net \<Longrightarrow> world_ok (demo_world nets) n"
  by (simp add: world_ok_def demo_world_def demo_routes)

lemma demo_served: "served (demo_world (\<lambda>_. good_net)) default_ingest demo_object"
  using demo_world_ok [of "\<lambda>_. good_net"] demo_world_simps(3) [of "\<lambda>_. good_net"] by (auto simp: served_def)

section \<open>Properties\<close>

text \<open>
  An ingested object has been delivered and recorded. When \<open>process_object\<close> returns without error for an
  object it does not skip, one of at most three attempts fetched and decoded the object, every shard has
  received its lines of it complete and in order (after whatever earlier attempts had sent), and the
  checkpoint records the object's own etag and the number of its rows.
\<close>

theorem ingested_object_is_delivered:
  assumes "\<And>n. order_ok (iw_env w n)" and "finite (dom (is_forwarder s))" and "eligible config object"
    and "should_process (is_checkpoint s) (po_bucket object) (po_key object) (po_etag object)"
    and "process_object w config object s = (Inr x, s')"
  shows "\<exists>n. is_attempts s \<le> n \<and> n < is_attempts s + 3 \<and> ingested_at w config object n s'"
  using attempt_loop_ok [where w = w and config = config and object = object and tries = "[0..<3]" and s = s and s' = s' and err = None]
    assms process_object_eligible [OF assms(3,4), of w] by simp

theorem ingested_object_is_delivered_witness:
  "\<exists>s'. process_object (demo_world (\<lambda>_. good_net)) default_ingest demo_object demo_ingest = (Inr (), s')
     \<and> (\<exists>n < 3. ingested_at (demo_world (\<lambda>_. good_net)) default_ingest demo_object n s')"
proof -
  let ?w = "demo_world (\<lambda>_. good_net)"
  have "fst (attempt_loop ?w default_ingest demo_object [0..<3] None demo_ingest) = Inr ()"
    by (rule attempt_loop_succeeds) (auto simp: demo_world_simps demo_world_ok)
  then obtain s' where p: "process_object ?w default_ingest demo_object demo_ingest = (Inr (), s')"
    using process_object_eligible [OF demo_world_simps(4,6), of ?w] by (metis prod.collapse)
  from ingested_object_is_delivered [OF demo_world_simps(1,5,4,6) p] p show ?thesis
    by (auto simp: demo_ingest_def)
qed

text \<open>
  A failed object is not recorded: when \<open>process_object\<close> returns an error, either writing the checkpoint
  failed, or all three attempts were made and the checkpoint is, in memory and on disk, what it was, so
  that a later notification or scan processes the object again. There are never more than three attempts.
\<close>

theorem failed_object_is_not_marked:
  assumes "process_object w config object s = (Inl e, s')"
  shows "is_attempts s' \<le> is_attempts s + 3
    \<and> ((\<exists>ce. e = CheckpointFailed ce) \<or>
       (is_attempts s' = is_attempts s + 3 \<and> is_checkpoint s' = is_checkpoint s \<and> is_files s' = is_files s))"
proof -
  from assms have "attempt_loop w config object [0..<3] None s = (Inl e, s')"
    by (auto simp: process_object_def split: if_splits)
  from attempt_loop_failed [OF this] show ?thesis by simp
qed

theorem failed_object_is_not_marked_witness:
  "\<exists>e s'. process_object ((demo_world (\<lambda>_. good_net))\<lparr>iw_get := \<lambda>n k. Inl ''timeout''\<rparr>) default_ingest demo_object demo_ingest = (Inl e, s')
     \<and> is_attempts s' = 3 \<and> is_checkpoint s' = is_checkpoint demo_ingest"
proof -
  let ?w = "(demo_world (\<lambda>_. good_net))\<lparr>iw_get := \<lambda>n k. Inl ''timeout''\<rparr>"
  have "fetch_decode_forward ?w default_ingest demo_object s =
      (Inl (FetchFailed ''timeout''), s\<lparr>is_attempts := Suc (is_attempts s), is_app := (is_app s)\<lparr>as_metadata := iw_metadata ?w (is_attempts s)\<rparr>\<rparr>)"
    for s :: "(VNode list, nat \<times> StreamTick list, nat) IngestState"
    by (simp add: fetch_decode_forward_def Let_def)
  then obtain s' where p: "process_object ?w default_ingest demo_object demo_ingest = (Inl (FetchFailed ''timeout''), s')"
    using process_object_eligible [OF demo_world_simps(4,6), of ?w] by (simp add: numeral_3_eq_3 upt_rec)
  from failed_object_is_not_marked [OF p] p show ?thesis by (auto simp: demo_ingest_def)
qed

text \<open>
  The actor keeps going: whatever the other messages do - fail to fetch, fail to decode, lie outside the
  prefix - an eligible object among the received messages is in the checkpoint when the run ends, as long as the
  disk works and, of any three attempts in a row, one finds the network, the routing and the store working.
\<close>

theorem actor_ingests_every_served_object:
  assumes "disk_ok w" and "served w config object"
    and "eligible config object" and "finite_checkpoint s" and "(waiting, object) \<in> set msgs"
  shows "contains (is_checkpoint (ingest_run w config msgs s)) (po_bucket object) (po_key object)"
  by (rule ingest_run_marks [OF assms])

theorem actor_ingests_every_served_object_witness:
  "contains (is_checkpoint (ingest_run (demo_world (\<lambda>_. good_net)) default_ingest
       [(1, demo_object\<lparr>po_key := ''other.feather''\<rparr>), (0, demo_object)] demo_ingest)) ''b'' demo_key"
  using actor_ingests_every_served_object [OF demo_world_simps(2) demo_served demo_world_simps(4,7),
      where msgs = "[(1, demo_object\<lparr>po_key := ''other.feather''\<rparr>), (0, demo_object)]" and waiting = 0]
  by (simp add: demo_object_def)

text \<open>
  A retry sends again what a failed attempt had already queued: when the first attempt fails after some
  lines of the object were buffered (their shards reachable) and the second succeeds, every shard receives
  those first lines twice.
\<close>

theorem retry_resends_forwarded_lines:
  assumes "\<And>n. order_ok (iw_env w n)" and "finite (dom (is_forwarder s))" and "eligible config object"
    and "should_process (is_checkpoint s) (po_bucket object) (po_key object) (po_etag object)"
    and "iw_get w (is_attempts s) (po_key object) = Inr (bytes, etag)"
    and "iw_get w (Suc (is_attempts s)) (po_key object) = Inr (bytes, etag)"
    and d: "decode_feather_to_ilp (iw_fmt w) (iw_reader w) (po_key object) bytes (ig_nautilus config) = Inr (table, ls1 @ l # ls2)"
    and f: "forward_lines (iw_env w (is_attempts s)) ls1 ((is_app s)\<lparr>as_metadata := iw_metadata w (is_attempts s)\<rparr>)
      (is_forwarder s) = (Inr x, app1, fwd1)"
    and e: "forward_line (iw_env w (is_attempts s)) app1 fwd1 l = (Inl e, app2, fwd1)"
    and "world_ok w (Suc (is_attempts s))" and "disk_ok w" and "finite_checkpoint s"
  shows "\<exists>s'. process_object w config object s = (Inr (), s')
    \<and> (\<forall>i. received (is_forwarder s') i = taken (is_forwarder s) i
        @ shard_bytes (iw_env w (is_attempts s)) (iw_metadata w (is_attempts s)) i ls1
        @ shard_bytes (iw_env w (Suc (is_attempts s))) (iw_metadata w (Suc (is_attempts s))) i (ls1 @ l # ls2))"
proof -
  from forward_failure [OF assms(5) d f e] obtain s1 where
    one: "fetch_decode_forward w config object s = (Inl (ForwardFailed e), s1)" and fwd1: "is_forwarder s1 = fwd1" by blast
  note frame = attempt_frame [OF one]
  have "store_ok w config object (is_attempts s1)" using assms(6) d frame(1) by (auto simp: store_ok_def)
  with attempt_succeeds [of w s1] assms(10) frame(1) obtain table' rows s2 where
    two: "fetch_decode_forward w config object s1 = (Inr (table', rows), s2)" by fastforce
  have sent: "received (is_forwarder s2) i = taken fwd1 i
      @ shard_bytes (iw_env w (Suc (is_attempts s))) (iw_metadata w (Suc (is_attempts s))) i (ls1 @ l # ls2)" for i
    by (rule attempt_ok [OF two assms(1) frame(5) [OF assms(2)]]) (use assms(6) d frame(1) fwd1 in simp)
  have "finite_checkpoint s2"
    using assms(12) frame(2) attempt_frame(2) [OF two] by (simp add: finite_checkpoint_def)
  then obtain s' where m: "mark_object w object (table', rows) s2 = (Inr (), s')"
    using mark_object_succeeds [OF assms(11), of s2 object "(table', rows)"]
    by (cases "mark_object w object (table', rows) s2") simp
  have "process_object w config object s = (Inr (), s')"
    using process_object_eligible [OF assms(3,4), of w] one two m by (simp add: numeral_3_eq_3 upt_rec)
  moreover have "received (is_forwarder s') i = received (is_forwarder s2) i" for i
    using mark_object_ok(2) [OF m] by simp
  ultimately show ?thesis using sent forward_lines_ok [OF f] by simp
qed

theorem retry_resends_forwarded_lines_witness:
  "\<exists>s'. process_object
       (demo_world (\<lambda>n. if n = 0 then good_net\<lparr>net_connect := \<lambda>a. if a = ''b'' then Inl ''refused'' else Inr ()\<rparr> else good_net))
       default_ingest demo_object demo_ingest = (Inr (), s')
     \<and> received (is_forwarder s') 0 = demo_line ''symbol=A,venue=X'' @ [NL] @ demo_line ''symbol=A,venue=X'' @ [NL]"
proof -
  let ?net = "good_net\<lparr>net_connect := \<lambda>a. if a = ''b'' then Inl ''refused'' else Inr ()\<rparr>"
  let ?w = "demo_world (\<lambda>n. if n = 0 then ?net else good_net)"
  let ?l1 = "demo_line ''symbol=A,venue=X''" and ?l2 = "demo_line ''symbol=B,venue=X''"
  let ?u = "\<lparr> up_address = ''a'', up_written = [], up_buf = ?l1 @ [NL] \<rparr>"
  have key1: "ilp_line_key memchr_ref (as_metadata demo_ilp_app) ?l1 = ''A''"
    and key2: "ilp_line_key memchr_ref (as_metadata demo_ilp_app) ?l2 = ''B''"
    by (simp_all add: ilp_line_key_def demo_ilp_app_def spawn_handle_def registry_from_config_def
        shard_key_for_def registry_get_def demo_line_def) code_simp+
  have lines: "takeWhile (\<lambda>b. b \<noteq> NL) ?l1 \<noteq> []" "takeWhile (\<lambda>b. b \<noteq> NL) ?l2 \<noteq> []" "last ?l1 \<noteq> NL" "length ?l1 < 100"
    by (simp_all add: demo_line_def)
  have app: "demo_ilp_app\<lparr>as_metadata := as_metadata demo_ilp_app\<rparr> = demo_ilp_app" by (simp add: demo_ilp_app_def)
  have f: "forward_lines (demo_env ?net) [?l1] demo_ilp_app forwarder_new = (Inr (), demo_ilp_app, forwarder_new(0 \<mapsto> ?u))"
    using lines by (simp add: forward_line_def route_and_buffer_def demo_route key1 open_upstream_def forwarder_new_def
        demo_pair_def SHARD_BUF_FLUSH_BYTES_def)
  have e: "forward_line (demo_env ?net) demo_ilp_app (forwarder_new(0 \<mapsto> ?u)) ?l2 =
      (Inl (IoFailed ''refused''), demo_ilp_app, forwarder_new(0 \<mapsto> ?u))"
    using lines by (simp add: forward_line_def route_and_buffer_def demo_route key2 open_upstream_def forwarder_new_def demo_pair_def)
  have own: "shard_bytes (demo_env net) (as_metadata demo_ilp_app) 0 [?l1] = ?l1 @ [NL]"
      "shard_bytes (demo_env net) (as_metadata demo_ilp_app) 0 [?l1, ?l2] = ?l1 @ [NL]" for net
    using lines by (simp_all add: shard_bytes_def goes_to_def demo_route key1 key2 demo_pair_def terminated_def)
  have "\<exists>s'. process_object ?w default_ingest demo_object demo_ingest = (Inr (), s')
    \<and> (\<forall>i. received (is_forwarder s') i = taken (is_forwarder demo_ingest) i
        @ shard_bytes (iw_env ?w (is_attempts demo_ingest)) (iw_metadata ?w (is_attempts demo_ingest)) i [?l1]
        @ shard_bytes (iw_env ?w (Suc (is_attempts demo_ingest))) (iw_metadata ?w (Suc (is_attempts demo_ingest))) i ([?l1] @ ?l2 # []))"
    by (rule retry_resends_forwarded_lines [OF demo_world_simps(1,5,4,6), where bytes = "[]" and etag = None
          and table = "''trade_ticks''" and ?app1.0 = demo_ilp_app and ?app2.0 = demo_ilp_app
          and ?fwd1.0 = "forwarder_new(0 \<mapsto> ?u)" and e = "IoFailed ''refused''" and x = "()"])
      (simp_all add: demo_world_simps demo_world_ok del: forward_lines.simps,
       simp_all add: demo_world_def demo_object_def default_ingest_def demo_decode demo_ingest_def app f e del: forward_lines.simps)
  then show ?thesis
    by (auto simp: demo_ingest_def demo_world_def own forwarder_new_def taken_def)
qed


end
