(* ===== verification/Server_Run.thy ===== *)
theory Server_Run
  imports Ingest_Actor
begin

text \<open>
  The process, \<open>server/mod.rs\<close>: start-up of the components in the order of \<open>run\<close>, and the loop that
  probes the shards and reports their health to the metadata actor. Dialling with a timeout is the
  parameter \<open>dial\<close>, whose result may differ from round to round. The listeners that \<open>run\<close> collects are
  the tasks of the started server; waiting for them is not modelled.
\<close>

section \<open>Health checks\<close>

datatype probe_result = Connected | Refused string | TimedOut

definition probe_ok :: "probe_result \<Rightarrow> bool" where
  "probe_ok r = (case r of Connected \<Rightarrow> True | _ \<Rightarrow> False)"

definition check_shard :: "(string \<Rightarrow> probe_result) \<Rightarrow> ShardConfig \<Rightarrow> MetadataMessage" where
  "check_shard dial shard =
     ReportHealth (sc_id shard) (probe_ok (dial (as_str (sc_ilp_address shard))))
       (probe_ok (dial (as_str (sc_pg_address shard))))"

definition health_check_round :: "(string \<Rightarrow> probe_result) \<Rightarrow> ShardConfig list \<Rightarrow> MetadataMessage list" where
  "health_check_round dial shards = map (check_shard dial) shards"

text \<open>The messages of the first \<open>n\<close> rounds of the endless loop.\<close>

fun health_check_loop :: "nat \<Rightarrow> (nat \<Rightarrow> string \<Rightarrow> probe_result) \<Rightarrow> ShardConfig list \<Rightarrow> MetadataMessage list" where
  "health_check_loop 0 dial shards = []"
| "health_check_loop (Suc n) dial shards = health_check_loop n dial shards @ health_check_round (dial n) shards"

section \<open>Start-up\<close>

datatype ServerTask =
    ServeIlp SocketAddr
  | ServePg SocketAddr
  | ServeStream SocketAddr
  | ServeIngest HttpState SocketAddr

record ('r, 'c, 'k) Server =
  sv_metadata :: "'r MetadataState"
  sv_state :: "('r, 'c, 'k) AppState"
  sv_ingest :: "(Mailbox \<times> ('r, 'c, 'k) IngestState) option"
  sv_reconciles :: bool
  sv_tasks :: "ServerTask list"

record ('r, 'c) server_env =
  se_ring :: "'r hash_ring_ops"
  se_bc :: "'c broadcast_ops"
  se_load :: "string \<Rightarrow> string + Config"
  se_metrics_init :: "bool \<Rightarrow> SocketAddr option \<Rightarrow> string + unit"
  se_build_error :: "RustFsConfig \<Rightarrow> string option"
  se_de :: "string \<Rightarrow> string + entries"
  se_files :: files

text \<open>The ingest part: the actor, the scan, and the state of the webhook with its address.\<close>

definition start_ingest ::
    "('r, 'c) server_env \<Rightarrow> Config \<Rightarrow> ('r, 'c, 'k) AppState
       \<Rightarrow> string + ((Mailbox \<times> ('r, 'c, 'k) IngestState) \<times> bool \<times> HttpState \<times> SocketAddr) option" where
  "start_ingest env config state =
     (let ingest = cfg_ingest config
      in if ig_enabled ingest then
           (case ingest_spawn (se_build_error env) (se_de env) (se_files env) state ingest of
              Inl e \<Rightarrow> Inl e
            | Inr actor \<Rightarrow>
                (case fetcher_from_config (ig_rustfs ingest) (se_build_error env) of
                   Inl e \<Rightarrow> Inl e
                 | Inr fetcher \<Rightarrow>
                     (case ig_listen ingest of
                        None \<Rightarrow> Inl ''ingest.listen required when ingest.enabled = true''
                      | Some addr \<Rightarrow>
                          Inr (Some (actor, ir_enabled (ig_reconcile ingest) \<or> ir_startup_scan (ig_reconcile ingest),
                            \<lparr> hs_default_bucket = (case rf_bucket (ig_rustfs ingest) of Some b \<Rightarrow> b | None \<Rightarrow> ''''),
                              hs_prefix = rf_prefix (ig_rustfs ingest) \<rparr>, addr)))))
         else Inr None)"

definition stream_tasks :: "('r, 'c, 'k) AppState \<Rightarrow> string + ServerTask list" where
  "stream_tasks state =
     (if st_enabled (cfg_stream (as_config state)) then
        (case as_stream state of
           None \<Rightarrow> Inl ''stream enabled but hub not initialized''
         | Some hub \<Rightarrow>
             (case lc_stream (cfg_listen (as_config state)) of
                None \<Rightarrow> Inl ''stream enabled but listen.stream not set''
              | Some addr \<Rightarrow> Inr [ServeStream addr]))
      else Inr [])"

definition server_run :: "('r, 'c) server_env \<Rightarrow> string \<Rightarrow> string + ('r, 'c, 'k) Server" where
  "server_run env config_path =
     (case from_file (se_load env) config_path of
        Inl e \<Rightarrow> Inl e
      | Inr config \<Rightarrow>
          (case se_metrics_init env (mc_enabled (cfg_metrics config)) (mc_address (cfg_metrics config)) of
             Inl e \<Rightarrow> Inl e
           | Inr _ \<Rightarrow>
               let metadata = actor_spawn (se_ring env) config
               in case app_new (se_bc env) config (spawn_handle metadata config) of
                    Inl e \<Rightarrow> Inl e
                  | Inr state \<Rightarrow>
                      (case start_ingest env config state of
                         Inl e \<Rightarrow> Inl e
                       | Inr ingest \<Rightarrow>
                           (case stream_tasks state of
                              Inl e \<Rightarrow> Inl e
                            | Inr stream \<Rightarrow>
                                Inr \<lparr> sv_metadata = metadata, sv_state = state,
                                      sv_ingest = map_option fst ingest,
                                      sv_reconciles = (case ingest of Some (_, r, _) \<Rightarrow> r | None \<Rightarrow> False),
                                      sv_tasks = [ServeIlp (lc_ilp (cfg_listen (as_config state))),
                                                  ServePg (lc_pg (cfg_listen (as_config state)))] @ stream
                                        @ (case ingest of Some (_, _, hs, addr) \<Rightarrow> [ServeIngest hs addr] | None \<Rightarrow> []) \<rparr>))))"

section \<open>Specification vocabulary\<close>

text \<open>The metadata state once the reports of the round \<open>n\<close> have been handled.\<close>

definition checked ::
    "'r hash_ring_ops \<Rightarrow> Config \<Rightarrow> (nat \<Rightarrow> string \<Rightarrow> probe_result) \<Rightarrow> nat \<Rightarrow> 'r MetadataState" where
  "checked ops config dial n = actor_run (health_check_loop (Suc n) dial (cfg_shards config)) (actor_spawn ops config)"

definition probed_ok :: "(string \<Rightarrow> probe_result) \<Rightarrow> Protocol \<Rightarrow> ShardConfig \<Rightarrow> bool" where
  "probed_ok dial p s \<longleftrightarrow>
     probe_ok (dial (as_str (case p of Ilp \<Rightarrow> sc_ilp_address s | Pg \<Rightarrow> sc_pg_address s)))"

section \<open>Lemmas\<close>

lemma last_report_round:
  assumes "distinct (map sc_id shards)" and "s \<in> set shards"
  shows "last_report (msgs @ health_check_round dial shards) (sc_id s) =
    Some \<lparr> ilp_ok = probe_ok (dial (as_str (sc_ilp_address s))), pg_ok = probe_ok (dial (as_str (sc_pg_address s))) \<rparr>"
proof -
  let ?reports = "rev (map report_of (health_check_round dial shards))"
  have ids: "map fst ?reports = rev (map sc_id shards)"
    by (simp add: health_check_round_def check_shard_def rev_map comp_def)
  have "(sc_id s, \<lparr> ilp_ok = probe_ok (dial (as_str (sc_ilp_address s))),
      pg_ok = probe_ok (dial (as_str (sc_pg_address s))) \<rparr>) \<in> set ?reports"
    using assms(2) by (force simp: health_check_round_def check_shard_def)
  with ids assms(1) have "map_of ?reports (sc_id s) = Some \<lparr> ilp_ok = probe_ok (dial (as_str (sc_ilp_address s))),
      pg_ok = probe_ok (dial (as_str (sc_pg_address s))) \<rparr>"
    by (intro map_of_is_SomeI) (simp_all only: distinct_rev)
  then show ?thesis by (simp add: last_report_def)
qed

lemma health_after_round:
  assumes "distinct (map sc_id shards)" and "s \<in> set shards"
  shows "is_ok_for (reported_health (health_check_loop (Suc n) dial shards) (sc_id s)) p = probed_ok (dial n) p s"
  using last_report_round [OF assms]
  by (cases p) (simp_all add: reported_health_def probed_ok_def)

lemma ingest_spawn_Inr_iff:
  "(\<exists>m s. ingest_spawn be de fs app config = Inr (m, s)) \<longleftrightarrow>
     (\<exists>f. fetcher_from_config (ig_rustfs config) be = Inr f) \<and> (\<exists>cp. load de fs (ic_path (ig_checkpoint config)) = Inr cp)
   \<and> 0 < ig_mailbox_capacity config"
  by (auto simp: ingest_spawn_def split: sum.splits)

lemma started_app:
  assumes "app_new bc config m = Inr state"
  shows "cfg_shards config \<noteq> []" and "as_config state = config" and "as_stream state \<noteq> None \<longleftrightarrow> st_enabled (cfg_stream config)"
  using assms by (auto simp: app_new_def Let_def split: if_splits)

lemma stream_tasks_accepted:
  assumes "from_file ld path = Inr config" and "app_new bc config m = Inr state"
  shows "stream_tasks state = Inr (case lc_stream (cfg_listen config) of
    Some a \<Rightarrow> if st_enabled (cfg_stream config) then [ServeStream a] else [] | None \<Rightarrow> [])"
  using assms(1) started_app [OF assms(2)]
  by (auto simp: stream_tasks_def from_file_Inr_iff split: option.splits)

definition ingest_startable :: "('r, 'c) server_env \<Rightarrow> IngestConfig \<Rightarrow> bool" where
  "ingest_startable env ingest \<longleftrightarrow>
     (\<exists>f. fetcher_from_config (ig_rustfs ingest) (se_build_error env) = Inr f)
   \<and> (\<exists>cp. load (se_de env) (se_files env) (ic_path (ig_checkpoint ingest)) = Inr cp)
   \<and> 0 < ig_mailbox_capacity ingest"

lemma start_ingest_accepted:
  assumes "from_file ld path = Inr config"
  shows "(\<exists>i. start_ingest env config state = Inr i) \<longleftrightarrow>
      (ig_enabled (cfg_ingest config) \<longrightarrow> ingest_startable env (cfg_ingest config))"
    and "start_ingest env config state = Inr i \<Longrightarrow>
      (case i of None \<Rightarrow> \<not> ig_enabled (cfg_ingest config)
       | Some (actor, r, hs, addr) \<Rightarrow> ig_enabled (cfg_ingest config) \<and> ig_listen (cfg_ingest config) = Some addr)"
proof -
  from assms have listen: "ig_enabled (cfg_ingest config) \<Longrightarrow> \<exists>a. ig_listen (cfg_ingest config) = Some a"
    by (auto simp: from_file_Inr_iff)
  then show "(\<exists>i. start_ingest env config state = Inr i) \<longleftrightarrow>
      (ig_enabled (cfg_ingest config) \<longrightarrow> ingest_startable env (cfg_ingest config))"
    using ingest_spawn_Inr_iff [of "se_build_error env" "se_de env" "se_files env" state "cfg_ingest config"]
    by (auto simp: start_ingest_def ingest_startable_def Let_def split: sum.splits option.splits)
  show "start_ingest env config state = Inr i \<Longrightarrow>
      (case i of None \<Rightarrow> \<not> ig_enabled (cfg_ingest config)
       | Some (actor, r, hs, addr) \<Rightarrow> ig_enabled (cfg_ingest config) \<and> ig_listen (cfg_ingest config) = Some addr)"
    by (auto simp: start_ingest_def Let_def split: sum.splits option.splits if_splits)
qed

lemma server_run_accepted:
  assumes "from_file (se_load env) path = Inr config"
  shows "server_run env path = Inr sv \<longleftrightarrow>
    (\<exists>u state i stream.
       se_metrics_init env (mc_enabled (cfg_metrics config)) (mc_address (cfg_metrics config)) = Inr u
     \<and> app_new (se_bc env) config (spawn_handle (actor_spawn (se_ring env) config) config) = Inr state
     \<and> start_ingest env config state = Inr i \<and> stream_tasks state = Inr stream
     \<and> sv = \<lparr> sv_metadata = actor_spawn (se_ring env) config, sv_state = state, sv_ingest = map_option fst i,
              sv_reconciles = (case i of Some (_, r, _) \<Rightarrow> r | None \<Rightarrow> False),
              sv_tasks = [ServeIlp (lc_ilp (cfg_listen (as_config state))), ServePg (lc_pg (cfg_listen (as_config state)))] @ stream
                @ (case i of Some (_, _, hs, addr) \<Rightarrow> [ServeIngest hs addr] | None \<Rightarrow> []) \<rparr>)"
  by (auto simp: server_run_def assms Let_def split: sum.splits)

section \<open>Properties\<close>

text \<open>
  C13. Routing follows the last health check. After any number of probe rounds over shards with distinct ids,
  with exclusion of unhealthy shards on: the published health of every shard is what the last round
  measured, however earlier rounds went; no key is routed to a shard whose last probe failed; and a key
  goes to its home shard again as soon as a round finds that shard reachable and enough shards healthy.
\<close>

theorem routing_follows_last_probe:
  assumes "distinct (map sc_id (cfg_shards config))" and "hc_exclude_unhealthy (cfg_health_check config)"
  shows "(\<forall>s \<in> set (cfg_shards config). \<forall>p. is_ok_for (health_view (checked ops config dial n) (sc_id s)) p = probed_ok (dial n) p s)
    \<and> (\<forall>s. shard_for_key ops (ms_snapshot (checked ops config dial n)) key p = Inr s \<longrightarrow> s \<in> set (cfg_shards config) \<and> probed_ok (dial n) p s)
    \<and> (\<forall>s. shard_by_key ops (from_shards ops (cfg_shards config)) key = Some s \<and> probed_ok (dial n) p s
         \<and> hc_min_healthy_shards (cfg_health_check config) \<le> length (filter (probed_ok (dial n) p) (cfg_shards config))
       \<longrightarrow> shard_for_key ops (ms_snapshot (checked ops config dial n)) key p = Inr s)"
proof -
  note health = health_after_round [OF assms(1)]
  have excl: "is_excluded (ms_snapshot (checked ops config dial n)) p (sc_id s) \<longleftrightarrow> \<not> probed_ok (dial n) p s"
    if "s \<in> set (cfg_shards config)" for s
    using health [OF that, of n dial p] assms(2) by (simp only: checked_def run_excluded) simp
  have "filter (\<lambda>s. \<not> hc_exclude_unhealthy (cfg_health_check config)
      \<or> is_ok_for (reported_health (health_check_loop (Suc n) dial (cfg_shards config)) (sc_id s)) p) (cfg_shards config)
    = filter (probed_ok (dial n) p) (cfg_shards config)"
    by (rule filter_cong [OF refl]) (simp add: health assms(2) del: health_check_loop.simps)
  then have count: "healthy_count (ms_snapshot (checked ops config dial n)) p = length (filter (probed_ok (dial n) p) (cfg_shards config))"
    by (simp add: checked_def healthy_count_ids run_healthy_ids del: health_check_loop.simps)
  have ring: "sr_shards (cs_ring (ms_snapshot (checked ops config dial n))) = cfg_shards config"
      "cs_ring (ms_snapshot (checked ops config dial n)) = from_shards ops (cfg_shards config)"
      "cs_min_healthy_shards (ms_snapshot (checked ops config dial n)) = hc_min_healthy_shards (cfg_health_check config)"
    by (simp_all add: checked_def del: health_check_loop.simps)
  have "shard_for_key ops (ms_snapshot (checked ops config dial n)) key p = Inr s"
    if home: "shard_by_key ops (from_shards ops (cfg_shards config)) key = Some s" "probed_ok (dial n) p s"
      and "hc_min_healthy_shards (cfg_health_check config) \<le> length (filter (probed_ok (dial n) p) (cfg_shards config))" for s
  proof -
    from home(1) have "s \<in> set (cfg_shards config)" by (auto dest: shard_by_key_SomeD)
    with excl home(2) have "\<not> is_excluded (ms_snapshot (checked ops config dial n)) p (sc_id s)" by blast
    from filtered_primary [OF home(1), of "is_excluded (ms_snapshot (checked ops config dial n)) p", OF this] that(3) show ?thesis
      by (simp add: shard_for_key_def ensure_min_healthy_def ring count)
  qed
  moreover have "s \<in> set (cfg_shards config) \<and> probed_ok (dial n) p s"
    if "shard_for_key ops (ms_snapshot (checked ops config dial n)) key p = Inr s" for s
    using shard_for_key_InrD [OF that] excl by (auto simp: ring)
  moreover have "\<forall>s \<in> set (cfg_shards config). \<forall>p. is_ok_for (health_view (checked ops config dial n) (sc_id s)) p = probed_ok (dial n) p s"
    by (simp only: checked_def run_view) (use health in blast)
  ultimately show ?thesis by blast
qed

theorem routing_follows_last_probe_witness:
  "\<exists>s. shard_for_key ref_ring_ops (ms_snapshot (checked ref_ring_ops (demo_config [demo_shard 0] 1)
      (\<lambda>n a. if n = 0 then TimedOut else Connected) 1)) ''btc'' Ilp = Inr s \<and> s = demo_shard 0"
proof -
  let ?dial = "\<lambda>n (a::string). if n = (0::nat) then TimedOut else Connected"
  obtain s where home: "shard_by_key ref_ring_ops (from_shards ref_ring_ops [demo_shard 0]) ''btc'' = Some s" "s = demo_shard 0"
    using shard_by_key_total [OF ref_ring_laws, of "[demo_shard 0]" "''btc''"] by auto
  then show ?thesis
    using routing_follows_last_probe [of "demo_config [demo_shard 0] 1" ref_ring_ops ?dial 1 "''btc''" Ilp]
    by (simp add: probed_ok_def probe_ok_def)
qed

text \<open>
  Start-up. The server starts exactly when the configuration is accepted, the metrics exporter starts,
  there is a shard and, with ingest enabled, the object store is configured, the checkpoint can be read and
  the mailbox has room. It then serves ILP and SQL, the stream and the webhook exactly when they are
  enabled, each on its configured address: the missing-address errors of \<open>run\<close> cannot occur, because
  the configuration check has refused such configurations.
\<close>

theorem startup_serves_what_is_enabled:
  assumes "from_file (se_load env) path = Inr config"
  shows "((\<exists>sv :: ('r, 'c, 'k) Server. server_run env path = Inr sv) \<longleftrightarrow>
      (\<exists>u. se_metrics_init env (mc_enabled (cfg_metrics config)) (mc_address (cfg_metrics config)) = Inr u)
    \<and> cfg_shards config \<noteq> []
    \<and> (ig_enabled (cfg_ingest config) \<longrightarrow> ingest_startable env (cfg_ingest config)))
    \<and> (\<forall>sv :: ('r, 'c, 'k) Server. server_run env path = Inr sv \<longrightarrow>
        (\<forall>a. ServeIlp a \<in> set (sv_tasks sv) \<longleftrightarrow> a = lc_ilp (cfg_listen config))
      \<and> (\<forall>a. ServePg a \<in> set (sv_tasks sv) \<longleftrightarrow> a = lc_pg (cfg_listen config))
      \<and> (\<forall>a. ServeStream a \<in> set (sv_tasks sv) \<longleftrightarrow> st_enabled (cfg_stream config) \<and> lc_stream (cfg_listen config) = Some a)
      \<and> (\<forall>a. (\<exists>hs. ServeIngest hs a \<in> set (sv_tasks sv)) \<longleftrightarrow> ig_enabled (cfg_ingest config) \<and> ig_listen (cfg_ingest config) = Some a)
      \<and> (sv_ingest sv \<noteq> None \<longleftrightarrow> ig_enabled (cfg_ingest config)))"
proof -
  let ?m = "spawn_handle (actor_spawn (se_ring env) config) config"
  have app: "(\<exists>state :: ('r, 'c, 'k) AppState. app_new (se_bc env) config ?m = Inr state) \<longleftrightarrow> cfg_shards config \<noteq> []"
    by (auto simp: app_new_def Let_def)
  note stream = stream_tasks_accepted [OF assms]
  note ingest = start_ingest_accepted [OF assms]
  have starts: "(\<exists>sv :: ('r, 'c, 'k) Server. server_run env path = Inr sv) \<longleftrightarrow>
      (\<exists>u. se_metrics_init env (mc_enabled (cfg_metrics config)) (mc_address (cfg_metrics config)) = Inr u)
    \<and> cfg_shards config \<noteq> [] \<and> (ig_enabled (cfg_ingest config) \<longrightarrow> ingest_startable env (cfg_ingest config))"
    unfolding server_run_accepted [OF assms] app [symmetric] using stream ingest(1) by blast
  moreover have "(\<forall>a. ServeIlp a \<in> set (sv_tasks sv) \<longleftrightarrow> a = lc_ilp (cfg_listen config))
      \<and> (\<forall>a. ServePg a \<in> set (sv_tasks sv) \<longleftrightarrow> a = lc_pg (cfg_listen config))
      \<and> (\<forall>a. ServeStream a \<in> set (sv_tasks sv) \<longleftrightarrow> st_enabled (cfg_stream config) \<and> lc_stream (cfg_listen config) = Some a)
      \<and> (\<forall>a. (\<exists>hs. ServeIngest hs a \<in> set (sv_tasks sv)) \<longleftrightarrow> ig_enabled (cfg_ingest config) \<and> ig_listen (cfg_ingest config) = Some a)
      \<and> (sv_ingest sv \<noteq> None \<longleftrightarrow> ig_enabled (cfg_ingest config))"
    if run: "server_run env path = Inr sv" for sv :: "('r, 'c, 'k) Server"
  proof -
    from run [unfolded server_run_accepted [OF assms]] obtain state i tasks where
        st: "app_new (se_bc env) config ?m = Inr state" and i: "start_ingest env config state = Inr i"
      and tasks: "stream_tasks state = Inr tasks"
      and sv: "sv_ingest sv = map_option fst i" "sv_tasks sv = [ServeIlp (lc_ilp (cfg_listen (as_config state))),
          ServePg (lc_pg (cfg_listen (as_config state)))] @ tasks @ (case i of Some (_, _, hs, addr) \<Rightarrow> [ServeIngest hs addr] | None \<Rightarrow> [])"
      by auto
    from tasks stream [OF st] ingest(2) [OF i] started_app(2) [OF st] show ?thesis
      by (auto simp: sv split: option.splits if_splits)
  qed
  ultimately show ?thesis by blast
qed

definition demo_server_env :: "(VNode list, nat \<times> StreamTick list) server_env" where
  "demo_server_env =
     \<lparr> se_ring = demo_ring_ops, se_bc = ref_bc, se_load = (\<lambda>_. Inr (demo_config [demo_shard 0] 1)),
       se_metrics_init = (\<lambda>_ _. Inr ()), se_build_error = (\<lambda>_. None), se_de = (\<lambda>_. Inl ''no''), se_files = Map.empty \<rparr>"

theorem startup_serves_what_is_enabled_witness:
  "\<exists>sv :: (VNode list, nat \<times> StreamTick list, nat) Server. server_run demo_server_env ''router.toml'' = Inr sv
     \<and> (\<forall>a. ServeStream a \<notin> set (sv_tasks sv)) \<and> sv_ingest sv = None"
proof -
  have f: "from_file (se_load demo_server_env) ''router.toml'' = Inr (demo_config [demo_shard 0] 1)"
    and off: "\<not> st_enabled (cfg_stream (demo_config [demo_shard 0] 1))" "\<not> ig_enabled (cfg_ingest (demo_config [demo_shard 0] 1))"
    and m: "se_metrics_init demo_server_env x y = Inr ()" for x y
    by (simp_all add: from_file_def demo_server_env_def demo_config_def default_stream_def default_ingest_def)
  note start = startup_serves_what_is_enabled [OF f, where ?'k = nat]
  with off m obtain sv :: "(VNode list, nat \<times> StreamTick list, nat) Server"
    where "server_run demo_server_env ''router.toml'' = Inr sv" by auto
  with start off show ?thesis by (intro exI [of _ sv]) (cases "sv_ingest sv"; simp)
qed


end
