(* ===== verification/Pg_Types.thy ===== *)
theory Pg_Types
  imports Router_Config Routing_Error
begin

text \<open>
  Rows on the PostgreSQL wire and their conversion to Arrow columns: the cell readers of
  \<open>federated/arrow.rs\<close> and the type mapping and batch building of \<open>federated/pg_types.rs\<close>.

  A row is the byte string of its cells, each a big-endian 32-bit length (negative for NULL) and the
  bytes. Parsing of floats, dates and hex text, and Arrow's own \<open>RecordBatch::try_new\<close>, are third-party or
  floating-point code and parameters (\<open>pg_text\<close>, \<open>try_new\<close>); arrays keep the values that were parsed.
\<close>

type_synonym DataRow = bytes

section \<open>Cells\<close>

definition get_i32 :: "bytes \<Rightarrow> int \<times> bytes" where
  "get_i32 buf =
     (let n = foldl (\<lambda>acc b. acc * 256 + byte b) 0 (take 4 buf)
      in (if n < 2 ^ 31 then int n else int n - 2 ^ 32, drop 4 buf))"

definition first_cell_string :: "DataRow \<Rightarrow> string option" where
  "first_cell_string row =
     (if length row < 4 then None
      else let (len, buf) = get_i32 row
           in if len < 0 then None
              else if length buf < nat len then None
              else from_utf8 (take (nat len) buf))"

definition first_cell_f64 :: "(string \<Rightarrow> 'f option) \<Rightarrow> DataRow \<Rightarrow> 'f option" where
  "first_cell_f64 parse_f64 row = (case first_cell_string row of None \<Rightarrow> None | Some s \<Rightarrow> parse_f64 s)"

text \<open>
  One turn of the counted loops: no cell when fewer than four bytes are left (nothing is consumed), when
  the length is negative or larger than what is left (the length is consumed), else the bytes.
\<close>

definition next_cell :: "bytes \<Rightarrow> bytes option \<times> bytes" where
  "next_cell buf =
     (if length buf < 4 then (None, buf)
      else let (len, rest) = get_i32 buf
           in if len < 0 \<or> length rest < nat len then (None, rest)
              else (Some (take (nat len) rest), drop (nat len) rest))"

fun read_cells :: "nat \<Rightarrow> bytes \<Rightarrow> bytes option list" where
  "read_cells 0 buf = []"
| "read_cells (Suc n) buf = (case next_cell buf of (cell, rest) \<Rightarrow> cell # read_cells n rest)"

definition cells_f64 :: "(string \<Rightarrow> 'f option) \<Rightarrow> DataRow \<Rightarrow> nat \<Rightarrow> 'f option list" where
  "cells_f64 parse_f64 row n =
     map (\<lambda>cell. Option.bind (Option.bind cell from_utf8) (\<lambda>s. parse_f64 (trim s))) (read_cells n row)"

definition decode_row_cells :: "DataRow \<Rightarrow> nat \<Rightarrow> string option list" where
  "decode_row_cells row col_count = map (\<lambda>cell. Option.bind cell from_utf8) (read_cells col_count row)"

function decode_row_cell_refs :: "DataRow \<Rightarrow> string option list" where
  "decode_row_cell_refs buf =
     (if 4 \<le> length buf then
        let (len, rest) = get_i32 buf
        in if len < 0 then None # decode_row_cell_refs rest
           else if length rest < nat len then []
           else from_utf8 (take (nat len) rest) # decode_row_cell_refs (drop (nat len) rest)
      else [])"
  by pat_completeness auto
termination
  by (relation "measure length") (auto simp: get_i32_def Let_def)

declare decode_row_cell_refs.simps [simp del]

section \<open>Types\<close>

datatype PgType =
    BOOL | INT2 | INT4 | INT8 | FLOAT4 | FLOAT8 | NUMERIC | DATE | TIMESTAMP | TIMESTAMPTZ | BYTEA
  | ARRAY PgType
  | OtherPgType string

datatype DataType =
    DtUtf8 | DtFloat64 | DtFloat32 | DtInt64 | DtInt32 | DtInt16 | DtBoolean
  | DtTimestamp "string option"
  | DtDate32 | DtBinary
  | DtList DataType

record FieldInfo =
  fi_name :: string
  fi_datatype :: PgType

record Field =
  fd_name :: string
  fd_data_type :: DataType

type_synonym Schema = "Field list"

definition config_type_to_arrow :: "string \<Rightarrow> string + DataType" where
  "config_type_to_arrow type_name =
     (let t = to_ascii_lowercase type_name
      in if t \<in> {''symbol'', ''string'', ''varchar'', ''text'', ''char''} then Inr DtUtf8
         else if t \<in> {''double'', ''float8''} then Inr DtFloat64
         else if t \<in> {''float'', ''float4'', ''real''} then Inr DtFloat32
         else if t \<in> {''long'', ''int8'', ''bigint''} then Inr DtInt64
         else if t \<in> {''int'', ''int4'', ''integer''} then Inr DtInt32
         else if t \<in> {''short'', ''int2'', ''smallint''} then Inr DtInt16
         else if t \<in> {''boolean'', ''bool''} then Inr DtBoolean
         else if t \<in> {''timestamp'', ''datetime''} then Inr (DtTimestamp None)
         else if t = ''timestamptz'' then Inr (DtTimestamp (Some ''+00:00''))
         else if t = ''date'' then Inr DtDate32
         else if t \<in> {''binary'', ''bytea''} then Inr DtBinary
         else Inl (''unsupported column type: '' @ t))"

fun column_fields :: "ColumnConfig list \<Rightarrow> string + Schema" where
  "column_fields [] = Inr []"
| "column_fields (c # cs) =
     (case config_type_to_arrow (cc_type_name c) of
        Inl e \<Rightarrow> Inl e
      | Inr t \<Rightarrow>
          (case column_fields cs of
             Inl e \<Rightarrow> Inl e
           | Inr fs \<Rightarrow> Inr (\<lparr> fd_name = cc_name c, fd_data_type = t \<rparr> # fs)))"

definition schema_from_columns :: "ColumnConfig list \<Rightarrow> string + Schema" where
  "schema_from_columns columns =
     (if columns = [] then Inl ''table must declare at least one column'' else column_fields columns)"

fun pg_type_to_arrow :: "PgType \<Rightarrow> DataType" where
  "pg_type_to_arrow (ARRAY elem) = DtList (pg_type_to_arrow elem)"
| "pg_type_to_arrow BOOL = DtBoolean"
| "pg_type_to_arrow INT2 = DtInt16"
| "pg_type_to_arrow INT4 = DtInt32"
| "pg_type_to_arrow INT8 = DtInt64"
| "pg_type_to_arrow FLOAT4 = DtFloat32"
| "pg_type_to_arrow FLOAT8 = DtFloat64"
| "pg_type_to_arrow NUMERIC = DtFloat64"
| "pg_type_to_arrow DATE = DtDate32"
| "pg_type_to_arrow TIMESTAMP = DtTimestamp None"
| "pg_type_to_arrow TIMESTAMPTZ = DtTimestamp (Some ''+00:00'')"
| "pg_type_to_arrow BYTEA = DtBinary"
| "pg_type_to_arrow (OtherPgType t) = DtUtf8"

definition field_infos_to_arrow_schema :: "FieldInfo list \<Rightarrow> Schema" where
  "field_infos_to_arrow_schema infos =
     map (\<lambda>f. \<lparr> fd_name = fi_name f, fd_data_type = pg_type_to_arrow (fi_datatype f) \<rparr>) infos"

text \<open>Collecting into a hash map: the last field of a name wins.\<close>

definition build_pg_field_index :: "FieldInfo list \<Rightarrow> string \<rightharpoonup> nat" where
  "build_pg_field_index pg_fields =
     map_of (rev (zip (map (\<lambda>f. to_ascii_lowercase (fi_name f)) pg_fields) [0..<length pg_fields]))"

section \<open>Arrays\<close>

datatype 'f ArrayRef =
    BooleanArray "bool option list"
  | Int16Array "int option list"
  | Int32Array "int option list"
  | Int64Array "int option list"
  | Float32Array "'f option list"
  | Float64Array "'f option list"
  | Date32Array "int option list"
  | TimestampMicrosecondArray "int option list"
  | BinaryArray "bytes option list"
  | StringArray "string option list"

record 'f pg_text =
  pt_f32 :: "string \<Rightarrow> 'f option"
  pt_f64 :: "string \<Rightarrow> 'f option"
  pt_days :: "string \<Rightarrow> int option"
  pt_rfc3339 :: "string \<Rightarrow> int option"
  pt_naive :: "string \<Rightarrow> string \<Rightarrow> int option"
  pt_hex :: "string \<Rightarrow> bytes option"

text \<open>\<open>str::parse\<close> for a signed integer of \<open>w\<close> bits.\<close>

definition parse_signed :: "nat \<Rightarrow> bytes \<Rightarrow> int option" where
  "parse_signed w s =
     (let neg = starts_with s ''-'';
          ds = (if starts_with s ''+'' \<or> neg then tl s else s);
          v = (if neg then - int (digits_value ds) else int (digits_value ds))
      in if ds = [] \<or> \<not> list_all is_ascii_digit ds then None
         else if - (2 ^ (w - 1)) \<le> v \<and> v < 2 ^ (w - 1) then Some v else None)"

definition parse_bool :: "string \<Rightarrow> bool option" where
  "parse_bool s =
     (if s \<in> {''t'', ''true'', ''TRUE'', ''1''} then Some True
      else if s \<in> {''f'', ''false'', ''FALSE'', ''0''} then Some False
      else if s = ''true'' then Some True
      else if s = ''false'' then Some False
      else None)"

definition parse_date32 :: "'f pg_text \<Rightarrow> string \<Rightarrow> int option" where
  "parse_date32 pt s = pt_days pt s"

definition parse_timestamp_micros :: "'f pg_text \<Rightarrow> string \<Rightarrow> bool \<Rightarrow> int option" where
  "parse_timestamp_micros pt s has_tz =
     (if has_tz then pt_rfc3339 pt s
      else case pt_rfc3339 pt s of
        Some dt \<Rightarrow> Some dt
      | None \<Rightarrow>
          (case pt_naive pt ''%Y-%m-%d %H:%M:%S%.f'' s of
             Some ndt \<Rightarrow> Some ndt
           | None \<Rightarrow>
               (case pt_naive pt ''%Y-%m-%dT%H:%M:%S%.f'' s of
                  Some ndt \<Rightarrow> Some ndt
                | None \<Rightarrow> parse_signed 64 s)))"

definition parse_bytea :: "'f pg_text \<Rightarrow> string \<Rightarrow> bytes option" where
  "parse_bytea pt s = (case strip_prefix s (CHR 0x5C # ''x'') of Some hex \<Rightarrow> pt_hex pt hex | None \<Rightarrow> Some s)"

fun build_array :: "'f pg_text \<Rightarrow> DataType \<Rightarrow> string option list \<Rightarrow> 'f ArrayRef" where
  "build_array pt DtBoolean values = BooleanArray (map (\<lambda>v. Option.bind v parse_bool) values)"
| "build_array pt DtInt16 values = Int16Array (map (\<lambda>v. Option.bind v (parse_signed 16)) values)"
| "build_array pt DtInt32 values = Int32Array (map (\<lambda>v. Option.bind v (parse_signed 32)) values)"
| "build_array pt DtInt64 values = Int64Array (map (\<lambda>v. Option.bind v (parse_signed 64)) values)"
| "build_array pt DtFloat32 values = Float32Array (map (\<lambda>v. Option.bind v (pt_f32 pt)) values)"
| "build_array pt DtFloat64 values = Float64Array (map (\<lambda>v. Option.bind v (pt_f64 pt)) values)"
| "build_array pt DtDate32 values = Date32Array (map (\<lambda>v. Option.bind v (parse_date32 pt)) values)"
| "build_array pt (DtTimestamp tz) values =
     TimestampMicrosecondArray (map (\<lambda>v. Option.bind v (\<lambda>s. parse_timestamp_micros pt s (tz \<noteq> None))) values)"
| "build_array pt DtBinary values = BinaryArray (map (\<lambda>v. Option.bind v (parse_bytea pt)) values)"
| "build_array pt (DtList t) values = StringArray values"
| "build_array pt DtUtf8 values = StringArray values"

section \<open>Batches\<close>

definition column_type :: "FieldInfo list \<Rightarrow> (string \<rightharpoonup> nat) \<Rightarrow> Field \<Rightarrow> DataType" where
  "column_type pg_fields pg_index f =
     (case pg_index (to_ascii_lowercase (fd_name f)) of
        None \<Rightarrow> fd_data_type f
      | Some idx \<Rightarrow>
          if idx < length pg_fields then pg_type_to_arrow (fi_datatype (pg_fields ! idx)) else fd_data_type f)"

definition cell_at :: "(string \<rightharpoonup> nat) \<Rightarrow> Field \<Rightarrow> string option list \<Rightarrow> string option" where
  "cell_at pg_index f cells =
     (case pg_index (to_ascii_lowercase (fd_name f)) of
        None \<Rightarrow> None
      | Some idx \<Rightarrow> if idx < length cells then cells ! idx else None)"

type_synonym ('f, 'b) try_new = "Schema \<Rightarrow> 'f ArrayRef list \<Rightarrow> string + 'b"

definition rows_to_typed_batch_for_schema ::
    "'f pg_text \<Rightarrow> ('f, 'b) try_new \<Rightarrow> Schema \<Rightarrow> FieldInfo list \<Rightarrow> string option list list \<Rightarrow> string + 'b" where
  "rows_to_typed_batch_for_schema pt try_new target_schema pg_fields rows =
     (let pg_index = build_pg_field_index pg_fields
      in try_new target_schema
           (map (\<lambda>f. build_array pt (column_type pg_fields pg_index f) (map (cell_at pg_index f) rows)) target_schema))"

definition rows_to_typed_batch ::
    "'f pg_text \<Rightarrow> ('f, 'b) try_new \<Rightarrow> FieldInfo list \<Rightarrow> string option list list \<Rightarrow> string + 'b" where
  "rows_to_typed_batch pt try_new infos rows =
     rows_to_typed_batch_for_schema pt try_new (field_infos_to_arrow_schema infos) infos rows"

text \<open>The single pass over wire rows: each row appends one value to every column.\<close>

definition push_row :: "(string \<rightharpoonup> nat) \<Rightarrow> Schema \<Rightarrow> DataRow \<Rightarrow> string option list list \<Rightarrow> string option list list" where
  "push_row pg_index target_schema row columns =
     (let cells = decode_row_cell_refs row
      in map (\<lambda>(column, f). column @ [cell_at pg_index f cells]) (zip columns target_schema))"

definition pg_rows_to_typed_batch_for_schema ::
    "'f pg_text \<Rightarrow> ('f, 'b) try_new \<Rightarrow> Schema \<Rightarrow> FieldInfo list \<Rightarrow> (string \<rightharpoonup> nat) \<Rightarrow> DataRow list \<Rightarrow> string + 'b" where
  "pg_rows_to_typed_batch_for_schema pt try_new target_schema pg_fields pg_index rows =
     (let columns = fold (push_row pg_index target_schema) rows (map (\<lambda>_. []) target_schema)
      in try_new target_schema
           (map (\<lambda>(f, column). build_array pt (column_type pg_fields pg_index f) column) (zip target_schema columns)))"

section \<open>Specification vocabulary\<close>

text \<open>The wire form of a row: the reference encoder of the round trip.\<close>

definition be32 :: "nat \<Rightarrow> bytes" where
  "be32 n = [char_of (n div 16777216), char_of (n div 65536 mod 256), char_of (n div 256 mod 256), char_of (n mod 256)]"

fun encode_cell :: "bytes option \<Rightarrow> bytes" where
  "encode_cell None = replicate 4 (CHR 0xFF)"
| "encode_cell (Some b) = be32 (length b) @ b"

definition encode_row :: "bytes option list \<Rightarrow> DataRow" where
  "encode_row cells = concat (map encode_cell cells)"

definition cells_fit :: "bytes option list \<Rightarrow> bool" where
  "cells_fit cells \<longleftrightarrow> (\<forall>b. Some b \<in> set cells \<longrightarrow> length b < 2 ^ 31)"

definition utf8_cells :: "bytes option list \<Rightarrow> string option list" where
  "utf8_cells cells = map (\<lambda>cell. Option.bind cell from_utf8) cells"

text \<open>The Arrow type of an array, and of the array that is built for a type.\<close>

fun array_type :: "'f ArrayRef \<Rightarrow> DataType" where
  "array_type (BooleanArray xs) = DtBoolean"
| "array_type (Int16Array xs) = DtInt16"
| "array_type (Int32Array xs) = DtInt32"
| "array_type (Int64Array xs) = DtInt64"
| "array_type (Float32Array xs) = DtFloat32"
| "array_type (Float64Array xs) = DtFloat64"
| "array_type (Date32Array xs) = DtDate32"
| "array_type (TimestampMicrosecondArray xs) = DtTimestamp None"
| "array_type (BinaryArray xs) = DtBinary"
| "array_type (StringArray xs) = DtUtf8"

fun array_len :: "'f ArrayRef \<Rightarrow> nat" where
  "array_len (BooleanArray xs) = length xs"
| "array_len (Int16Array xs) = length xs"
| "array_len (Int32Array xs) = length xs"
| "array_len (Int64Array xs) = length xs"
| "array_len (Float32Array xs) = length xs"
| "array_len (Float64Array xs) = length xs"
| "array_len (Date32Array xs) = length xs"
| "array_len (TimestampMicrosecondArray xs) = length xs"
| "array_len (BinaryArray xs) = length xs"
| "array_len (StringArray xs) = length xs"

fun built_type :: "DataType \<Rightarrow> DataType" where
  "built_type (DtList t) = DtUtf8"
| "built_type (DtTimestamp tz) = DtTimestamp None"
| "built_type t = t"

text \<open>
  Typed values and their text on the wire, and the column that holds them, written down for each wire type on its own
  and not by way of the code's own mapping. Floats, dates, times and hex digits are read by the parameters, so such
  a value comes with a text that the parameter reads as it.
\<close>

datatype 'f PgValue =
    PvBool bool | PvInt int | PvFloat string 'f | PvDate string int | PvTime string int | PvBytes string bytes | PvText string

fun value_text :: "'f PgValue \<Rightarrow> string" where
  "value_text (PvBool b) = (if b then ''t'' else ''f'')"
| "value_text (PvInt i) = int_to_string i"
| "value_text (PvFloat s x) = s"
| "value_text (PvDate s d) = s"
| "value_text (PvTime s t) = s"
| "value_text (PvBytes hex b) = CHR 0x5C # ''x'' @ hex"
| "value_text (PvText s) = s"

fun value_of_type :: "'f pg_text \<Rightarrow> PgType \<Rightarrow> 'f PgValue \<Rightarrow> bool" where
  "value_of_type pt ty (PvBool b) \<longleftrightarrow> ty = BOOL"
| "value_of_type pt ty (PvInt i) \<longleftrightarrow>
     ty = INT2 \<and> - 32768 \<le> i \<and> i < 32768 \<or> ty = INT4 \<and> - 2147483648 \<le> i \<and> i < 2147483648
   \<or> ty = INT8 \<and> - 9223372036854775808 \<le> i \<and> i < 9223372036854775808"
| "value_of_type pt ty (PvFloat s x) \<longleftrightarrow>
     ty = FLOAT4 \<and> pt_f32 pt s = Some x \<or> (ty = FLOAT8 \<or> ty = NUMERIC) \<and> pt_f64 pt s = Some x"
| "value_of_type pt ty (PvDate s d) \<longleftrightarrow> ty = DATE \<and> pt_days pt s = Some d"
| "value_of_type pt ty (PvTime s t) \<longleftrightarrow>
     ty = TIMESTAMP \<and> pt_rfc3339 pt s = None \<and> pt_naive pt ''%Y-%m-%d %H:%M:%S%.f'' s = Some t
   \<or> ty = TIMESTAMPTZ \<and> pt_rfc3339 pt s = Some t"
| "value_of_type pt ty (PvBytes hex b) \<longleftrightarrow> ty = BYTEA \<and> pt_hex pt hex = Some b"
| "value_of_type pt ty (PvText s) \<longleftrightarrow> (\<exists>t. ty = ARRAY t) \<or> (\<exists>t. ty = OtherPgType t)"

fun bool_value :: "'f PgValue \<Rightarrow> bool option" where
  "bool_value (PvBool b) = Some b"
| "bool_value _ = None"

fun int_value :: "'f PgValue \<Rightarrow> int option" where
  "int_value (PvInt i) = Some i"
| "int_value (PvDate s d) = Some d"
| "int_value (PvTime s t) = Some t"
| "int_value _ = None"

fun float_value :: "'f PgValue \<Rightarrow> 'f option" where
  "float_value (PvFloat s x) = Some x"
| "float_value _ = None"

fun bytes_value :: "'f PgValue \<Rightarrow> bytes option" where
  "bytes_value (PvBytes hex b) = Some b"
| "bytes_value _ = None"

fun text_value :: "'f PgValue \<Rightarrow> string option" where
  "text_value (PvText s) = Some s"
| "text_value _ = None"

abbreviation column_of :: "('f PgValue \<Rightarrow> 'v option) \<Rightarrow> 'f PgValue option list \<Rightarrow> 'v option list" where
  "column_of get vs \<equiv> map (\<lambda>v. Option.bind v get) vs"

fun value_array :: "PgType \<Rightarrow> 'f PgValue option list \<Rightarrow> 'f ArrayRef" where
  "value_array BOOL vs = BooleanArray (column_of bool_value vs)"
| "value_array INT2 vs = Int16Array (column_of int_value vs)"
| "value_array INT4 vs = Int32Array (column_of int_value vs)"
| "value_array INT8 vs = Int64Array (column_of int_value vs)"
| "value_array FLOAT4 vs = Float32Array (column_of float_value vs)"
| "value_array FLOAT8 vs = Float64Array (column_of float_value vs)"
| "value_array NUMERIC vs = Float64Array (column_of float_value vs)"
| "value_array DATE vs = Date32Array (column_of int_value vs)"
| "value_array TIMESTAMP vs = TimestampMicrosecondArray (column_of int_value vs)"
| "value_array TIMESTAMPTZ vs = TimestampMicrosecondArray (column_of int_value vs)"
| "value_array BYTEA vs = BinaryArray (column_of bytes_value vs)"
| "value_array (ARRAY ty) vs = StringArray (column_of text_value vs)"
| "value_array (OtherPgType ty) vs = StringArray (column_of text_value vs)"

text \<open>A column that the shard did not return is NULL throughout.\<close>

fun null_array :: "DataType \<Rightarrow> nat \<Rightarrow> 'f ArrayRef" where
  "null_array DtBoolean n = BooleanArray (replicate n None)"
| "null_array DtInt16 n = Int16Array (replicate n None)"
| "null_array DtInt32 n = Int32Array (replicate n None)"
| "null_array DtInt64 n = Int64Array (replicate n None)"
| "null_array DtFloat32 n = Float32Array (replicate n None)"
| "null_array DtFloat64 n = Float64Array (replicate n None)"
| "null_array DtDate32 n = Date32Array (replicate n None)"
| "null_array (DtTimestamp tz) n = TimestampMicrosecondArray (replicate n None)"
| "null_array DtBinary n = BinaryArray (replicate n None)"
| "null_array (DtList t) n = StringArray (replicate n None)"
| "null_array DtUtf8 n = StringArray (replicate n None)"

text \<open>The column a field is filled from, by name and whatever its case; of several of that name the last.\<close>

definition wire_column :: "FieldInfo list \<Rightarrow> Field \<Rightarrow> nat option" where
  "wire_column infos f = rposition (\<lambda>g. to_ascii_lowercase (fi_name g) = to_ascii_lowercase (fd_name f)) infos"

definition reference_column :: "FieldInfo list \<Rightarrow> 'f PgValue option list list \<Rightarrow> Field \<Rightarrow> 'f ArrayRef" where
  "reference_column infos rows f =
     (case wire_column infos f of
        Some j \<Rightarrow> value_array (fi_datatype (infos ! j)) (map (\<lambda>row. row ! j) rows)
      | None \<Rightarrow> null_array (fd_data_type f) (length rows))"

text \<open>A row of values of the reported types, NULLs allowed, and its wire form.\<close>

definition typed_row :: "'f pg_text \<Rightarrow> FieldInfo list \<Rightarrow> 'f PgValue option list \<Rightarrow> bool" where
  "typed_row pt infos row \<longleftrightarrow>
     list_all2 (\<lambda>f v. case v of None \<Rightarrow> True
        | Some x \<Rightarrow> value_of_type pt (fi_datatype f) x \<and> valid_utf8 (value_text x) \<and> length (value_text x) < 2 ^ 31) infos row"

definition wire_row :: "'f PgValue option list \<Rightarrow> DataRow" where
  "wire_row row = encode_row (map (map_option value_text) row)"

text \<open>The types under which a column can be declared: that of the values a shard reports, or any that Arrow has plain NULLs of.\<close>

definition declarable :: "FieldInfo list \<Rightarrow> Field \<Rightarrow> bool" where
  "declarable infos f \<longleftrightarrow>
     (case wire_column infos f of
        Some j \<Rightarrow> (fi_datatype (infos ! j), fd_data_type f) \<in>
           {(BOOL, DtBoolean), (INT2, DtInt16), (INT4, DtInt32), (INT8, DtInt64), (FLOAT4, DtFloat32), (FLOAT8, DtFloat64),
            (NUMERIC, DtFloat64), (DATE, DtDate32), (TIMESTAMP, DtTimestamp None), (TIMESTAMPTZ, DtTimestamp None), (BYTEA, DtBinary)}
           \<union> {(ARRAY ty, DtUtf8) | ty. True} \<union> {(OtherPgType ty, DtUtf8) | ty. True}
      | None \<Rightarrow> fd_data_type f \<in>
           {DtBoolean, DtInt16, DtInt32, DtInt64, DtFloat32, DtFloat64, DtDate32, DtTimestamp None, DtBinary, DtUtf8})"

text \<open>
  What Arrow documents of \<open>RecordBatch::try_new\<close>: it accepts columns of equal length, as many as the schema
  has fields, each of its field's type.
\<close>

definition try_new_law :: "('f, 'b) try_new \<Rightarrow> bool" where
  "try_new_law try_new \<longleftrightarrow>
     (\<forall>schema arrays. schema \<noteq> [] \<longrightarrow> ((\<exists>b. try_new schema arrays = Inr b) \<longleftrightarrow>
        map array_type arrays = map fd_data_type schema \<and> (\<exists>n. \<forall>a \<in> set arrays. array_len a = n)))"

section \<open>Lemmas\<close>

lemma be32_value:
  fixes n :: nat
  shows "((n div 16777216 * 256 + n div 65536 mod 256) * 256 + n div 256 mod 256) * 256 + n mod 256 = n"
proof -
  have "n div 65536 = n div 16777216 * 256 + n div 65536 mod 256"
    using div_mult_mod_eq [of "n div 65536" 256] by (simp flip: div_mult2_eq)
  moreover have "n div 256 = n div 65536 * 256 + n div 256 mod 256"
    using div_mult_mod_eq [of "n div 256" 256] by (simp flip: div_mult2_eq)
  ultimately show ?thesis using div_mult_mod_eq [of n 256] by simp
qed

lemma length_be32 [simp]: "length (be32 n) = 4"
  by (simp add: be32_def)

lemma foldl_be32: "n < 2 ^ 32 \<Longrightarrow> foldl (\<lambda>acc b. acc * 256 + byte b) 0 (be32 n) = n"
proof -
  assume "n < 2 ^ 32"
  then have "n div 16777216 < 256" by (simp add: less_mult_imp_div_less)
  then have "map byte (be32 n) = [n div 16777216, n div 65536 mod 256, n div 256 mod 256, n mod 256]"
    by (simp add: be32_def byte_def)
  moreover have "foldl (\<lambda>acc b. acc * 256 + byte b) 0 (be32 n) = foldl (\<lambda>acc v. acc * 256 + v) 0 (map byte (be32 n))"
    by (simp add: foldl_map)
  ultimately show ?thesis using be32_value [of n] by simp
qed

lemma get_i32_be32: "n < 2 ^ 31 \<Longrightarrow> get_i32 (be32 n @ rest) = (int n, rest)"
  using foldl_be32 [of n] by (simp add: get_i32_def)

lemma get_i32_null: "get_i32 (replicate 4 (CHR 0xFF) @ rest) = (- 1, rest)"
proof -
  have b: "byte (CHR 0xFF) = 255" by code_simp
  have "take 4 (replicate 4 (CHR 0xFF) @ rest) = [CHR 0xFF, CHR 0xFF, CHR 0xFF, CHR 0xFF]"
    by (simp add: numeral_eq_Suc)
  moreover have "drop 4 (replicate 4 (CHR 0xFF) @ rest) = rest" by simp
  ultimately show ?thesis unfolding get_i32_def by (simp add: b)
qed

lemma next_cell_encode:
  "cells_fit (cell # cells) \<Longrightarrow> next_cell (encode_cell cell @ rest) = (cell, rest)"
  using get_i32_null [of rest]
  by (cases cell) (simp_all add: next_cell_def cells_fit_def get_i32_be32)

lemma cells_fit_tl: "cells_fit (cell # cells) \<Longrightarrow> cells_fit cells"
  by (simp add: cells_fit_def)

lemma read_cells_encode: "cells_fit cells \<Longrightarrow> read_cells (length cells) (encode_row cells) = cells"
proof (induction cells)
  case (Cons cell cells)
  from Cons.IH [OF cells_fit_tl [OF Cons.prems]] next_cell_encode [OF Cons.prems] show ?case
    by (simp add: encode_row_def)
qed (simp add: encode_row_def)

lemma refs_encode: "cells_fit cells \<Longrightarrow> decode_row_cell_refs (encode_row cells) = utf8_cells cells"
proof (induction cells)
  case Nil
  then show ?case by (simp add: encode_row_def decode_row_cell_refs.simps utf8_cells_def)
next
  case (Cons cell cells)
  note rec = Cons.IH [OF cells_fit_tl [OF Cons.prems]]
  show ?case
  proof (cases cell)
    case None
    with rec get_i32_null [of "encode_row cells"] show ?thesis
      by (subst decode_row_cell_refs.simps) (simp add: encode_row_def utf8_cells_def)
  next
    case (Some b)
    with Cons.prems have "length b < 2 ^ 31" by (simp add: cells_fit_def)
    from get_i32_be32 [OF this, of "b @ encode_row cells"] Some rec show ?thesis
      by (subst decode_row_cell_refs.simps) (simp add: encode_row_def utf8_cells_def)
  qed
qed

lemma first_cell_encode:
  assumes "cells_fit (cell # cells)"
  shows "first_cell_string (encode_row (cell # cells)) = Option.bind cell from_utf8"
proof (cases cell)
  case None
  then show ?thesis
    using get_i32_null [of "encode_row cells"] by (simp add: first_cell_string_def encode_row_def)
next
  case (Some b)
  with assms have "length b < 2 ^ 31" by (simp add: cells_fit_def)
  from get_i32_be32 [OF this, of "b @ encode_row cells"] Some show ?thesis
    by (simp add: first_cell_string_def encode_row_def)
qed

lemma push_rows:
  assumes "length columns = length schema"
  shows "fold (push_row idx schema) rows columns =
    map (\<lambda>(column, f). column @ map (\<lambda>row. cell_at idx f (decode_row_cell_refs row)) rows) (zip columns schema)"
  using assms
proof (induction rows arbitrary: columns)
  case Nil
  then show ?case by (intro nth_equalityI) simp_all
next
  case (Cons row rows)
  have "length (push_row idx schema row columns) = length schema"
    using Cons.prems by (simp add: push_row_def)
  from Cons.IH [OF this] show ?case
    by (intro nth_equalityI) (simp_all add: push_row_def Cons.prems)
qed

lemma single_pass_columns:
  "pg_rows_to_typed_batch_for_schema pt try_new schema infos idx rows =
     try_new schema (map (\<lambda>f. build_array pt (column_type infos idx f)
       (map (\<lambda>row. cell_at idx f (decode_row_cell_refs row)) rows)) schema)"
  unfolding pg_rows_to_typed_batch_for_schema_def Let_def
  by (subst push_rows) (simp_all add: zip_map1 zip_map2 zip_same_conv_map comp_def)

lemma build_array_type: "array_type (build_array pt t values) = built_type t"
  by (cases t) simp_all

lemma build_array_len: "array_len (build_array pt t values) = length values"
  by (cases t) simp_all

lemma typed_batch_succeeds:
  assumes "try_new_law try_new" and "schema \<noteq> []"
  shows "(\<exists>b. pg_rows_to_typed_batch_for_schema pt try_new schema infos idx rows = Inr b) \<longleftrightarrow>
    (\<forall>f \<in> set schema. built_type (column_type infos idx f) = fd_data_type f)"
  using assms
  by (simp add: single_pass_columns try_new_law_def build_array_type build_array_len comp_def)

lemma built_type_no_zone: "built_type t \<noteq> DtTimestamp (Some tz)"
  by (cases t) simp_all

subsection \<open>Typed values\<close>

lemma parse_signed_int_to_string:
  assumes "- (2 ^ (w - 1)) \<le> n" and "n < 2 ^ (w - 1)"
  shows "parse_signed w (int_to_string n) = Some n"
proof -
  have ne: "nat_to_string k \<noteq> [] \<and> list_all is_ascii_digit (nat_to_string k)" for k
    by (simp add: nat_to_string_digits)
  then have "\<not> starts_with (nat_to_string k) ''-''" "\<not> starts_with (nat_to_string k) ''+''" for k
    using ne [of k] by (cases "nat_to_string k"; auto dest: digit_not)+
  with ne assms show ?thesis
    by (auto simp: parse_signed_def int_to_string_def digits_value_nat_to_string)
qed

lemma rposition_snoc: "rposition P (xs @ [x]) = (if P x then Some (length xs) else rposition P xs)"
  by (auto simp: rposition_def option.map_comp comp_def)

lemma rposition_bound: "rposition P xs = Some i \<Longrightarrow> i < length xs"
  by (auto simp: rposition_def dest: position_SomeD)

lemma index_rposition:
  "map_of (rev (zip (map g xs) [0..<length xs])) k = rposition (\<lambda>x. g x = k) xs"
proof (induction xs rule: rev_induct)
  case (snoc x xs)
  then show ?case by (auto simp: rposition_snoc)
qed (simp add: rposition_def)

lemma field_index: "build_pg_field_index infos (to_ascii_lowercase (fd_name f)) = wire_column infos f"
  using index_rposition [of "\<lambda>g. to_ascii_lowercase (fi_name g)" infos "to_ascii_lowercase (fd_name f)"]
  by (simp add: build_pg_field_index_def wire_column_def)

lemma wire_column_bound: "wire_column infos f = Some j \<Longrightarrow> j < length infos"
  by (auto simp: wire_column_def dest: rposition_bound)

lemma column_read:
  assumes "\<forall>v \<in> set vs. \<forall>x. v = Some x \<longrightarrow> value_of_type pt ty x"
    and "\<And>x. value_of_type pt ty x \<Longrightarrow> read (value_text x) = get x"
  shows "map (\<lambda>v. Option.bind v read) (map (map_option value_text) vs) = column_of get vs"
proof -
  have "Option.bind (map_option value_text v) read = Option.bind v get" if "v \<in> set vs" for v
    using assms that by (cases v) auto
  then show ?thesis by simp
qed

lemma column_text:
  assumes "\<forall>v \<in> set vs. \<forall>x. v = Some x \<longrightarrow> value_of_type pt ty x"
    and "\<And>x. value_of_type pt ty x \<Longrightarrow> text_value x = Some (value_text x)"
  shows "map (map_option value_text) vs = column_of text_value vs"
proof -
  have "map_option value_text v = Option.bind v text_value" if "v \<in> set vs" for v
    using assms that by (cases v) auto
  then show ?thesis by simp
qed

lemma built_values:
  assumes "\<forall>v \<in> set vs. \<forall>x. v = Some x \<longrightarrow> value_of_type pt ty x"
  shows "build_array pt (pg_type_to_arrow ty) (map (map_option value_text) vs) = value_array ty vs"
proof -
  note col = column_read [OF assms]
  have hex: "parse_bytea pt (CHR 0x5C # CHR ''x'' # h) = pt_hex pt h" for h
    by (simp add: parse_bytea_def strip_prefix_def starts_with_def)
  show ?thesis
  proof (cases ty)
    case BOOL
    have "parse_bool (value_text x) = bool_value x" if "value_of_type pt ty x" for x
      using that BOOL by (cases x) (auto simp: parse_bool_def)
    then show ?thesis using col [of parse_bool bool_value] BOOL by simp
  next
    case INT2
    have "parse_signed 16 (value_text x) = int_value x" if "value_of_type pt ty x" for x
      using that INT2 by (cases x) (auto simp: parse_signed_int_to_string)
    then show ?thesis using col [of "parse_signed 16" int_value] INT2 by simp
  next
    case INT4
    have "parse_signed 32 (value_text x) = int_value x" if "value_of_type pt ty x" for x
      using that INT4 by (cases x) (auto simp: parse_signed_int_to_string)
    then show ?thesis using col [of "parse_signed 32" int_value] INT4 by simp
  next
    case INT8
    have "parse_signed 64 (value_text x) = int_value x" if "value_of_type pt ty x" for x
      using that INT8 by (cases x) (auto simp: parse_signed_int_to_string)
    then show ?thesis using col [of "parse_signed 64" int_value] INT8 by simp
  next
    case FLOAT4
    have "pt_f32 pt (value_text x) = float_value x" if "value_of_type pt ty x" for x
      using that FLOAT4 by (cases x) auto
    then show ?thesis using col [of "pt_f32 pt" float_value] FLOAT4 by simp
  next
    case FLOAT8
    have "pt_f64 pt (value_text x) = float_value x" if "value_of_type pt ty x" for x
      using that FLOAT8 by (cases x) auto
    then show ?thesis using col [of "pt_f64 pt" float_value] FLOAT8 by simp
  next
    case NUMERIC
    have "pt_f64 pt (value_text x) = float_value x" if "value_of_type pt ty x" for x
      using that NUMERIC by (cases x) auto
    then show ?thesis using col [of "pt_f64 pt" float_value] NUMERIC by simp
  next
    case DATE
    have "parse_date32 pt (value_text x) = int_value x" if "value_of_type pt ty x" for x
      using that DATE by (cases x) (auto simp: parse_date32_def)
    then show ?thesis using col [of "parse_date32 pt" int_value] DATE by simp
  next
    case TIMESTAMP
    have "parse_timestamp_micros pt (value_text x) False = int_value x" if "value_of_type pt ty x" for x
      using that TIMESTAMP by (cases x) (auto simp: parse_timestamp_micros_def)
    then show ?thesis using col [of "\<lambda>s. parse_timestamp_micros pt s False" int_value] TIMESTAMP by simp
  next
    case TIMESTAMPTZ
    have "parse_timestamp_micros pt (value_text x) True = int_value x" if "value_of_type pt ty x" for x
      using that TIMESTAMPTZ by (cases x) (auto simp: parse_timestamp_micros_def)
    then show ?thesis using col [of "\<lambda>s. parse_timestamp_micros pt s True" int_value] TIMESTAMPTZ by simp
  next
    case BYTEA
    have "parse_bytea pt (value_text x) = bytes_value x" if "value_of_type pt ty x" for x
      using that BYTEA hex by (cases x) auto
    then show ?thesis using col [of "parse_bytea pt" bytes_value] BYTEA by simp
  next
    case (ARRAY t)
    have "text_value x = Some (value_text x)" if "value_of_type pt ty x" for x using that ARRAY by (cases x) auto
    from column_text [OF assms this] ARRAY show ?thesis by simp
  next
    case (OtherPgType t)
    have "text_value x = Some (value_text x)" if "value_of_type pt ty x" for x using that OtherPgType by (cases x) auto
    from column_text [OF assms this] OtherPgType show ?thesis by simp
  qed
qed

lemma built_nulls: "build_array pt t (replicate n None) = null_array t n"
  by (cases t) simp_all

lemma typed_row_length: "typed_row pt infos row \<Longrightarrow> length row = length infos"
  by (simp add: typed_row_def list_all2_lengthD)

lemma typed_row_nth:
  "typed_row pt infos row \<Longrightarrow> j < length infos \<Longrightarrow> row ! j = Some x \<Longrightarrow> value_of_type pt (fi_datatype (infos ! j)) x"
  unfolding typed_row_def by (auto dest: list_all2_nthD)

lemma typed_row_decoded:
  assumes "typed_row pt infos row"
  shows "decode_row_cell_refs (wire_row row) = map (map_option value_text) row"
proof -
  have plain: "valid_utf8 (value_text x) \<and> length (value_text x) < 2 ^ 31" if "Some x \<in> set row" for x
  proof -
    from that obtain j where j: "j < length row" "row ! j = Some x" by (auto simp: in_set_conv_nth)
    with list_all2_nthD2 [OF assms [unfolded typed_row_def] j(1)] show ?thesis by simp
  qed
  have fit: "cells_fit (map (map_option value_text) row)"
    using plain by (auto simp: cells_fit_def eq_commute [of "Some _" "map_option _ _"])
  have "Option.bind (map_option value_text v) from_utf8 = map_option value_text v" if "v \<in> set row" for v
    using plain that by (cases v) (auto simp: from_utf8_def)
  then have "utf8_cells (map (map_option value_text) row) = map (map_option value_text) row" by (simp add: utf8_cells_def)
  with refs_encode [OF fit] show ?thesis by (simp add: wire_row_def)
qed

lemma typed_column:
  assumes "\<forall>row \<in> set rows. typed_row pt infos row"
  shows "build_array pt (column_type infos (build_pg_field_index infos) f)
      (map (\<lambda>row. cell_at (build_pg_field_index infos) f (decode_row_cell_refs row)) (map wire_row rows)) = reference_column infos rows f"
proof (cases "wire_column infos f")
  case None
  then have "map (\<lambda>row. cell_at (build_pg_field_index infos) f (decode_row_cell_refs row)) (map wire_row rows) = replicate (length rows) None"
    by (intro nth_equalityI) (simp_all add: cell_at_def field_index)
  with None show ?thesis by (simp add: built_nulls reference_column_def column_type_def field_index del: map_map)
next
  case (Some j)
  note j = wire_column_bound [OF Some]
  have "map (\<lambda>row. cell_at (build_pg_field_index infos) f (decode_row_cell_refs row)) (map wire_row rows)
      = map (map_option value_text) (map (\<lambda>row. row ! j) rows)"
  proof -
    have "cell_at (build_pg_field_index infos) f (decode_row_cell_refs (wire_row row)) = map_option value_text (row ! j)"
      if "row \<in> set rows" for row
      using assms that j typed_row_length [of pt infos row] typed_row_decoded [of pt infos row]
      by (simp add: cell_at_def field_index Some)
    then show ?thesis by simp
  qed
  moreover have "\<forall>v \<in> set (map (\<lambda>row. row ! j) rows). \<forall>x. v = Some x \<longrightarrow> value_of_type pt (fi_datatype (infos ! j)) x"
    using assms j by (auto intro: typed_row_nth)
  ultimately show ?thesis using j Some by (simp add: built_values reference_column_def column_type_def field_index del: map_map)
qed

lemma declarable_built: "built_type (column_type infos (build_pg_field_index infos) f) = fd_data_type f \<longleftrightarrow> declarable infos f"
proof (cases "wire_column infos f")
  case None
  then show ?thesis by (cases "fd_data_type f") (auto simp: declarable_def column_type_def field_index)
next
  case (Some j)
  with wire_column_bound [OF Some] show ?thesis
    by (cases "fi_datatype (infos ! j)") (auto simp: declarable_def column_type_def field_index)
qed

definition ref_try_new :: "(nat, Schema \<times> nat ArrayRef list) try_new" where
  "ref_try_new schema arrays =
     (if map array_type arrays = map fd_data_type schema \<and> (\<forall>a \<in> set arrays. array_len a = array_len (hd arrays))
      then Inr (schema, arrays) else Inl ''mismatch'')"

lemma ref_try_new_law: "try_new_law ref_try_new"
proof -
  have "(\<exists>n. \<forall>a \<in> set arrays. array_len a = n) \<longleftrightarrow> (\<forall>a \<in> set arrays. array_len a = array_len (hd arrays))"
    for arrays :: "nat ArrayRef list"
    by (cases arrays) auto
  then show ?thesis by (auto simp: try_new_law_def ref_try_new_def)
qed

definition demo_text :: "nat pg_text" where
  "demo_text = \<lparr> pt_f32 = (\<lambda>_. None), pt_f64 = (\<lambda>_. None), pt_days = (\<lambda>_. None), pt_rfc3339 = (\<lambda>_. None),
     pt_naive = (\<lambda>_ _. None), pt_hex = (\<lambda>_. None) \<rparr>"

section \<open>Properties\<close>

text \<open>
  C34. Wire rows are read back: from the wire form of any cells below the 32-bit length limit, NULLs
  included, the borrowing reader, the counted reader and the reader of the first cell all return exactly
  the cells, a cell that is not UTF-8 text reading as NULL.
\<close>

theorem wire_rows_round_trip:
  assumes "cells_fit cells"
  shows "decode_row_cell_refs (encode_row cells) = utf8_cells cells
    \<and> decode_row_cells (encode_row cells) (length cells) = utf8_cells cells
    \<and> (cells \<noteq> [] \<longrightarrow> first_cell_string (encode_row cells) = hd (utf8_cells cells))"
  using refs_encode [OF assms] read_cells_encode [OF assms] first_cell_encode [of "hd cells" "tl cells"] assms
  by (cases cells) (simp_all add: decode_row_cells_def utf8_cells_def)

theorem wire_rows_round_trip_witness:
  "decode_row_cell_refs (encode_row [Some ''BTC'', None, Some ''1'']) = [Some ''BTC'', None, Some ''1'']"
proof -
  have "valid_utf8 ''BTC''" "valid_utf8 ''1''" by code_simp+
  with wire_rows_round_trip [of "[Some ''BTC'', None, Some ''1'']"] show ?thesis
    by (simp add: cells_fit_def utf8_cells_def from_utf8_def)
qed

text \<open>
  C35. The single pass over wire rows builds the same batch as the reference that first decodes every row
  to strings: for any rows with the borrowing decoder, and for rows that carry one cell per field also
  with the counted decoder, the columns given to Arrow are identical.
\<close>

theorem single_pass_builds_reference_batch:
  "pg_rows_to_typed_batch_for_schema pt try_new schema infos (build_pg_field_index infos) rows =
     rows_to_typed_batch_for_schema pt try_new schema infos (map decode_row_cell_refs rows)
   \<and> ((\<forall>row \<in> set rows. \<exists>cells. row = encode_row cells \<and> cells_fit cells \<and> length cells = length infos) \<longrightarrow>
      pg_rows_to_typed_batch_for_schema pt try_new schema infos (build_pg_field_index infos) rows =
        rows_to_typed_batch_for_schema pt try_new schema infos (map (\<lambda>row. decode_row_cells row (length infos)) rows))"
proof -
  have one: "pg_rows_to_typed_batch_for_schema pt try_new schema infos (build_pg_field_index infos) rows =
     rows_to_typed_batch_for_schema pt try_new schema infos (map decode_row_cell_refs rows)"
    by (simp add: single_pass_columns rows_to_typed_batch_for_schema_def comp_def Let_def)
  have "decode_row_cell_refs row = decode_row_cells row (length infos)"
    if "row = encode_row cells" "cells_fit cells" "length cells = length infos" for row cells
    using refs_encode [OF that(2)] read_cells_encode [OF that(2)] that(1,3)
    by (simp add: decode_row_cells_def utf8_cells_def)
  then have same: "map decode_row_cell_refs rows = map (\<lambda>row. decode_row_cells row (length infos)) rows"
    if "\<forall>row \<in> set rows. \<exists>cells. row = encode_row cells \<and> cells_fit cells \<and> length cells = length infos"
    using that by (intro map_cong) blast+
  show ?thesis by (intro conjI impI one) (simp only: one same)
qed

theorem single_pass_builds_reference_batch_witness:
  "pg_rows_to_typed_batch_for_schema demo_text ref_try_new [\<lparr> fd_name = ''X'', fd_data_type = DtInt32 \<rparr>]
      [\<lparr> fi_name = ''x'', fi_datatype = INT4 \<rparr>] (build_pg_field_index [\<lparr> fi_name = ''x'', fi_datatype = INT4 \<rparr>]) [encode_row [Some ''7'']]
   = rows_to_typed_batch_for_schema demo_text ref_try_new [\<lparr> fd_name = ''X'', fd_data_type = DtInt32 \<rparr>]
      [\<lparr> fi_name = ''x'', fi_datatype = INT4 \<rparr>] [decode_row_cells (encode_row [Some ''7'']) 1]"
proof -
  have "\<forall>row \<in> set [encode_row [Some ''7'']]. \<exists>cells. row = encode_row cells \<and> cells_fit cells \<and> length cells = 1"
    by (auto intro!: exI [of _ "[Some ''7'']"] simp: cells_fit_def)
  then show ?thesis
    using single_pass_builds_reference_batch [of demo_text ref_try_new "[\<lparr> fd_name = ''X'', fd_data_type = DtInt32 \<rparr>]"
      "[\<lparr> fi_name = ''x'', fi_datatype = INT4 \<rparr>]" "[encode_row [Some ''7'']]"]
    unfolding list.map list.size by (metis One_nat_def add_0)
qed

text \<open>
  C36. Typed rows become typed batches. From the wire form of rows whose values have the types that the shard
  reports, the columns handed to Arrow hold exactly these values, for each type, with NULLs kept, taken from the
  column of the field's name in any case, and NULL throughout where the shard returned no such column. Whatever
  the wire rows are, the batch is built exactly when every field is declared with the one Arrow type of its reported
  type: lists are text, and the arrays of time stamps carry no zone; so a table with a column declared with a time
  zone can never be read through a federated query, whatever the shards report and return.
\<close>

theorem batch_built_iff_types_agree:
  assumes "try_new_law try_new" and "schema \<noteq> []" and "\<forall>row \<in> set rows. typed_row pt infos row"
  shows "pg_rows_to_typed_batch_for_schema pt try_new schema infos (build_pg_field_index infos) (map wire_row rows) =
      try_new schema (map (reference_column infos rows) schema)
    \<and> (\<forall>wire. (\<exists>b. pg_rows_to_typed_batch_for_schema pt try_new schema infos (build_pg_field_index infos) wire = Inr b) \<longleftrightarrow>
        (\<forall>f \<in> set schema. declarable infos f))
    \<and> (\<forall>f \<in> set schema. fd_data_type f = DtTimestamp (Some tz) \<longrightarrow>
        (\<forall>infos' idx wire b. pg_rows_to_typed_batch_for_schema pt try_new schema infos' idx wire \<noteq> Inr b))"
proof (intro conjI)
  show "pg_rows_to_typed_batch_for_schema pt try_new schema infos (build_pg_field_index infos) (map wire_row rows) =
      try_new schema (map (reference_column infos rows) schema)"
    by (simp only: single_pass_columns typed_column [OF assms(3)])
  note iff = typed_batch_succeeds [OF assms(1,2), of pt]
  show "\<forall>wire. (\<exists>b. pg_rows_to_typed_batch_for_schema pt try_new schema infos (build_pg_field_index infos) wire = Inr b) \<longleftrightarrow>
        (\<forall>f \<in> set schema. declarable infos f)"
    by (simp only: iff declarable_built) simp
  show "\<forall>f \<in> set schema. fd_data_type f = DtTimestamp (Some tz) \<longrightarrow>
        (\<forall>infos' idx wire b. pg_rows_to_typed_batch_for_schema pt try_new schema infos' idx wire \<noteq> Inr b)"
    using iff built_type_no_zone by metis
qed

theorem batch_built_iff_types_agree_witness:
  "pg_rows_to_typed_batch_for_schema demo_text ref_try_new [\<lparr> fd_name = ''X'', fd_data_type = DtInt32 \<rparr>]
      [\<lparr> fi_name = ''x'', fi_datatype = INT4 \<rparr>] (build_pg_field_index [\<lparr> fi_name = ''x'', fi_datatype = INT4 \<rparr>])
      (map wire_row [[Some (PvInt 7 :: nat PgValue)], [None]]) =
    ref_try_new [\<lparr> fd_name = ''X'', fd_data_type = DtInt32 \<rparr>] [Int32Array [Some 7, None]]"
proof -
  let ?infos = "[\<lparr> fi_name = ''x'', fi_datatype = INT4 \<rparr>]" and ?f = "\<lparr> fd_name = ''X'', fd_data_type = DtInt32 \<rparr>"
  have low: "to_ascii_lowercase ''X'' = ''x''" "to_ascii_lowercase ''x'' = ''x''" and seven: "valid_utf8 (int_to_string 7)"
    and len: "length (int_to_string 7) = 1" by code_simp+
  have "\<forall>row \<in> set [[Some (PvInt 7)], [None]]. typed_row demo_text ?infos row" by (simp add: typed_row_def seven len)
  note at = conjunct1 [OF batch_built_iff_types_agree [where schema = "[?f]", OF ref_try_new_law list.distinct(2) this]]
  have "map (reference_column ?infos [[Some (PvInt 7)], [None]]) [?f] = ([Int32Array [Some 7, None]] :: nat ArrayRef list)"
    by (simp add: reference_column_def wire_column_def rposition_def low)
  with at show ?thesis by (simp only:)
qed

end
