(* ===== verification/Federated_Query.thy ===== *)
theory Federated_Query
  imports App_State Pg_Types Complex_Main
begin

text \<open>
  Federated execution, \<open>federated/mod.rs\<close>, \<open>federated/scan.rs\<close>, \<open>federated/error.rs\<close> and the shard queries
  of \<open>federated/arrow.rs\<close>: a read is sent to every healthy shard through the connection pool and the
  answers are merged.

  The wire library is a parameter (\<open>fed_env\<close>): how a connection answers a query, the text of its errors and
  the encoding of a result row. 64-bit floats are values of a type variable with the operations in
  \<open>f64_ops\<close>. The tasks that query the shards run concurrently in the source; each uses the connections of
  its own shard only, so the model runs them one after the other and then waits for them in order. A
  result \<open>None\<close> says that the caller still waits for a free connection.
\<close>

datatype ClientResponse =
    CrEmptyQuery
  | CrQuery string "FieldInfo list" "DataRow list"
  | CrExecution string

datatype Response =
    EmptyQuery
  | QueryResponse (resp_schema: "FieldInfo list") (resp_rows: "DataRow list")
  | Execution string

datatype FederatedError =
    ShardQuery u32 string
  | SchemaMismatch string
  | RowLimitExceeded nat
  | Disabled
  | InsufficientShards

record ('g, 'k) fed_env =
  fe_parse_conn :: "string \<Rightarrow> string + 'g"
  fe_dial :: "'g \<Rightarrow> string + 'k"
  fe_ask :: "'k \<Rightarrow> string \<Rightarrow> PgWireError + ClientResponse list"
  fe_show :: "PgWireError \<Rightarrow> string"
  fe_encode :: "FieldInfo list \<Rightarrow> string \<Rightarrow> string + DataRow"

record 'f f64_ops =
  f_parse :: "string \<Rightarrow> 'f option"
  f_zero :: 'f
  f_add :: "'f \<Rightarrow> 'f \<Rightarrow> 'f"
  f_div :: "'f \<Rightarrow> 'f \<Rightarrow> 'f"
  f_min :: "'f \<Rightarrow> 'f \<Rightarrow> 'f"
  f_max :: "'f \<Rightarrow> 'f \<Rightarrow> 'f"
  f_infinity :: 'f
  f_neg_infinity :: 'f
  f_of_nat :: "nat \<Rightarrow> 'f"
  f_is_zero :: "'f \<Rightarrow> bool"
  f_fract_zero :: "'f \<Rightarrow> bool"
  f_as_i64 :: "'f \<Rightarrow> int"
  f_to_string :: "'f \<Rightarrow> string"

section \<open>Errors\<close>

fun fed_message :: "FederatedError \<Rightarrow> string" where
  "fed_message (ShardQuery i message) = ''shard '' @ nat_to_string (unat i) @ '' query failed: '' @ message"
| "fed_message (SchemaMismatch m) = ''schema mismatch across shards: '' @ m"
| "fed_message (RowLimitExceeded limit) = ''result exceeded max rows ('' @ nat_to_string limit @ '')''"
| "fed_message Disabled = ''federated execution disabled''"
| "fed_message InsufficientShards = ''insufficient healthy shards for federated query''"

fun fed_code :: "FederatedError \<Rightarrow> string" where
  "fed_code (ShardQuery i message) = ''XX000''"
| "fed_code (SchemaMismatch m) = ''XX000''"
| "fed_code (RowLimitExceeded limit) = ''53400''"
| "fed_code Disabled = ''0A000''"
| "fed_code InsufficientShards = ''08006''"

definition fed_to_pgwire :: "FederatedError \<Rightarrow> PgWireError" where
  "fed_to_pgwire e = UserError ''ERROR'' (fed_code e) (fed_message e)"

fun pool_message :: "PoolError \<Rightarrow> string" where
  "pool_message (UnknownShard i) = ''unknown shard '' @ nat_to_string (unat i)"
| "pool_message (ConnectFailed i message) = ''shard '' @ nat_to_string (unat i) @ '' connection failed: '' @ message"
| "pool_message (ClientTaken i) = ''client handle already taken for shard '' @ nat_to_string (unat i)"

definition is_connection_error :: "(PgWireError \<Rightarrow> string) \<Rightarrow> PgWireError \<Rightarrow> bool" where
  "is_connection_error shw err =
     (let msg = to_ascii_lowercase (shw err)
      in contains_sub msg ''broken pipe'' \<or> contains_sub msg ''connection reset''
       \<or> contains_sub msg ''connection refused'' \<or> contains_sub msg ''connection closed''
       \<or> contains_sub msg ''unexpected eof'' \<or> contains_sub msg ''unexpected remote message'')"

definition is_missing_table_error :: "(PgWireError \<Rightarrow> string) \<Rightarrow> PgWireError \<Rightarrow> bool" where
  "is_missing_table_error shw err = contains_sub (to_ascii_lowercase (shw err)) ''table does not exist''"

section \<open>One shard\<close>

definition query_shard_client ::
    "('g, 'k) fed_env \<Rightarrow> 'k PooledClient \<Rightarrow> string \<Rightarrow> PgWireError + ClientResponse list" where
  "query_shard_client env pc sql =
     (case client_mut pc of
        Inl e \<Rightarrow> Inl (fed_to_pgwire (ShardQuery (pc_shard_id pc) (pool_message e)))
      | Inr client \<Rightarrow>
          (case fe_ask env client sql of
             Inr responses \<Rightarrow> Inr responses
           | Inl e \<Rightarrow> Inl (fed_to_pgwire (ShardQuery (pc_shard_id pc) (fe_show env e)))))"

text \<open>Dropping a pooled client: the connection goes back if it is usable, then the permit.\<close>

definition give_back :: "'k ShardPgPool \<Rightarrow> 'k PooledClient \<Rightarrow> 'k ShardPgPool" where
  "give_back pool pc = release_permit (drop_client pool pc) (pc_shard_id pc)"

definition query_shard ::
    "('g, 'k) fed_env \<Rightarrow> 'k ShardPgPool \<Rightarrow> u32 \<Rightarrow> string
       \<Rightarrow> (PgWireError + ClientResponse list) option \<times> 'k ShardPgPool" where
  "query_shard env pool i sql =
     (case acquire (fe_parse_conn env) (fe_dial env) pool i of
        (Inl e, p) \<Rightarrow> (Some (Inl (fed_to_pgwire (ShardQuery i (pool_message e)))), p)
      | (Inr None, p) \<Rightarrow> (None, p)
      | (Inr (Some pc), p) \<Rightarrow>
          (case query_shard_client env pc sql of
             Inr responses \<Rightarrow> (Some (Inr responses), give_back p pc)
           | Inl e \<Rightarrow>
               if is_missing_table_error (fe_show env) e then (Some (Inr []), give_back p pc)
               else if is_connection_error (fe_show env) e then
                 (case acquire (fe_parse_conn env) (fe_dial env) (give_back p (invalidate pc)) i of
                    (Inl e2, p2) \<Rightarrow> (Some (Inl (fed_to_pgwire (ShardQuery i (pool_message e2)))), p2)
                  | (Inr None, p2) \<Rightarrow> (None, p2)
                  | (Inr (Some pc2), p2) \<Rightarrow> (Some (query_shard_client env pc2 sql), give_back p2 pc2))
               else (Some (Inl e), give_back p pc)))"

section \<open>All shards\<close>

definition shard_task ::
    "('g, 'k) fed_env \<Rightarrow> 'k ShardPgPool \<Rightarrow> u32 \<Rightarrow> string
       \<Rightarrow> (PgWireError + ClientResponse list) option \<times> 'k ShardPgPool" where
  "shard_task env pool i sql =
     (case acquire (fe_parse_conn env) (fe_dial env) pool i of
        (Inl e, p) \<Rightarrow> (Some (Inl (fed_to_pgwire (ShardQuery i (pool_message e)))), p)
      | (Inr None, p) \<Rightarrow> (None, p)
      | (Inr (Some pc), p) \<Rightarrow>
          (case client_mut pc of
             Inl e \<Rightarrow> (Some (Inl (fed_to_pgwire (ShardQuery i (pool_message e)))), give_back p pc)
           | Inr client \<Rightarrow>
               (case fe_ask env client sql of
                  Inr responses \<Rightarrow> (Some (Inr responses), give_back p pc)
                | Inl e \<Rightarrow>
                    let wrapped = fed_to_pgwire (ShardQuery i (fe_show env e))
                    in if is_missing_table_error (fe_show env) wrapped then (Some (Inr []), give_back p pc)
                       else (Some (Inl wrapped), give_back p pc))))"

fun run_tasks ::
    "('g, 'k) fed_env \<Rightarrow> string \<Rightarrow> u32 list \<Rightarrow> 'k ShardPgPool
       \<Rightarrow> (u32 \<times> (PgWireError + ClientResponse list) option) list \<times> 'k ShardPgPool" where
  "run_tasks env sql [] pool = ([], pool)"
| "run_tasks env sql (i # is) pool =
     (case shard_task env pool i sql of
        (r, pool1) \<Rightarrow> (case run_tasks env sql is pool1 of (rs, pool2) \<Rightarrow> ((i, r) # rs, pool2)))"

fun await_tasks ::
    "(u32 \<times> (PgWireError + ClientResponse list) option) list
       \<Rightarrow> (PgWireError + (u32 \<times> ClientResponse list) list) option" where
  "await_tasks [] = Some (Inr [])"
| "await_tasks ((i, None) # rs) = None"
| "await_tasks ((i, Some (Inl e)) # rs) = Some (Inl e)"
| "await_tasks ((i, Some (Inr responses)) # rs) =
     (case await_tasks rs of
        None \<Rightarrow> None
      | Some (Inl e) \<Rightarrow> Some (Inl e)
      | Some (Inr out) \<Rightarrow> Some (Inr ((i, responses) # out)))"

definition query_all_shards ::
    "('g, 'k) fed_env \<Rightarrow> ('r, 'c, 'k) AppState \<Rightarrow> string
       \<Rightarrow> (PgWireError + (u32 \<times> ClientResponse list) list) option \<times> ('r, 'c, 'k) AppState" where
  "query_all_shards env st sql =
     (case healthy_pg_shard_ids st of
        Inl e \<Rightarrow> (Some (Inl (to_pgwire e)), st)
      | Inr ids \<Rightarrow>
          (case run_tasks env sql ids (as_pg_pool st) of
             (rs, pool) \<Rightarrow> (await_tasks rs, st\<lparr>as_pg_pool := pool\<rparr>)))"

section \<open>Merging\<close>

fun push_rows :: "u64 \<Rightarrow> DataRow list \<Rightarrow> DataRow list \<Rightarrow> FederatedError + DataRow list" where
  "push_rows max_rows [] all_rows = Inr all_rows"
| "push_rows max_rows (row # rows) all_rows =
     (if length all_rows \<ge> unat max_rows then Inl (RowLimitExceeded (unat max_rows))
      else push_rows max_rows rows (all_rows @ [row]))"

fun merge_loop ::
    "u64 \<Rightarrow> ClientResponse list \<Rightarrow> FieldInfo list option \<Rightarrow> DataRow list
       \<Rightarrow> FederatedError + (FieldInfo list option \<times> DataRow list)" where
  "merge_loop max_rows [] schema all_rows = Inr (schema, all_rows)"
| "merge_loop max_rows (CrQuery tag f rows # rest) schema all_rows =
     (case (case schema of
              Some existing \<Rightarrow>
                if length existing \<noteq> length f
                then Inl (SchemaMismatch (''expected '' @ nat_to_string (length existing) @ '' columns, got ''
                            @ nat_to_string (length f)))
                else Inr existing
            | None \<Rightarrow> Inr f) of
        Inl e \<Rightarrow> Inl e
      | Inr schema' \<Rightarrow>
          (case push_rows max_rows rows all_rows of
             Inl e \<Rightarrow> Inl e
           | Inr all_rows' \<Rightarrow> merge_loop max_rows rest (Some schema') all_rows'))"
| "merge_loop max_rows (CrEmptyQuery # rest) schema all_rows = merge_loop max_rows rest schema all_rows"
| "merge_loop max_rows (CrExecution tag # rest) schema all_rows = merge_loop max_rows rest schema all_rows"

definition all_responses :: "(u32 \<times> ClientResponse list) list \<Rightarrow> ClientResponse list" where
  "all_responses shard_results = concat (map snd shard_results)"

definition merge_query_responses ::
    "(u32 \<times> ClientResponse list) list \<Rightarrow> u64 \<Rightarrow> PgWireError + Response list" where
  "merge_query_responses shard_results max_rows =
     (case merge_loop max_rows (all_responses shard_results) None [] of
        Inl e \<Rightarrow> Inl (fed_to_pgwire e)
      | Inr (schema, rows) \<Rightarrow> Inr [QueryResponse (case schema of Some f \<Rightarrow> f | None \<Rightarrow> []) rows])"

text \<open>The rows and the schemas of the query responses, in the order of the loops.\<close>

fun query_parts :: "ClientResponse list \<Rightarrow> (FieldInfo list \<times> DataRow list) list" where
  "query_parts [] = []"
| "query_parts (CrQuery tag f rows # rest) = (f, rows) # query_parts rest"
| "query_parts (_ # rest) = query_parts rest"

definition agg_merge :: "'f f64_ops \<Rightarrow> AggKind \<Rightarrow> 'f list \<Rightarrow> 'f" where
  "agg_merge ops kind values =
     (case kind of
        AggCount \<Rightarrow> foldl (f_add ops) (f_zero ops) values
      | AggSum \<Rightarrow> foldl (f_add ops) (f_zero ops) values
      | AggMin \<Rightarrow> foldl (f_min ops) (f_infinity ops) values
      | AggMax \<Rightarrow> foldl (f_max ops) (f_neg_infinity ops) values
      | AggAvg \<Rightarrow> f_div ops (foldl (f_add ops) (f_zero ops) values) (f_of_nat ops (length values)))"

definition count_field :: FieldInfo where
  "count_field = \<lparr> fi_name = ''count'', fi_datatype = INT8 \<rparr>"

definition merge_scalar_aggregate ::
    "('g, 'k) fed_env \<Rightarrow> 'f f64_ops \<Rightarrow> (u32 \<times> ClientResponse list) list \<Rightarrow> AggKind \<Rightarrow> PgWireError + Response list" where
  "merge_scalar_aggregate env ops shard_results kind =
     (let parts = query_parts (all_responses shard_results);
          values = List.map_filter (first_cell_f64 (f_parse ops)) (concat (map snd parts))
      in if values = [] then Inr [EmptyQuery]
         else let merged = agg_merge ops kind values;
                  schema = (case parts of (f, _) # _ \<Rightarrow> f | [] \<Rightarrow> [count_field]);
                  txt = (if f_fract_zero ops merged then int_to_string (f_as_i64 ops merged) else f_to_string ops merged)
              in case fe_encode env schema txt of
                   Inl e \<Rightarrow> Inl (fed_to_pgwire (ShardQuery 0 e))
                 | Inr row \<Rightarrow> Inr [QueryResponse schema [row]])"

fun avg_loop :: "'f f64_ops \<Rightarrow> DataRow list \<Rightarrow> 'f \<times> 'f \<times> bool \<Rightarrow> 'f \<times> 'f \<times> bool" where
  "avg_loop ops [] acc = acc"
| "avg_loop ops (row # rows) (total_sum, total_count, saw_rows) =
     (case cells_f64 (f_parse ops) row 2 of
        [Some s, Some c] \<Rightarrow> avg_loop ops rows (f_add ops total_sum s, f_add ops total_count c, True)
      | _ \<Rightarrow> avg_loop ops rows (total_sum, total_count, saw_rows))"

definition avg_field :: FieldInfo where
  "avg_field = \<lparr> fi_name = ''avg'', fi_datatype = FLOAT8 \<rparr>"

definition merge_avg ::
    "('g, 'k) fed_env \<Rightarrow> 'f f64_ops \<Rightarrow> (u32 \<times> ClientResponse list) list \<Rightarrow> PgWireError + Response list" where
  "merge_avg env ops shard_results =
     (case avg_loop ops (concat (map snd (query_parts (all_responses shard_results)))) (f_zero ops, f_zero ops, False) of
        (total_sum, total_count, saw_rows) \<Rightarrow>
          if \<not> saw_rows \<or> f_is_zero ops total_count then Inr [EmptyQuery]
          else case fe_encode env [avg_field] (f_to_string ops (f_div ops total_sum total_count)) of
                 Inl e \<Rightarrow> Inl (fed_to_pgwire (ShardQuery 0 e))
               | Inr row \<Rightarrow> Inr [QueryResponse [avg_field] [row]])"

section \<open>Scans\<close>

definition avg_argument_sql :: "sqlparser \<Rightarrow> FunctionArguments \<Rightarrow> string option" where
  "avg_argument_sql sp args =
     (case args of ListArguments (UnnamedArg expr # _) \<Rightarrow> Some (sp_show_expr sp expr) | _ \<Rightarrow> None)"

definition avg_item :: "sqlparser \<Rightarrow> string option \<Rightarrow> SelectItem \<Rightarrow> string option" where
  "avg_item sp avg_arg item =
     (case item of
        UnnamedExpr (FunctionExpr name args) \<Rightarrow>
          if eq_ignore_ascii_case (sp_show_name sp name) ''avg'' then avg_argument_sql sp args else avg_arg
      | _ \<Rightarrow> avg_arg)"

definition rewrite_avg_to_sum_count :: "sqlparser \<Rightarrow> string \<Rightarrow> string option" where
  "rewrite_avg_to_sum_count sp sql =
     (case sp_parse sp sql of
        Inr [QueryStatement query] \<Rightarrow>
          (case q_body query of
             SelectBody select \<Rightarrow>
               (case foldl (avg_item sp) None (sel_projection select) of
                  None \<Rightarrow> None
                | Some arg \<Rightarrow>
                    (case sp_parse sp (''SELECT sum('' @ arg @ '') , count('' @ arg @ '')'') of
                       Inr (QueryStatement helper_query # _) \<Rightarrow>
                         (case q_body helper_query of
                            SelectBody helper_select \<Rightarrow>
                              Some (sp_show_statement sp (QueryStatement
                                (query\<lparr>q_body := SelectBody (select\<lparr>sel_projection := sel_projection helper_select\<rparr>)\<rparr>)))
                          | _ \<Rightarrow> None)
                     | _ \<Rightarrow> None))
           | _ \<Rightarrow> None)
      | _ \<Rightarrow> None)"

definition execute_full_scan ::
    "('g, 'k) fed_env \<Rightarrow> ('r, 'c, 'k) AppState \<Rightarrow> string
       \<Rightarrow> (PgWireError + Response list) option \<times> ('r, 'c, 'k) AppState" where
  "execute_full_scan env st sql =
     (case query_all_shards env st sql of
        (None, st') \<Rightarrow> (None, st')
      | (Some (Inl e), st') \<Rightarrow> (Some (Inl e), st')
      | (Some (Inr results), st') \<Rightarrow>
          (Some (merge_query_responses results (rc_max_federated_rows (cfg_routing (as_config st)))), st'))"

definition execute_aggregate_scan ::
    "('g, 'k) fed_env \<Rightarrow> 'f f64_ops \<Rightarrow> sqlparser \<Rightarrow> ('r, 'c, 'k) AppState \<Rightarrow> string \<Rightarrow> AggKind
       \<Rightarrow> (PgWireError + Response list) option \<times> ('r, 'c, 'k) AppState" where
  "execute_aggregate_scan env ops sp st sql kind =
     (if kind = AggAvg then
        (case rewrite_avg_to_sum_count sp sql of
           None \<Rightarrow> (Some (Inl (fed_to_pgwire (SchemaMismatch ''cannot decompose AVG into SUM/COUNT for federated merge''))), st)
         | Some rewritten \<Rightarrow>
             (case query_all_shards env st rewritten of
                (None, st') \<Rightarrow> (None, st')
              | (Some (Inl e), st') \<Rightarrow> (Some (Inl e), st')
              | (Some (Inr results), st') \<Rightarrow> (Some (merge_avg env ops results), st')))
      else
        (case query_all_shards env st sql of
           (None, st') \<Rightarrow> (None, st')
         | (Some (Inl e), st') \<Rightarrow> (Some (Inl e), st')
         | (Some (Inr results), st') \<Rightarrow> (Some (merge_scalar_aggregate env ops results kind), st')))"

section \<open>Specification vocabulary\<close>

text \<open>The connections a query on a shard can use: an idle one or one that is opened for it.\<close>

definition idle :: "'k ShardPgPool \<Rightarrow> u32 \<Rightarrow> 'k set" where
  "idle pool i = (case pp_clients pool i of Some v \<Rightarrow> set v | None \<Rightarrow> {})"

definition usable :: "('g, 'k) fed_env \<Rightarrow> 'k ShardPgPool \<Rightarrow> u32 \<Rightarrow> 'k set" where
  "usable env pool i = idle pool i \<union> {k. connect (fe_parse_conn env) (fe_dial env) pool i = Inr k}"

text \<open>A shard's answer to a query: the reply of one of its connections; an unknown table counts as empty.\<close>

definition answers :: "('g, 'k) fed_env \<Rightarrow> 'k ShardPgPool \<Rightarrow> string \<Rightarrow> u32 \<Rightarrow> ClientResponse list \<Rightarrow> bool" where
  "answers env pool sql i rs \<longleftrightarrow>
     (\<exists>k \<in> usable env pool i. fe_ask env k sql = Inr rs
       \<or> (rs = [] \<and> (\<exists>e. fe_ask env k sql = Inl e
            \<and> is_missing_table_error (fe_show env) (fed_to_pgwire (ShardQuery i (fe_show env e))))))"

section \<open>Lemmas\<close>

subsection \<open>Connections and permits\<close>

lemma pop_idle_cases:
  assumes "pop_idle pool i = (c, p)"
  shows "pp_permits p = pp_permits pool" and "pp_shards p = pp_shards pool" and "pp_auth p = pp_auth pool"
    and "\<And>j. idle p j \<subseteq> idle pool j" and "\<And>k. c = Some k \<Longrightarrow> k \<in> idle pool i"
  using assms by (auto simp: pop_idle_def idle_def split: option.splits if_splits dest: in_set_butlastD)

lemma connect_cong:
  "pp_shards p = pp_shards pool \<Longrightarrow> pp_auth p = pp_auth pool \<Longrightarrow> connect pc dial p i = connect pc dial pool i"
  by (simp add: connect_def split: option.splits)

text \<open>What matters of a pool for the queries: the permits, and that no new connection appears.\<close>

definition shrinks :: "'k ShardPgPool \<Rightarrow> 'k ShardPgPool \<Rightarrow> bool" where
  "shrinks p pool \<longleftrightarrow> pp_shards p = pp_shards pool \<and> pp_auth p = pp_auth pool \<and> (\<forall>j. idle p j \<subseteq> idle pool j)"

lemma acquire_cases:
  assumes "acquire (fe_parse_conn env) (fe_dial env) pool i = (r, p)"
  obtains (failed) e where "r = Inl e" "pp_permits p = pp_permits pool" "shrinks p pool" "pp_permits pool i \<noteq> Some 0"
  | (waits) "r = Inr None" "p = pool" "pp_permits pool i = Some 0"
  | (got) k n where "r = Inr (Some (pooled i k))" "k \<in> usable env pool i" "shrinks p pool"
      "pp_permits pool i = Some (Suc n)" "pp_permits p = (pp_permits pool)(i \<mapsto> n)"
proof (cases "pp_permits pool i")
  case None
  with assms failed [of "UnknownShard i"] show thesis by (simp add: acquire_def acquire_permit_def shrinks_def)
next
  case (Some m)
  show thesis
  proof (cases m)
    case 0
    with Some assms waits show thesis by (simp add: acquire_def acquire_permit_def)
  next
    case (Suc n)
    let ?p1 = "pool\<lparr>pp_permits := (pp_permits pool)(i \<mapsto> n)\<rparr>"
    obtain c p2 where pop: "pop_idle ?p1 i = (c, p2)" by (cases "pop_idle ?p1 i")
    note pc = pop_idle_cases [OF pop]
    have sh: "shrinks p2 pool" using pc(2,3,4) by (simp add: shrinks_def idle_def)
    have conn: "connect (fe_parse_conn env) (fe_dial env) p2 i = connect (fe_parse_conn env) (fe_dial env) pool i"
      using pc(2,3) by (intro connect_cong) simp_all
    show thesis
    proof (cases c)
      case (Some k)
      with pc(5) have "k \<in> usable env pool i" by (simp add: usable_def idle_def)
      with got [of k n] Some Suc \<open>pp_permits pool i = Some m\<close> pop assms sh pc(1) show thesis
        by (simp add: acquire_def acquire_permit_def)
    next
      case None
      show thesis
      proof (cases "connect (fe_parse_conn env) (fe_dial env) pool i")
        case (Inl e)
        have "pp_permits (release_permit p2 i) = pp_permits pool"
          using pc(1) \<open>pp_permits pool i = Some m\<close> Suc by (auto simp: release_permit_def fun_eq_iff)
        moreover have "shrinks (release_permit p2 i) pool" using sh by (simp add: shrinks_def release_permit_def idle_def)
        ultimately show thesis
          using failed [of e] None Inl conn Suc \<open>pp_permits pool i = Some m\<close> pop assms
          by (simp add: acquire_def acquire_permit_def)
      next
        case (Inr k)
        then have "k \<in> usable env pool i" by (simp add: usable_def)
        with got [of k n] None Inr conn Suc \<open>pp_permits pool i = Some m\<close> pop assms sh pc(1) show thesis
          by (simp add: acquire_def acquire_permit_def)
      qed
    qed
  qed
qed

lemma give_back_permits:
  "pp_permits (give_back p pc) = (pp_permits p)(pc_shard_id pc := map_option Suc (pp_permits p (pc_shard_id pc)))"
  by (auto simp: give_back_def release_permit_def drop_client_def release_def Let_def split: option.splits)

lemma give_back_frame:
  "pp_shards (give_back p pc) = pp_shards p" "pp_auth (give_back p pc) = pp_auth p"
  "idle (give_back p (pooled i k)) j \<subseteq> idle p j \<union> (if j = i then {k} else {})"
  "idle (give_back p (invalidate pc)) j = idle p j"
  by (auto simp: give_back_def release_permit_def drop_client_def release_def Let_def idle_def pooled_def invalidate_def
      split: option.splits if_splits)

lemma shrinks_refl [simp]: "shrinks p p"
  by (simp add: shrinks_def)

lemma usable_mono: "shrinks p pool \<Longrightarrow> usable env p i \<subseteq> usable env pool i"
  using connect_cong [of p pool "fe_parse_conn env" "fe_dial env" i] by (auto simp: shrinks_def usable_def)

text \<open>A query on a shard leaves it with the permits it had and no connection that it could not have had.\<close>

definition settled :: "('g, 'k) fed_env \<Rightarrow> 'k ShardPgPool \<Rightarrow> 'k ShardPgPool \<Rightarrow> bool" where
  "settled env p pool \<longleftrightarrow> pp_permits p = pp_permits pool \<and> pp_shards p = pp_shards pool \<and> pp_auth p = pp_auth pool
     \<and> (\<forall>j. usable env p j \<subseteq> usable env pool j)"

lemma settled_refl [simp]: "settled env p p"
  by (simp add: settled_def)

lemma settled_trans: "settled env a b \<Longrightarrow> settled env b c \<Longrightarrow> settled env a c"
  unfolding settled_def by (metis order_trans)

lemma shrinks_settled: "shrinks p pool \<Longrightarrow> pp_permits p = pp_permits pool \<Longrightarrow> settled env p pool"
  using usable_mono [of p pool env] by (auto simp: settled_def) (auto simp: shrinks_def)

lemma give_back_settled:
  assumes "shrinks p pool" and "pp_permits pool i = Some (Suc n)" and "pp_permits p = (pp_permits pool)(i \<mapsto> n)"
    and "k \<in> usable env pool i" and "pc = pooled i k \<or> pc = invalidate (pooled i k)"
  shows "settled env (give_back p pc) pool"
proof -
  have id: "pc_shard_id pc = i" using assms(5) by (auto simp: pooled_def invalidate_def)
  have "pp_permits (give_back p pc) = pp_permits pool"
    using assms(2,3) by (auto simp: give_back_permits id fun_eq_iff)
  moreover have "idle (give_back p pc) j \<subseteq> usable env pool j" for j
    using assms(1,4,5) give_back_frame(3) [of p i k j] give_back_frame(4) [of p "pooled i k" j]
    by (auto simp: shrinks_def usable_def split: if_splits)
  moreover have "connect (fe_parse_conn env) (fe_dial env) (give_back p pc) j =
      connect (fe_parse_conn env) (fe_dial env) pool j" for j
    using assms(1) give_back_frame(1,2) [of p pc] by (intro connect_cong) (simp_all add: shrinks_def)
  ultimately show ?thesis
    using assms(1) give_back_frame(1,2) [of p pc] by (auto simp: settled_def shrinks_def usable_def)
qed

lemma client_pooled [simp]: "client_mut (pooled i k) = Inr k" "pc_shard_id (pooled i k) = i"
  by (simp_all add: client_mut_def pooled_def)

lemma query_shard_settled:
  assumes "query_shard env pool i sql = (r, pool')"
  shows "settled env pool' pool" and "r = None \<longleftrightarrow> pp_permits pool i = Some 0"
proof -
  obtain a p where acq: "acquire (fe_parse_conn env) (fe_dial env) pool i = (a, p)"
    by (cases "acquire (fe_parse_conn env) (fe_dial env) pool i")
  then have "settled env pool' pool \<and> (r = None \<longleftrightarrow> pp_permits pool i = Some 0)"
  proof (cases rule: acquire_cases)
    case (failed e)
    with acq assms show ?thesis by (auto simp: query_shard_def intro: shrinks_settled)
  next
    case waits
    with acq assms show ?thesis by (simp add: query_shard_def)
  next
    case (got k n)
    note ret = give_back_settled [OF got(3,4,5,2)]
    let ?p1 = "give_back p (invalidate (pooled i k))"
    obtain a2 p2 where acq2: "acquire (fe_parse_conn env) (fe_dial env) ?p1 i = (a2, p2)"
      by (cases "acquire (fe_parse_conn env) (fe_dial env) ?p1 i")
    have p1: "settled env ?p1 pool" by (rule ret) simp
    from acq2 have again: "settled env (case a2 of Inr (Some pc2) \<Rightarrow> give_back p2 pc2 | _ \<Rightarrow> p2) pool \<and> a2 \<noteq> Inr None"
    proof (cases rule: acquire_cases)
      case (failed e)
      with settled_trans [OF shrinks_settled p1] show ?thesis by simp
    next
      case waits
      with p1 got(4) show ?thesis by (simp add: settled_def)
    next
      case (got k2 n2)
      from settled_trans [OF give_back_settled [OF got(3,4,5,2)] p1] got(1) show ?thesis by simp
    qed
    have ok: "settled env (give_back p (pooled i k)) pool" by (rule ret) simp
    show ?thesis
      using assms acq got(1,4) acq2 again ok
      by (auto simp: query_shard_def split: sum.splits option.splits if_splits)
  qed
  then show "settled env pool' pool" "r = None \<longleftrightarrow> pp_permits pool i = Some 0" by blast+
qed

lemma shard_task_settled:
  assumes "shard_task env pool i sql = (r, pool')"
  shows "settled env pool' pool" and "r = Some (Inr rs) \<Longrightarrow> answers env pool sql i rs"
proof -
  obtain a p where acq: "acquire (fe_parse_conn env) (fe_dial env) pool i = (a, p)"
    by (cases "acquire (fe_parse_conn env) (fe_dial env) pool i")
  then have "settled env pool' pool \<and> (r = Some (Inr rs) \<longrightarrow> answers env pool sql i rs)"
  proof (cases rule: acquire_cases)
    case (failed e)
    with acq assms show ?thesis by (auto simp: shard_task_def intro: shrinks_settled)
  next
    case waits
    with acq assms show ?thesis by (simp add: shard_task_def)
  next
    case (got k n)
    have ok: "settled env (give_back p (pooled i k)) pool" by (rule give_back_settled [OF got(3,4,5,2)]) simp
    with assms acq got(1,2) show ?thesis
      by (auto simp: shard_task_def answers_def Let_def split: sum.splits if_splits)
  qed
  then show "settled env pool' pool" "r = Some (Inr rs) \<Longrightarrow> answers env pool sql i rs" by blast+
qed

lemma answers_mono: "settled env p pool \<Longrightarrow> answers env p sql i rs \<Longrightarrow> answers env pool sql i rs"
  unfolding settled_def answers_def by blast

lemma run_tasks_settled:
  "run_tasks env sql is pool = (rs, pool') \<Longrightarrow>
     settled env pool' pool \<and> map fst rs = is
   \<and> (\<forall>i responses. (i, Some (Inr responses)) \<in> set rs \<longrightarrow> answers env pool sql i responses)"
proof (induction "is" arbitrary: pool rs)
  case (Cons i "is")
  obtain r pool1 where one: "shard_task env pool i sql = (r, pool1)" by (cases "shard_task env pool i sql")
  obtain rs2 pool2 where two: "run_tasks env sql is pool1 = (rs2, pool2)" by (cases "run_tasks env sql is pool1")
  from Cons.prems one two have rs: "rs = (i, r) # rs2" "pool' = pool2" by simp_all
  note first = shard_task_settled [OF one]
  from Cons.IH [of pool1 rs2] two rs(2) have rest: "settled env pool2 pool1" "map fst rs2 = is"
    "\<forall>i responses. (i, Some (Inr responses)) \<in> set rs2 \<longrightarrow> answers env pool1 sql i responses" by simp_all
  show ?case
    using settled_trans [OF rest(1) first(1)] rest(2,3) first answers_mono [OF first(1)] by (auto simp: rs)
qed simp

lemma await_tasks_Inr:
  "await_tasks rs = Some (Inr out) \<Longrightarrow> rs = map (\<lambda>(i, responses). (i, Some (Inr responses))) out"
proof (induction rs arbitrary: out rule: await_tasks.induct)
  case (4 i responses rs)
  then show ?case by (auto split: option.splits sum.splits)
qed auto

lemma query_all_shards_ok:
  assumes "query_all_shards env st sql = (Some (Inr out), st')"
  shows "healthy_pg_shard_ids st = Inr (map fst out)"
    and "\<forall>(i, rs) \<in> set out. answers env (as_pg_pool st) sql i rs"
    and "settled env (as_pg_pool st') (as_pg_pool st)" and "st' = st\<lparr>as_pg_pool := as_pg_pool st'\<rparr>"
proof -
  from assms obtain ids rs pool where ids: "healthy_pg_shard_ids st = Inr ids"
    and run: "run_tasks env sql ids (as_pg_pool st) = (rs, pool)" and await: "await_tasks rs = Some (Inr out)"
    and st': "st' = st\<lparr>as_pg_pool := pool\<rparr>"
    by (auto simp: query_all_shards_def split: sum.splits prod.splits)
  note tasks = run_tasks_settled [OF run]
  note out = await_tasks_Inr [OF await]
  have "map fst rs = map fst out" by (simp add: out comp_def case_prod_beta)
  with tasks ids show "healthy_pg_shard_ids st = Inr (map fst out)" by simp
  from tasks out show "\<forall>(i, rs) \<in> set out. answers env (as_pg_pool st) sql i rs" by force
  from tasks st' show "settled env (as_pg_pool st') (as_pg_pool st)" "st' = st\<lparr>as_pg_pool := as_pg_pool st'\<rparr>" by simp_all
qed

subsection \<open>Merging rows\<close>

lemma push_rows_eq:
  "length acc \<le> unat m \<Longrightarrow>
     push_rows m rows acc = (if length acc + length rows \<le> unat m then Inr (acc @ rows) else Inl (RowLimitExceeded (unat m)))"
  by (induction rows arbitrary: acc) auto

text \<open>The schemas that are compared: the one already taken, then those of the responses.\<close>

definition schemas :: "FieldInfo list option \<Rightarrow> ClientResponse list \<Rightarrow> FieldInfo list list" where
  "schemas schema rs = (case schema of Some f \<Rightarrow> [f] | None \<Rightarrow> []) @ map fst (query_parts rs)"

definition all_rows :: "ClientResponse list \<Rightarrow> DataRow list" where
  "all_rows rs = concat (map snd (query_parts rs))"

definition same_width :: "FieldInfo list list \<Rightarrow> bool" where
  "same_width fs \<longleftrightarrow> (\<forall>f \<in> set fs. length f = length (hd fs))"

lemma merge_loop_Inr:
  "length acc \<le> unat m \<Longrightarrow>
     merge_loop m rs schema acc = Inr (schema', acc') \<longleftrightarrow>
       same_width (schemas schema rs) \<and> length acc + length (all_rows rs) \<le> unat m
     \<and> acc' = acc @ all_rows rs
     \<and> schema' = (if schemas schema rs = [] then None else Some (hd (schemas schema rs)))"
proof (induction m rs schema acc rule: merge_loop.induct)
  case (1 m schema acc)
  then show ?case by (auto simp: schemas_def all_rows_def same_width_def split: option.splits)
next
  case (2 m tag f rows rest schema acc)
  show ?case
  proof (cases "(case schema of Some existing \<Rightarrow> length existing = length f | None \<Rightarrow> True) \<and> length acc + length rows \<le> unat m")
    case False
    with 2(2) show ?thesis
      by (auto simp: push_rows_eq schemas_def all_rows_def same_width_def split: option.splits if_splits)
  next
    case True
    let ?schema = "case schema of Some existing \<Rightarrow> existing | None \<Rightarrow> f"
    from True 2(2) have step: "merge_loop m (CrQuery tag f rows # rest) schema acc =
        merge_loop m rest (Some ?schema) (acc @ rows)"
      by (simp add: push_rows_eq split: option.splits)
    have "merge_loop m rest (Some ?schema) (acc @ rows) = Inr (schema', acc') \<longleftrightarrow>
        same_width (schemas (Some ?schema) rest) \<and> length (acc @ rows) + length (all_rows rest) \<le> unat m
      \<and> acc' = (acc @ rows) @ all_rows rest
      \<and> schema' = (if schemas (Some ?schema) rest = [] then None else Some (hd (schemas (Some ?schema) rest)))"
      using True 2(2) by (intro 2(1)) (auto simp: push_rows_eq split: option.splits)
    with step True show ?thesis
      by (auto simp: schemas_def all_rows_def same_width_def split: option.splits)
  qed
next
  case (3 m rest schema acc)
  then show ?case by (simp add: schemas_def all_rows_def)
next
  case (4 m tag rest schema acc)
  then show ?case by (simp add: schemas_def all_rows_def)
qed

lemma merge_loop_Inl:
  "merge_loop m rs schema acc = Inl e \<Longrightarrow> (\<exists>t. e = SchemaMismatch t) \<or> e = RowLimitExceeded (unat m)"
proof (induction m rs schema acc rule: merge_loop.induct)
  case (2 m tag f rows rest schema acc)
  have "push_rows m rows acc = Inl x \<Longrightarrow> x = RowLimitExceeded (unat m)" for x rows acc
    by (induction rows arbitrary: acc) (auto split: if_splits)
  with 2 show ?case by (auto split: sum.splits option.splits if_splits)
qed auto

lemma merge_query_responses_Inr_iff:
  "merge_query_responses results m = Inr resp \<longleftrightarrow>
     same_width (schemas None (all_responses results)) \<and> length (all_rows (all_responses results)) \<le> unat m
   \<and> resp = [QueryResponse (case schemas None (all_responses results) of f # _ \<Rightarrow> f | [] \<Rightarrow> []) (all_rows (all_responses results))]"
proof -
  let ?rs = "all_responses results"
  have iff: "merge_loop m ?rs None [] = Inr (schema, rows) \<longleftrightarrow>
      same_width (schemas None ?rs) \<and> length (all_rows ?rs) \<le> unat m \<and> rows = all_rows ?rs
    \<and> schema = (if schemas None ?rs = [] then None else Some (hd (schemas None ?rs)))" for schema rows
    using merge_loop_Inr [of "[]" m ?rs None schema rows] by simp
  show ?thesis
  proof (cases "merge_loop m ?rs None []")
    case (Inl e)
    with iff show ?thesis by (auto simp: merge_query_responses_def)
  next
    case (Inr sr)
    obtain schema rows where sr: "sr = (schema, rows)" by (cases sr)
    with iff [of schema rows] Inr show ?thesis
      by (auto simp: merge_query_responses_def split: list.splits)
  qed
qed

subsection \<open>Merging aggregates\<close>

text \<open>
  The aggregate of a column of numbers, and the reply of a shard to an aggregate query over its rows: one
  row with one cell, NULL for an aggregate other than a count over no rows.
\<close>

definition agg_value :: "AggKind \<Rightarrow> real list \<Rightarrow> real" where
  "agg_value kind xs =
     (case kind of
        AggCount \<Rightarrow> real (length xs)
      | AggSum \<Rightarrow> sum_list xs
      | AggMin \<Rightarrow> Min (set xs)
      | AggMax \<Rightarrow> Max (set xs)
      | AggAvg \<Rightarrow> sum_list xs / real (length xs))"

definition agg_cell :: "(real \<Rightarrow> string) \<Rightarrow> AggKind \<Rightarrow> real list \<Rightarrow> bytes option" where
  "agg_cell txt kind xs = (if xs = [] \<and> kind \<noteq> AggCount then None else Some (txt (agg_value kind xs)))"

definition agg_reply :: "FieldInfo list \<Rightarrow> (real \<Rightarrow> string) \<Rightarrow> AggKind \<Rightarrow> u32 \<times> real list \<Rightarrow> u32 \<times> ClientResponse list" where
  "agg_reply f txt kind ix = (fst ix, [CrQuery ''SELECT'' f [encode_row [agg_cell txt kind (snd ix)]]])"

text \<open>The reply to the rewritten query of an average: the sum and the number of the rows.\<close>

definition avg_reply :: "FieldInfo list \<Rightarrow> (real \<Rightarrow> string) \<Rightarrow> u32 \<times> real list \<Rightarrow> u32 \<times> ClientResponse list" where
  "avg_reply f txt ix =
     (fst ix, [CrQuery ''SELECT'' f [encode_row [agg_cell txt AggSum (snd ix), agg_cell txt AggCount (snd ix)]]])"

text \<open>
  Floating point without rounding: on the real numbers in \<open>R\<close> (those that are represented exactly, by
  \<open>h\<close>) an operation whose exact result is in \<open>R\<close> yields that result, and \<open>R\<close> is printed and parsed back.
\<close>

definition exact_f64 :: "'f f64_ops \<Rightarrow> (real \<Rightarrow> 'f) \<Rightarrow> (real \<Rightarrow> bool) \<Rightarrow> bool" where
  "exact_f64 ops h R \<longleftrightarrow>
     f_zero ops = h 0 \<and> R 0
   \<and> (\<forall>x y. R x \<and> R y \<and> R (x + y) \<longrightarrow> f_add ops (h x) (h y) = h (x + y))
   \<and> (\<forall>x y. R x \<and> R y \<and> y \<noteq> 0 \<and> R (x / y) \<longrightarrow> f_div ops (h x) (h y) = h (x / y))
   \<and> (\<forall>x. R x \<longrightarrow> f_min ops (f_infinity ops) (h x) = h x \<and> f_max ops (f_neg_infinity ops) (h x) = h x)
   \<and> (\<forall>x y. R x \<and> R y \<longrightarrow> f_min ops (h x) (h y) = h (min x y) \<and> f_max ops (h x) (h y) = h (max x y))
   \<and> (\<forall>x. R x \<longrightarrow> (f_is_zero ops (h x) \<longleftrightarrow> x = 0))"

definition prints_exactly :: "'f f64_ops \<Rightarrow> (real \<Rightarrow> 'f) \<Rightarrow> (real \<Rightarrow> bool) \<Rightarrow> (real \<Rightarrow> string) \<Rightarrow> bool" where
  "prints_exactly ops h R txt \<longleftrightarrow>
     (\<forall>x. R x \<longrightarrow> f_parse ops (txt x) = Some (h x) \<and> valid_utf8 (txt x) \<and> trim (txt x) = txt x \<and> length (txt x) < 2 ^ 31)"

definition agg_text :: "'f f64_ops \<Rightarrow> 'f \<Rightarrow> string" where
  "agg_text ops v = (if f_fract_zero ops v then int_to_string (f_as_i64 ops v) else f_to_string ops v)"

lemma query_parts_replies:
  "concat (map snd (query_parts (all_responses (map (agg_reply f txt kind) ixs)))) =
     map (\<lambda>ix. encode_row [agg_cell txt kind (snd ix)]) ixs"
  "concat (map snd (query_parts (all_responses (map (avg_reply f txt) ixs)))) =
     map (\<lambda>ix. encode_row [agg_cell txt AggSum (snd ix), agg_cell txt AggCount (snd ix)]) ixs"
  "ixs \<noteq> [] \<Longrightarrow> \<exists>rest rows. query_parts (all_responses (map (agg_reply f txt kind) ixs)) = (f, rows) # rest"
  by (induction ixs) (auto simp: all_responses_def agg_reply_def avg_reply_def)

lemma first_cell_reply:
  assumes "prints_exactly ops h R txt" and "kind \<noteq> AggCount \<and> xs = [] \<or> R (agg_value kind xs)"
  shows "first_cell_f64 (f_parse ops) (encode_row [agg_cell txt kind xs]) =
    (if xs = [] \<and> kind \<noteq> AggCount then None else Some (h (agg_value kind xs)))"
proof (cases "xs = [] \<and> kind \<noteq> AggCount")
  case True
  have "cells_fit [None]" by (simp add: cells_fit_def)
  from first_cell_encode [OF this] True show ?thesis by (simp add: first_cell_f64_def agg_cell_def)
next
  case False
  with assms have R: "R (agg_value kind xs)" by auto
  with assms(1) have fit: "cells_fit [Some (txt (agg_value kind xs))]" by (simp add: prints_exactly_def cells_fit_def)
  from first_cell_encode [OF fit] False R assms(1) show ?thesis
    by (auto simp: first_cell_f64_def agg_cell_def prints_exactly_def from_utf8_def)
qed

lemma foldl_add_exact:
  assumes "exact_f64 ops h R"
  shows "(\<forall>n \<le> length xs. R (a + sum_list (take n xs))) \<and> (\<forall>x \<in> set xs. R x) \<Longrightarrow>
    foldl (f_add ops) (h a) (map h xs) = h (a + sum_list xs)"
proof (induction xs arbitrary: a)
  case (Cons x xs)
  have "R a" using Cons.prems by (auto dest: spec [of _ 0])
  moreover have "R (a + x)" using Cons.prems by (auto dest!: spec [of _ 1])
  ultimately have add: "f_add ops (h a) (h x) = h (a + x)" using assms Cons.prems by (simp add: exact_f64_def)
  have "\<forall>n \<le> length xs. R (a + x + sum_list (take n xs))"
    using Cons.prems by (auto dest!: spec [of _ "Suc _"] simp: add.assoc)
  with Cons.IH [of "a + x"] Cons.prems add show ?case by (simp add: add.assoc)
qed simp

lemma foldl_min_exact:
  assumes "exact_f64 ops h R"
  shows "R a \<Longrightarrow> \<forall>x \<in> set xs. R x \<Longrightarrow> foldl (f_min ops) (h a) (map h xs) = h (Min (set (a # xs)))"
proof (induction xs arbitrary: a)
  case (Cons x xs)
  then have "R (min a x)" by (simp add: min_def)
  with Cons assms show ?case by (cases "xs = []") (simp_all add: exact_f64_def min.assoc)
qed simp

lemma foldl_max_exact:
  assumes "exact_f64 ops h R"
  shows "R a \<Longrightarrow> \<forall>x \<in> set xs. R x \<Longrightarrow> foldl (f_max ops) (h a) (map h xs) = h (Max (set (a # xs)))"
proof (induction xs arbitrary: a)
  case (Cons x xs)
  then have "R (max a x)" by (simp add: max_def)
  with Cons assms show ?case by (cases "xs = []") (simp_all add: exact_f64_def max.assoc)
qed simp

lemma concat_filter_nonempty: "concat (filter (\<lambda>xs. xs \<noteq> []) xss) = concat xss"
  by (induction xss) auto

lemma Min_concat:
  "xss \<noteq> [] \<Longrightarrow> \<forall>xs \<in> set xss. xs \<noteq> [] \<Longrightarrow> Min (set (map (\<lambda>xs. Min (set xs)) xss)) = Min (set (concat xss) :: real set)"
  by (induction xss rule: list_nonempty_induct) (auto simp: Min_Un)

lemma Max_concat:
  "xss \<noteq> [] \<Longrightarrow> \<forall>xs \<in> set xss. xs \<noteq> [] \<Longrightarrow> Max (set (map (\<lambda>xs. Max (set xs)) xss)) = Max (set (concat xss) :: real set)"
  by (induction xss rule: list_nonempty_induct) (auto simp: Max_Un)

text \<open>The partial results the shards report; a shard without rows reports none, except as a count.\<close>

definition reported :: "AggKind \<Rightarrow> (u32 \<times> real list) list \<Rightarrow> real list" where
  "reported kind ixs = map (\<lambda>ix. agg_value kind (snd ix)) (filter (\<lambda>ix. snd ix \<noteq> [] \<or> kind = AggCount) ixs)"

definition partial_sums_in :: "(real \<Rightarrow> bool) \<Rightarrow> real list \<Rightarrow> bool" where
  "partial_sums_in R xs \<longleftrightarrow> (\<forall>n \<le> length xs. R (sum_list (take n xs)))"

lemma reported_values:
  assumes "prints_exactly ops h R txt" and "\<forall>v \<in> set (reported kind ixs). R v"
  shows "List.map_filter (first_cell_f64 (f_parse ops)) (map (\<lambda>ix. encode_row [agg_cell txt kind (snd ix)]) ixs) =
    map h (reported kind ixs)"
  using assms(2)
proof (induction ixs)
  case (Cons ix ixs)
  have R: "kind \<noteq> AggCount \<and> snd ix = [] \<or> R (agg_value kind (snd ix))"
    using Cons.prems by (cases "snd ix = [] \<longrightarrow> kind = AggCount") (auto simp: reported_def)
  have "set (reported kind ixs) \<subseteq> set (reported kind (ix # ixs))" by (auto simp: reported_def)
  with Cons.prems have "\<forall>v \<in> set (reported kind ixs). R v" by blast
  with Cons.IH first_cell_reply [OF assms(1) R] show ?case
    by (auto simp: List.map_filter_simps reported_def)
qed (simp add: reported_def List.map_filter_simps)

lemma reported_sum: "sum_list (reported AggSum ixs) = sum_list (concat (map snd ixs))"
  by (induction ixs) (auto simp: reported_def agg_value_def)

lemma reported_count: "sum_list (reported AggCount ixs) = real (length (concat (map snd ixs)))"
  by (induction ixs) (auto simp: reported_def agg_value_def)

lemma reported_extreme:
  "reported AggMin ixs = map (\<lambda>xs. Min (set xs)) (filter (\<lambda>xs. xs \<noteq> []) (map snd ixs))"
  "reported AggMax ixs = map (\<lambda>xs. Max (set xs)) (filter (\<lambda>xs. xs \<noteq> []) (map snd ixs))"
  by (induction ixs) (auto simp: reported_def agg_value_def)

lemma extremes_concat:
  assumes "reported AggMin ixs \<noteq> []"
  shows "Min (set (reported AggMin ixs)) = Min (set (concat (map snd ixs)))"
    and "Max (set (reported AggMax ixs)) = Max (set (concat (map snd ixs)))"
proof -
  let ?xss = "filter (\<lambda>xs. xs \<noteq> []) (map snd ixs)"
  have ne: "?xss \<noteq> []" "\<forall>xs \<in> set ?xss. xs \<noteq> []" using assms by (auto simp: reported_extreme filter_empty_conv)
  show "Min (set (reported AggMin ixs)) = Min (set (concat (map snd ixs)))"
    using Min_concat [OF ne] unfolding reported_extreme by (simp only: concat_filter_nonempty)
  show "Max (set (reported AggMax ixs)) = Max (set (concat (map snd ixs)))"
    using Max_concat [OF ne] unfolding reported_extreme by (simp only: concat_filter_nonempty)
qed

lemma agg_merge_exact:
  assumes ex: "exact_f64 ops h R" and "reported kind ixs \<noteq> []" and kind: "kind \<noteq> AggAvg"
    and R: "\<forall>v \<in> set (reported kind ixs). R v"
    and sums: "kind \<in> {AggCount, AggSum} \<Longrightarrow> partial_sums_in R (reported kind ixs)"
  shows "agg_merge ops kind (map h (reported kind ixs)) = h (agg_value kind (concat (map snd ixs)))"
proof -
  obtain v vs where vs: "reported kind ixs = v # vs" using assms(2) by (cases "reported kind ixs") auto
  have zero: "f_zero ops = h 0" using ex by (simp add: exact_f64_def)
  have add: "foldl (f_add ops) (f_zero ops) (map h (reported kind ixs)) = h (sum_list (reported kind ixs))"
    if "kind \<in> {AggCount, AggSum}"
    using foldl_add_exact [OF ex, of "reported kind ixs" 0] R sums [OF that] by (simp add: zero partial_sums_in_def)
  have mn: "foldl (f_min ops) (f_infinity ops) (map h (reported kind ixs)) = h (Min (set (reported kind ixs)))"
    and mx: "foldl (f_max ops) (f_neg_infinity ops) (map h (reported kind ixs)) = h (Max (set (reported kind ixs)))"
    using foldl_min_exact [OF ex, of v vs] foldl_max_exact [OF ex, of v vs] R ex by (simp_all add: vs exact_f64_def)
  have ne: "reported AggMin ixs \<noteq> []" if "kind = AggMin \<or> kind = AggMax"
    using assms(2) that by (auto simp: reported_def)
  show ?thesis
    using kind add mn mx ne extremes_concat [of ixs]
    by (cases kind) (auto simp: agg_merge_def agg_value_def reported_sum reported_count)
qed

lemma cells_of_avg_reply:
  assumes "prints_exactly ops h R txt" and "R (real (length xs))" and "xs \<noteq> [] \<longrightarrow> R (sum_list xs)"
  shows "cells_f64 (f_parse ops) (encode_row [agg_cell txt AggSum xs, agg_cell txt AggCount xs]) 2 =
    [if xs = [] then None else Some (h (sum_list xs)), Some (h (real (length xs)))]"
proof -
  have fit: "cells_fit [agg_cell txt AggSum xs, agg_cell txt AggCount xs]"
    using assms by (auto simp: cells_fit_def agg_cell_def prints_exactly_def agg_value_def)
  from read_cells_encode [OF fit] assms show ?thesis
    by (auto simp: cells_f64_def agg_cell_def agg_value_def prints_exactly_def from_utf8_def numeral_2_eq_2)
qed

text \<open>The running totals of the average over the shards with rows.\<close>

definition avg_exact :: "(real \<Rightarrow> bool) \<Rightarrow> (u32 \<times> real list) list \<Rightarrow> bool" where
  "avg_exact R ixs \<longleftrightarrow>
     (\<forall>ix \<in> set ixs. R (real (length (snd ix))) \<and> (snd ix \<noteq> [] \<longrightarrow> R (sum_list (snd ix))))
   \<and> (\<forall>n \<le> length ixs. R (sum_list (concat (map snd (take n ixs)))) \<and> R (real (length (concat (map snd (take n ixs))))))"

lemma avg_loop_exact:
  assumes ex: "exact_f64 ops h R" and pr: "prints_exactly ops h R txt"
  shows "avg_exact R (done @ ixs) \<Longrightarrow>
    avg_loop ops (map (\<lambda>ix. encode_row [agg_cell txt AggSum (snd ix), agg_cell txt AggCount (snd ix)]) ixs)
      (h (sum_list (concat (map snd done))), h (real (length (concat (map snd done)))), saw) =
    (h (sum_list (concat (map snd (done @ ixs)))), h (real (length (concat (map snd (done @ ixs))))),
     saw \<or> (\<exists>ix \<in> set ixs. snd ix \<noteq> []))"
proof (induction ixs arbitrary: "done" saw)
  case (Cons ix ixs)
  let ?s = "sum_list (concat (map snd done))" and ?c = "real (length (concat (map snd done)))"
  from Cons.prems have R: "R (real (length (snd ix)))" "snd ix \<noteq> [] \<longrightarrow> R (sum_list (snd ix))" by (auto simp: avg_exact_def)
  have pre: "R (sum_list (concat (map snd (take n (done @ ix # ixs)))))"
      "R (real (length (concat (map snd (take n (done @ ix # ixs))))))" if "n \<le> length (done @ ix # ixs)" for n
    using Cons.prems that unfolding avg_exact_def by blast+
  have tot: "R ?s" "R ?c" "R (?s + sum_list (snd ix))" "R (?c + real (length (snd ix)))"
    using pre [of "length done"] pre [of "Suc (length done)"] by simp_all
  have step: "f_add ops (h ?s) (h (sum_list (snd ix))) = h (?s + sum_list (snd ix))"
      "f_add ops (h ?c) (h (real (length (snd ix)))) = h (?c + real (length (snd ix)))" if "snd ix \<noteq> []"
    using ex tot R that by (simp_all add: exact_f64_def)
  from Cons.IH [of "done @ [ix]"] Cons.prems have rec: "avg_loop ops
      (map (\<lambda>ix. encode_row [agg_cell txt AggSum (snd ix), agg_cell txt AggCount (snd ix)]) ixs)
      (h (?s + sum_list (snd ix)), h (?c + real (length (snd ix))), saw') =
      (h (sum_list (concat (map snd (done @ ix # ixs)))), h (real (length (concat (map snd (done @ ix # ixs))))),
       saw' \<or> (\<exists>ix \<in> set ixs. snd ix \<noteq> []))" for saw'
    by (simp add: add.assoc)
  show ?case
  proof (cases "snd ix = []")
    case True
    with rec [of saw] cells_of_avg_reply [OF pr R] show ?thesis by simp
  next
    case False
    with rec [of True] step cells_of_avg_reply [OF pr R] show ?thesis by simp
  qed
qed simp

subsection \<open>Instances for the witnesses\<close>

definition demo_fed_env :: "(unit, nat) fed_env" where
  "demo_fed_env =
     \<lparr> fe_parse_conn = (\<lambda>_. Inr ()), fe_dial = (\<lambda>_. Inr 0),
       fe_ask = (\<lambda>k sql. Inr [CrQuery ''SELECT'' [\<lparr> fi_name = ''x'', fi_datatype = INT8 \<rparr>] [encode_row [Some (nat_to_string k)]]]),
       fe_show = (\<lambda>_. []), fe_encode = (\<lambda>f t. Inr (encode_row [Some t])) \<rparr>"

definition demo_fed_pool :: "nat ShardPgPool" where
  "demo_fed_pool = (pool_new [demo_shard 0, demo_shard 1] default_pg_auth 1)\<lparr>pp_clients := [0 \<mapsto> [3], 1 \<mapsto> [4]]\<rparr>"

definition demo_fed_app :: "(VNode list, nat \<times> StreamTick list, nat) AppState" where
  "demo_fed_app = demo_app\<lparr>as_pg_pool := demo_fed_pool\<rparr>"

definition demo_out :: "(u32 \<times> ClientResponse list) list" where
  "demo_out = [(0, [CrQuery ''SELECT'' [\<lparr> fi_name = ''x'', fi_datatype = INT8 \<rparr>] [encode_row [Some (nat_to_string 3)]]]),
     (1, [CrQuery ''SELECT'' [\<lparr> fi_name = ''x'', fi_datatype = INT8 \<rparr>] [encode_row [Some (nat_to_string 4)]]])]"

lemma demo_healthy: "healthy_pg_shard_ids demo_fed_app = Inr [0, 1]"
proof -
  let ?c = "demo_config [demo_shard 0, demo_shard 1] 1"
  have run: "actor_spawn ref_ring_ops ?c = actor_run [] (actor_spawn ref_ring_ops ?c)" by (simp add: actor_run_def)
  have "healthy_shard_ids (ms_snapshot (actor_spawn ref_ring_ops ?c)) Pg = [0, 1]"
    by (subst run) (simp add: run_healthy_ids report_simps)
  then show ?thesis
    by (simp add: healthy_pg_shard_ids_def demo_fed_app_def demo_app_def demo_handle_def spawn_handle_def
        ensure_min_healthy_def healthy_count_ids)
qed

lemma demo_query_all: "\<exists>st'. query_all_shards demo_fed_env demo_fed_app sql = (Some (Inr demo_out), st')"
  by (simp add: query_all_shards_def demo_healthy)
    (simp add: demo_fed_app_def demo_fed_pool_def shard_task_def acquire_def acquire_permit_def pool_new_def
      pop_idle_def demo_fed_env_def demo_out_def give_back_def release_permit_def drop_client_def release_def pooled_def client_mut_def)

definition demo_ops :: "real option f64_ops" where
  "demo_ops =
     \<lparr> f_parse = (\<lambda>s. if s \<noteq> [] \<and> list_all is_ascii_digit s then Some (Some (real (digits_value s))) else None),
       f_zero = Some 0, f_add = combine_options (+),
       f_div = (\<lambda>x y. case (x, y) of (Some a, Some b) \<Rightarrow> Some (a / b) | _ \<Rightarrow> None),
       f_min = combine_options min, f_max = combine_options max, f_infinity = None, f_neg_infinity = None,
       f_of_nat = (\<lambda>n. Some (real n)), f_is_zero = (\<lambda>x. x = Some 0), f_fract_zero = (\<lambda>x. True),
       f_as_i64 = (\<lambda>x. \<lfloor>the x\<rfloor>), f_to_string = (\<lambda>x. nat_to_string (nat \<lfloor>the x\<rfloor>)) \<rparr>"

definition digit_real :: "real \<Rightarrow> bool" where
  "digit_real x \<longleftrightarrow> x \<in> real ` {..<10}"

lemma demo_exact: "exact_f64 demo_ops Some digit_real"
  by (auto simp: exact_f64_def demo_ops_def digit_real_def)

lemma demo_prints: "prints_exactly demo_ops Some digit_real (\<lambda>x. nat_to_string (nat \<lfloor>x\<rfloor>))"
proof -
  have "\<forall>n \<in> set [0..<10]. valid_utf8 (nat_to_string n) \<and> trim (nat_to_string n) = nat_to_string n \<and> length (nat_to_string n) = 1"
    by code_simp
  then have "valid_utf8 (nat_to_string n) \<and> trim (nat_to_string n) = nat_to_string n \<and> length (nat_to_string n) = 1" if "n < 10" for n
    using that by simp
  then show ?thesis
    by (auto simp: prints_exactly_def digit_real_def demo_ops_def nat_to_string_digits digits_value_nat_to_string)
qed

lemma digit_reals: "digit_real 0" "digit_real 1" "digit_real 2" "digit_real 3" "digit_real 4" "digit_real 6" "digit_real 7"
proof -
  have "digit_real (real n)" if "n < 10" for n using that by (simp add: digit_real_def)
  from this [of 0] this [of 1] this [of 2] this [of 3] this [of 4] this [of 6] this [of 7]
  show "digit_real 0" "digit_real 1" "digit_real 2" "digit_real 3" "digit_real 4" "digit_real 6" "digit_real 7" by simp_all
qed

section \<open>Properties\<close>

text \<open>
  C10. A federated scan is complete or fails. When it returns rows, every shard that is healthy was asked
  through one of its own connections and answered (a table it does not know counts as no rows); the result
  is the rows of all of them, shard by shard in configuration order, under the schema of the first; all
  schemas have the same width and the rows fit the configured limit. If the shards answered but the result is
  an error, then it is the width or the limit that was exceeded. The pool has its permits back.
\<close>

theorem full_scan_is_complete_or_fails:
  assumes "query_all_shards env st sql = (Some (Inr out), st')"
  shows "execute_full_scan env st sql = (Some (merge_query_responses out (rc_max_federated_rows (cfg_routing (as_config st)))), st')
    \<and> healthy_pg_shard_ids st = Inr (map fst out) \<and> (\<forall>(i, rs) \<in> set out. answers env (as_pg_pool st) sql i rs)
    \<and> settled env (as_pg_pool st') (as_pg_pool st)
    \<and> (\<forall>resp. merge_query_responses out (rc_max_federated_rows (cfg_routing (as_config st))) = Inr resp \<longleftrightarrow>
         same_width (schemas None (all_responses out))
       \<and> length (all_rows (all_responses out)) \<le> unat (rc_max_federated_rows (cfg_routing (as_config st)))
       \<and> resp = [QueryResponse (case schemas None (all_responses out) of f # _ \<Rightarrow> f | [] \<Rightarrow> []) (all_rows (all_responses out))])"
  using query_all_shards_ok [OF assms] assms merge_query_responses_Inr_iff
  by (simp add: execute_full_scan_def)

theorem full_scan_is_complete_or_fails_witness:
  "\<exists>st'. execute_full_scan demo_fed_env demo_fed_app ''SELECT x FROM t'' =
     (Some (Inr [QueryResponse [\<lparr> fi_name = ''x'', fi_datatype = INT8 \<rparr>]
        [encode_row [Some (nat_to_string 3)], encode_row [Some (nat_to_string 4)]]]), st')"
proof -
  from demo_query_all [of "''SELECT x FROM t''"] obtain st' where
    q: "query_all_shards demo_fed_env demo_fed_app ''SELECT x FROM t'' = (Some (Inr demo_out), st')" ..
  have "rc_max_federated_rows (cfg_routing (as_config demo_fed_app)) = 1000"
    by (simp add: demo_fed_app_def demo_app_def demo_config_def)
  with full_scan_is_complete_or_fails [OF q] show ?thesis
    by (simp add: demo_out_def all_responses_def schemas_def all_rows_def same_width_def)
qed

text \<open>
  Queries give their connections back. Whatever a query on a shard does - succeed, fail, hit an unknown
  table, lose its connection and reconnect - it ends with exactly the permits it started with, keeps no
  connection it could not have had before, and it waits only when the shard had no free permit to begin with.
\<close>

theorem shard_query_returns_permit:
  assumes "query_shard env pool i sql = (r, pool')"
  shows "pp_permits pool' = pp_permits pool \<and> (\<forall>j. usable env pool' j \<subseteq> usable env pool j)
    \<and> (r = None \<longleftrightarrow> pp_permits pool i = Some 0)"
  using query_shard_settled [OF assms] by (simp add: settled_def)

theorem shard_query_returns_permit_witness:
  "\<exists>r pool'. query_shard demo_fed_env demo_fed_pool 0 ''SELECT 1'' = (Some r, pool') \<and> pp_permits pool' 0 = Some 1"
proof -
  obtain r pool' where q: "query_shard demo_fed_env demo_fed_pool 0 ''SELECT 1'' = (r, pool')"
    by (cases "query_shard demo_fed_env demo_fed_pool 0 ''SELECT 1''")
  have "pp_permits demo_fed_pool 0 = Some 1" by (simp add: demo_fed_pool_def pool_new_def)
  with shard_query_returns_permit [OF q] q show ?thesis by (cases r) auto
qed

text \<open>
  C22. Merging aggregates refines the aggregate over one table: when every shard replies with the count, sum,
  minimum or maximum of its own rows, the merged answer is the text of that aggregate over the rows of all
  shards together, with empty shards left out. This is up to floating-point rounding: the partial
  results and their running sums are assumed to be represented exactly.
\<close>

theorem aggregate_merge_is_global:
  assumes "exact_f64 ops h R" and "prints_exactly ops h R txt" and "kind \<noteq> AggAvg"
    and "reported kind ixs \<noteq> []" and "\<forall>v \<in> set (reported kind ixs). R v"
    and "kind \<in> {AggCount, AggSum} \<longrightarrow> partial_sums_in R (reported kind ixs)"
    and "fe_encode env f (agg_text ops (h (agg_value kind (concat (map snd ixs))))) = Inr row"
  shows "merge_scalar_aggregate env ops (map (agg_reply f txt kind) ixs) kind = Inr [QueryResponse f [row]]"
proof -
  have "ixs \<noteq> []" using assms(4) by (auto simp: reported_def)
  then obtain rest rows where parts: "query_parts (all_responses (map (agg_reply f txt kind) ixs)) = (f, rows) # rest"
    using query_parts_replies(3) [of ixs f "txt" kind] by blast
  have vals: "List.map_filter (first_cell_f64 (f_parse ops))
      (concat (map snd (query_parts (all_responses (map (agg_reply f txt kind) ixs))))) = map h (reported kind ixs)"
    unfolding query_parts_replies(1) by (rule reported_values [OF assms(2,5)])
  have schema: "(case query_parts (all_responses (map (agg_reply f txt kind) ixs)) of (f, _) # _ \<Rightarrow> f | [] \<Rightarrow> [count_field]) = f"
    by (simp add: parts)
  from agg_merge_exact [OF assms(1,4,3,5)] assms(4,6,7) show ?thesis
    by (simp add: merge_scalar_aggregate_def vals schema Let_def agg_text_def split: if_splits)
qed

theorem aggregate_merge_is_global_witness:
  "merge_scalar_aggregate demo_fed_env demo_ops
     (map (agg_reply [count_field] (\<lambda>x. nat_to_string (nat \<lfloor>x\<rfloor>)) AggSum) [(0, [1, 2]), (1, []), (2, [4])]) AggSum
   = Inr [QueryResponse [count_field] [encode_row [Some ''7'']]]"
proof -
  have t: "nat_to_string 7 = ''7''" by code_simp
  have sums: "partial_sums_in digit_real [3, 4]"
    by (auto simp: partial_sums_in_def le_Suc_eq digit_reals)
  show ?thesis
    by (rule aggregate_merge_is_global [OF demo_exact demo_prints])
      (simp_all add: reported_def agg_value_def digit_reals sums demo_fed_env_def agg_text_def demo_ops_def int_to_string_def t)
qed

text \<open>
  C21. The federated average is the mean over all rows, not the mean of the shards' means: from the sums and
  counts the shards reply to the rewritten query, the merged answer is the text of the total sum divided by the
  total count, whatever the sizes of the shards; with no rows anywhere it is the empty response. As above
  this is up to rounding.
\<close>

theorem average_is_global_mean:
  assumes "exact_f64 ops h R" and "prints_exactly ops h R txt" and "avg_exact R ixs"
    and "concat (map snd ixs) \<noteq> [] \<longrightarrow> R (agg_value AggAvg (concat (map snd ixs)))
      \<and> fe_encode env [avg_field] (f_to_string ops (h (agg_value AggAvg (concat (map snd ixs))))) = Inr row"
  shows "merge_avg env ops (map (avg_reply f txt) ixs) =
    Inr [if concat (map snd ixs) = [] then EmptyQuery else QueryResponse [avg_field] [row]]"
proof -
  let ?xs = "concat (map snd ixs)"
  have zero: "f_zero ops = h 0" using assms(1) by (simp add: exact_f64_def)
  have loop: "avg_loop ops (map (\<lambda>ix. encode_row [agg_cell txt AggSum (snd ix), agg_cell txt AggCount (snd ix)]) ixs)
      (f_zero ops, f_zero ops, False) = (h (sum_list ?xs), h (real (length ?xs)), \<exists>ix \<in> set ixs. snd ix \<noteq> [])"
    using avg_loop_exact [OF assms(1,2), of "[]" ixs False] assms(3) by (simp add: zero)
  have R: "R (sum_list ?xs)" "R (real (length ?xs))"
    using assms(3) unfolding avg_exact_def by (auto dest!: spec [of _ "length ixs"])
  have saw: "(\<exists>ix \<in> set ixs. snd ix \<noteq> []) \<longleftrightarrow> ?xs \<noteq> []" by auto
  have z: "f_is_zero ops (h (real (length ?xs))) \<longleftrightarrow> ?xs = []"
    using assms(1) R(2) by (simp only: exact_f64_def) simp
  have d: "f_div ops (h (sum_list ?xs)) (h (real (length ?xs))) = h (agg_value AggAvg ?xs)" if "?xs \<noteq> []"
  proof -
    have "real (length ?xs) \<noteq> 0" using that by (simp only: of_nat_eq_0_iff length_0_conv) simp
    moreover have "R (sum_list ?xs / real (length ?xs))" using assms(4) that by (simp add: agg_value_def)
    ultimately show ?thesis using assms(1) R unfolding exact_f64_def agg_value_def by simp
  qed
  show ?thesis
    unfolding merge_avg_def query_parts_replies(2) loop prod.case saw z
    using assms(4) d by (cases "?xs = []") simp_all
qed

theorem average_is_global_mean_witness:
  "merge_avg demo_fed_env demo_ops
     (map (avg_reply [avg_field] (\<lambda>x. nat_to_string (nat \<lfloor>x\<rfloor>))) [(0, [1, 2]), (1, []), (2, [3])])
   = Inr [QueryResponse [avg_field] [encode_row [Some ''2'']]]"
proof -
  let ?ixs = "[(0, [1, 2]), (1, []), (2, [3])] :: (u32 \<times> real list) list"
  have t: "nat_to_string 2 = ''2''" by code_simp
  have ex: "avg_exact digit_real ?ixs"
    by (auto simp: avg_exact_def le_Suc_eq digit_reals)
  show ?thesis
    using average_is_global_mean [OF demo_exact demo_prints ex, of demo_fed_env "encode_row [Some ''2'']" "[avg_field]"]
    by (simp add: agg_value_def digit_reals demo_fed_env_def demo_ops_def t)
qed

end
