(* ===== verification/Federated_Catalog.thy ===== *)
theory Federated_Catalog
  imports Federated_Query "HOL-Library.Char_ord" "HOL-Library.List_Lexorder"
begin

text \<open>
  Tables of the query engine: names and registration (\<open>federated/catalog.rs\<close>), the provider that reads a
  table from the shards (\<open>federated/provider.rs\<close>), execution through the engine (\<open>federated/join.rs\<close>,
  \<open>federated/aggregate.rs\<close>) and the dispatch of \<open>federated/mod.rs\<close>, as built with the default feature
  \<open>federated\<close>. The engine is third-party: \<open>df_ops\<close> gives its sessions, registration of a table with a
  schema, the test for a table, and the answer to a query; \<open>arrow_pg\<close> the conversion of its batches to rows.
\<close>

record ('d, 'b) df_ops =
  df_new :: 'd
  df_register :: "string \<Rightarrow> Schema \<Rightarrow> 'd \<Rightarrow> string + 'd"
  df_table_exist :: "'d \<Rightarrow> string \<Rightarrow> string + bool"
  df_sql :: "'d \<Rightarrow> string \<Rightarrow> string + 'b list"

record 'b arrow_pg =
  ap_fields :: "'b \<Rightarrow> string + FieldInfo list"
  ap_encode :: "FieldInfo list \<Rightarrow> 'b \<Rightarrow> (string + DataRow) list"

section \<open>Table names\<close>

fun catalog_part :: "ObjectNamePart \<Rightarrow> string option" where
  "catalog_part (NameIdent i) = Some (ident_value i)"
| "catalog_part (NameFunction _) = None"

definition catalog_object_name :: "ObjectName \<Rightarrow> string" where
  "catalog_object_name name = join ''.'' (List.map_filter catalog_part name)"

fun factor_name :: "TableFactor \<Rightarrow> string list" where
  "factor_name (Table name) = [catalog_object_name name]"
| "factor_name (OtherFactor _) = []"

definition collect_select_tables :: "Select \<Rightarrow> string list" where
  "collect_select_tables select =
     concat (map (\<lambda>twj. factor_name (twj_relation twj) @ concat (map factor_name (twj_joins twj))) (sel_from select))"

definition collect_query_tables :: "Query \<Rightarrow> string list" where
  "collect_query_tables query =
     (case q_body query of SelectBody select \<Rightarrow> collect_select_tables select | _ \<Rightarrow> [])"

definition extract_table_names :: "sqlparser \<Rightarrow> string \<Rightarrow> string list" where
  "extract_table_names sp sql =
     (case sp_parse sp sql of
        Inl e \<Rightarrow> []
      | Inr stmts \<Rightarrow>
          remdups_adj (sort (concat (map (\<lambda>stmt. case stmt of QueryStatement q \<Rightarrow> collect_query_tables q | _ \<Rightarrow> []) stmts))))"

definition bare_table_name :: "string \<Rightarrow> string" where
  "bare_table_name qualified = rsplit_next CHR ''.'' qualified"

definition is_system_relation :: "string \<Rightarrow> bool" where
  "is_system_relation name =
     (let lower = to_ascii_lowercase name
      in starts_with lower ''information_schema'' \<or> starts_with lower ''pg_catalog''
       \<or> starts_with lower ''pg_'' \<or> lower \<in> {''information_schema'', ''pg_catalog''})"

section \<open>Registration\<close>

fun register_config_tables ::
    "('d, 'b) df_ops \<Rightarrow> TableRoutingConfig list \<Rightarrow> 'd \<Rightarrow> string + 'd" where
  "register_config_tables df [] ctx = Inr ctx"
| "register_config_tables df (t # ts) ctx =
     (if is_system_relation (tc_name t) then register_config_tables df ts ctx
      else case schema_from_columns (tc_columns t) of
        Inl e \<Rightarrow> Inl (''table '' @ tc_name t @ '': '' @ e)
      | Inr schema \<Rightarrow>
          (case df_register df (tc_name t) schema ctx of
             Inl e \<Rightarrow> Inl (''register_table '' @ tc_name t @ '': '' @ e)
           | Inr ctx' \<Rightarrow> register_config_tables df ts ctx'))"

fun ensure_tables ::
    "('d, 'b) df_ops \<Rightarrow> 'd \<Rightarrow> TableRegistry \<Rightarrow> string list \<Rightarrow> string + unit" where
  "ensure_tables df ctx registry [] = Inr ()"
| "ensure_tables df ctx registry (qualified # names) =
     (if is_system_relation qualified then ensure_tables df ctx registry names
      else let table = bare_table_name qualified
           in if registry_get registry table = None
              then Inl (''table '' @ table @ '' is not configured in routing.tables'')
              else case df_table_exist df ctx table of
                Inl e \<Rightarrow> Inl e
              | Inr False \<Rightarrow> Inl (''table '' @ table @ '' is not registered'')
              | Inr True \<Rightarrow> ensure_tables df ctx registry names)"

definition ensure_tables_in_sql ::
    "('d, 'b) df_ops \<Rightarrow> sqlparser \<Rightarrow> 'd \<Rightarrow> ('r, 'c, 'k) AppState \<Rightarrow> string \<Rightarrow> string + unit" where
  "ensure_tables_in_sql df sp ctx st sql =
     ensure_tables df ctx (app_table_registry st)
       (if has_questdb_extension sql
        then (case extract_from_table sql of Some t \<Rightarrow> [t] | None \<Rightarrow> [])
        else extract_table_names sp sql)"

section \<open>The provider\<close>

definition quote_column :: "string \<Rightarrow> string" where
  "quote_column name = DQUOTE # replace_sub [DQUOTE] [DQUOTE, DQUOTE] name @ [DQUOTE]"

definition scan_sql :: "string \<Rightarrow> Schema \<Rightarrow> nat option \<Rightarrow> string" where
  "scan_sql table_name schema limit =
     ''SELECT '' @ join '', '' (map (\<lambda>f. quote_column (fd_name f)) schema) @ '' FROM '' @ table_name
       @ (case limit of Some n \<Rightarrow> '' LIMIT '' @ nat_to_string n | None \<Rightarrow> [])"

fun extract_query_rows :: "ClientResponse list \<Rightarrow> (FieldInfo list \<times> DataRow list) option" where
  "extract_query_rows [] = None"
| "extract_query_rows (CrQuery tag f rows # rest) = Some (f, rows)"
| "extract_query_rows (_ # rest) = extract_query_rows rest"

fun fetch_loop ::
    "('g, 'k) fed_env \<Rightarrow> string \<Rightarrow> u32 list \<Rightarrow> FieldInfo list option \<Rightarrow> DataRow list \<Rightarrow> 'k ShardPgPool
       \<Rightarrow> (string + (FieldInfo list option \<times> DataRow list)) option \<times> 'k ShardPgPool" where
  "fetch_loop env sql [] pg_fields rows pool = (Some (Inr (pg_fields, rows)), pool)"
| "fetch_loop env sql (i # is) pg_fields rows pool =
     (case query_shard env pool i sql of
        (None, pool') \<Rightarrow> (None, pool')
      | (Some (Inl e), pool') \<Rightarrow> (Some (Inl (fe_show env e)), pool')
      | (Some (Inr responses), pool') \<Rightarrow>
          (case extract_query_rows responses of
             None \<Rightarrow> fetch_loop env sql is pg_fields rows pool'
           | Some (f, rs) \<Rightarrow>
               fetch_loop env sql is (case pg_fields of None \<Rightarrow> Some f | Some g \<Rightarrow> Some g) (rows @ rs) pool'))"

definition fetch_all_batches ::
    "('g, 'k) fed_env \<Rightarrow> 'f pg_text \<Rightarrow> ('f, 'b) try_new \<Rightarrow> Schema \<Rightarrow> string \<Rightarrow> 'k ShardPgPool
       \<Rightarrow> (string + 'b list) option \<times> 'k ShardPgPool" where
  "fetch_all_batches env pt try_new schema sql pool =
     (case fetch_loop env sql (pool_shard_ids pool) None [] pool of
        (None, pool') \<Rightarrow> (None, pool')
      | (Some (Inl e), pool') \<Rightarrow> (Some (Inl e), pool')
      | (Some (Inr (None, rows)), pool') \<Rightarrow> (Some (Inr []), pool')
      | (Some (Inr (Some infos, rows)), pool') \<Rightarrow>
          (Some (map_sum id (\<lambda>b. [b])
            (pg_rows_to_typed_batch_for_schema pt try_new schema infos (build_pg_field_index infos) rows)), pool'))"

definition provider_scan ::
    "('g, 'k) fed_env \<Rightarrow> 'f pg_text \<Rightarrow> ('f, 'b) try_new \<Rightarrow> string \<Rightarrow> Schema \<Rightarrow> nat option \<Rightarrow> 'k ShardPgPool
       \<Rightarrow> (string + 'b list) option \<times> 'k ShardPgPool" where
  "provider_scan env pt try_new table_name schema limit pool =
     fetch_all_batches env pt try_new schema (scan_sql table_name schema limit) pool"

section \<open>Execution through the engine\<close>

fun encode_rows :: "(string + DataRow) list \<Rightarrow> PgWireError + DataRow list" where
  "encode_rows [] = Inr []"
| "encode_rows (Inl e # rs) = Inl (fed_to_pgwire (ShardQuery 0 e))"
| "encode_rows (Inr row # rs) = (case encode_rows rs of Inl e \<Rightarrow> Inl e | Inr rows \<Rightarrow> Inr (row # rows))"

definition batches_to_pg_responses :: "'b arrow_pg \<Rightarrow> 'b list \<Rightarrow> PgWireError + Response list" where
  "batches_to_pg_responses ap batches =
     (case batches of
        [] \<Rightarrow> Inr [EmptyQuery]
      | b # _ \<Rightarrow>
          (case ap_fields ap b of
             Inl e \<Rightarrow> Inl (fed_to_pgwire (SchemaMismatch e))
           | Inr infos \<Rightarrow>
               (case encode_rows (concat (map (ap_encode ap infos) batches)) of
                  Inl e \<Rightarrow> Inl e
                | Inr rows \<Rightarrow> Inr [QueryResponse infos rows])))"

fun register_sql_tables :: "('d, 'b) df_ops \<Rightarrow> TableRegistry \<Rightarrow> string list \<Rightarrow> 'd \<Rightarrow> PgWireError + 'd" where
  "register_sql_tables df registry [] ctx = Inr ctx"
| "register_sql_tables df registry (table # tables) ctx =
     (let bare = bare_table_name table
      in case registry_get registry bare of
           None \<Rightarrow> Inl (fed_to_pgwire (SchemaMismatch (''table '' @ bare @ '' is not configured in routing.tables'')))
         | Some table_cfg \<Rightarrow>
             (case schema_from_columns (tc_columns table_cfg) of
                Inl e \<Rightarrow> Inl (fed_to_pgwire (SchemaMismatch e))
              | Inr schema \<Rightarrow>
                  (case df_register df bare schema ctx of
                     Inl e \<Rightarrow> Inl (fed_to_pgwire (ShardQuery 0 e))
                   | Inr ctx' \<Rightarrow> register_sql_tables df registry tables ctx')))"

definition execute_sql_federated ::
    "('d, 'b) df_ops \<Rightarrow> 'b arrow_pg \<Rightarrow> sqlparser \<Rightarrow> ('r, 'c, 'k) AppState \<Rightarrow> string \<Rightarrow> PgWireError + Response list" where
  "execute_sql_federated df ap sp st sql =
     (case register_sql_tables df (app_table_registry st) (extract_table_names sp sql) (df_new df) of
        Inl e \<Rightarrow> Inl e
      | Inr ctx \<Rightarrow>
          (case df_sql df ctx sql of
             Inl e \<Rightarrow> Inl (fed_to_pgwire (ShardQuery 0 e))
           | Inr batches \<Rightarrow> batches_to_pg_responses ap batches))"

definition execute_join ::
    "('d, 'b) df_ops \<Rightarrow> 'b arrow_pg \<Rightarrow> sqlparser \<Rightarrow> ('r, 'c, 'k) AppState \<Rightarrow> string \<Rightarrow> PgWireError + Response list" where
  "execute_join df ap sp st sql = execute_sql_federated df ap sp st sql"

definition execute_group_by ::
    "('d, 'b) df_ops \<Rightarrow> 'b arrow_pg \<Rightarrow> sqlparser \<Rightarrow> ('r, 'c, 'k) AppState \<Rightarrow> string \<Rightarrow> PgWireError + Response list" where
  "execute_group_by df ap sp st sql = execute_sql_federated df ap sp st sql"

definition execute_simple ::
    "('g, 'k) fed_env \<Rightarrow> 'f f64_ops \<Rightarrow> ('d, 'b) df_ops \<Rightarrow> 'b arrow_pg \<Rightarrow> sqlparser \<Rightarrow> ('r, 'c, 'k) AppState \<Rightarrow> string \<Rightarrow> RoutePlan
       \<Rightarrow> (PgWireError + Response list) option \<times> ('r, 'c, 'k) AppState" where
  "execute_simple env ops df ap sp st sql plan =
     (if \<not> rc_federated_enabled (cfg_routing (as_config st)) then (Some (Inl (fed_to_pgwire Disabled)), st)
      else case healthy_pg_shard_ids st of
        Inl e \<Rightarrow> (Some (Inl (fed_to_pgwire InsufficientShards)), st)
      | Inr shard_ids \<Rightarrow>
          (case plan of
             FullScan t \<Rightarrow> execute_full_scan env st sql
           | AggregateScan t kind \<Rightarrow> execute_aggregate_scan env ops sp st sql kind
           | GroupBy t cols kinds \<Rightarrow> (Some (execute_group_by df ap sp st sql), st)
           | Join t \<Rightarrow> (Some (execute_join df ap sp st sql), st)
           | SingleShard t k i \<Rightarrow>
               (Some (Inl (fed_to_pgwire (ShardQuery 0 ''single-shard plan routed to federated executor''))), st)))"

section \<open>Specification vocabulary\<close>

text \<open>The schema and rows a list of answers gives a scan: the first query response of each.\<close>

definition scanned :: "(u32 \<times> ClientResponse list) list \<Rightarrow> (FieldInfo list \<times> DataRow list) list" where
  "scanned out = List.map_filter (\<lambda>(i, rs). extract_query_rows rs) out"

section \<open>Lemmas\<close>

lemma map_sum_Inr_iff: "map_sum id g x = Inr y \<longleftrightarrow> (\<exists>b. x = Inr b \<and> y = g b)"
  by (cases x) auto

lemma ensure_tables_Inr_iff:
  "ensure_tables df ctx registry names = Inr () \<longleftrightarrow>
     (\<forall>q \<in> set names. is_system_relation q \<or>
        (registry_get registry (bare_table_name q) \<noteq> None \<and> df_table_exist df ctx (bare_table_name q) = Inr True))"
  by (induction df ctx registry names rule: ensure_tables.induct) (auto simp: Let_def split: sum.splits bool.splits)

lemma sorted_distinct_remdups_adj: "sorted (xs :: 'a :: linorder list) \<Longrightarrow> distinct (remdups_adj xs)"
  by (induction xs rule: remdups_adj.induct) (auto simp: order.antisym)

lemma extract_table_names_set:
  assumes "sp_parse sp sql = Inr stmts"
  shows "set (extract_table_names sp sql) =
      (\<Union>stmt \<in> set stmts. set (case stmt of QueryStatement q \<Rightarrow> collect_query_tables q | _ \<Rightarrow> []))"
    and "sorted (extract_table_names sp sql)" and "distinct (extract_table_names sp sql)"
proof -
  show "set (extract_table_names sp sql) =
      (\<Union>stmt \<in> set stmts. set (case stmt of QueryStatement q \<Rightarrow> collect_query_tables q | _ \<Rightarrow> []))"
    by (simp add: extract_table_names_def assms)
  show "sorted (extract_table_names sp sql)"
    by (simp add: extract_table_names_def assms sorted_remdups_adj)
  show "distinct (extract_table_names sp sql)"
    by (simp add: extract_table_names_def assms sorted_distinct_remdups_adj)
qed

lemma query_shard_answers:
  assumes "query_shard env pool i sql = (Some (Inr rs), pool')"
  shows "answers env pool sql i rs"
proof -
  have client: "query_shard_client env (pooled i k) sql =
      (case fe_ask env k sql of Inr rs \<Rightarrow> Inr rs | Inl e \<Rightarrow> Inl (fed_to_pgwire (ShardQuery i (fe_show env e))))" for k
    by (simp add: query_shard_client_def split: sum.splits)
  obtain a p where acq: "acquire (fe_parse_conn env) (fe_dial env) pool i = (a, p)"
    by (cases "acquire (fe_parse_conn env) (fe_dial env) pool i")
  then show ?thesis
  proof (cases rule: acquire_cases)
    case (got k n)
    let ?p1 = "give_back p (invalidate (pooled i k))"
    obtain a2 p2 where acq2: "acquire (fe_parse_conn env) (fe_dial env) ?p1 i = (a2, p2)"
      by (cases "acquire (fe_parse_conn env) (fe_dial env) ?p1 i")
    have p1: "settled env ?p1 pool" by (rule give_back_settled [OF got(3,4,5,2)]) simp
    have second: "answers env pool sql i rs" if "a2 = Inr (Some pc2)" "query_shard_client env pc2 sql = Inr rs" for pc2
      using acq2
    proof (cases rule: acquire_cases)
      case (got k2 n2)
      from p1 got(2) have "k2 \<in> usable env pool i" unfolding settled_def by blast
      moreover have "fe_ask env k2 sql = Inr rs" using that got(1) client [of k2] by (auto split: sum.splits)
      ultimately show ?thesis unfolding answers_def by blast
    qed (use that in simp_all)
    show ?thesis
      using assms acq acq2 got(1,2) second
      by (auto simp: query_shard_def client answers_def split: sum.splits option.splits if_splits)
  qed (use assms acq in \<open>simp_all add: query_shard_def\<close>)
qed

lemma fetch_loop_ok:
  "fetch_loop env sql is pg_fields rows pool = (Some (Inr (pg_fields', rows')), pool') \<Longrightarrow>
     \<exists>out. map fst out = is \<and> (\<forall>(i, rs) \<in> set out. answers env pool sql i rs) \<and> settled env pool' pool
       \<and> rows' = rows @ concat (map snd (scanned out))
       \<and> pg_fields' = (case pg_fields of Some f \<Rightarrow> Some f | None \<Rightarrow> (case scanned out of (f, _) # _ \<Rightarrow> Some f | [] \<Rightarrow> None))"
proof (induction "is" arbitrary: pg_fields rows pool)
  case Nil
  then show ?case by (auto simp: scanned_def List.map_filter_simps split: option.splits)
next
  case (Cons i "is")
  obtain r pool1 where q: "query_shard env pool i sql = (r, pool1)" by (cases "query_shard env pool i sql")
  from Cons.prems q obtain rs where r: "r = Some (Inr rs)" by (auto split: option.splits sum.splits)
  note set1 = query_shard_settled(1) [OF q] and ans = query_shard_answers [OF q [unfolded r]]
  let ?next = "fetch_loop env sql is (case extract_query_rows rs of None \<Rightarrow> pg_fields
      | Some (f, _) \<Rightarrow> (case pg_fields of None \<Rightarrow> Some f | Some g \<Rightarrow> Some g))
      (case extract_query_rows rs of None \<Rightarrow> rows | Some (_, x) \<Rightarrow> rows @ x) pool1"
  from Cons.prems q r have "?next = (Some (Inr (pg_fields', rows')), pool')" by (auto split: option.splits)
  from Cons.IH [OF this] obtain out where out: "map fst out = is" "\<forall>(i, rs) \<in> set out. answers env pool1 sql i rs"
      "settled env pool' pool1"
      "rows' = (case extract_query_rows rs of None \<Rightarrow> rows | Some (_, x) \<Rightarrow> rows @ x) @ concat (map snd (scanned out))"
      "pg_fields' = (case (case extract_query_rows rs of None \<Rightarrow> pg_fields
         | Some (f, _) \<Rightarrow> (case pg_fields of None \<Rightarrow> Some f | Some g \<Rightarrow> Some g)) of
         Some f \<Rightarrow> Some f | None \<Rightarrow> (case scanned out of (f, _) # _ \<Rightarrow> Some f | [] \<Rightarrow> None))" by blast
  show ?case
    using out ans answers_mono [OF set1] settled_trans [OF out(3) set1]
    by (intro exI [of _ "(i, rs) # out"])
      (auto simp: scanned_def List.map_filter_simps split: option.splits)
qed

section \<open>Properties\<close>

text \<open>
  A table scan of the query engine reads every configured shard. When the provider returns batches, each
  configured shard - the unhealthy ones included, in the order of their ids - was asked through one of its
  connections and answered; there is at most one batch, built under the first schema from the rows of all
  shards; no row limit applies. If any configured shard cannot answer, the scan fails.
\<close>

theorem provider_reads_every_configured_shard:
  assumes "fetch_all_batches env pt try_new schema sql pool = (Some (Inr batches), pool')"
  shows "\<exists>out. map fst out = pool_shard_ids pool \<and> (\<forall>(i, rs) \<in> set out. answers env pool sql i rs)
    \<and> settled env pool' pool
    \<and> (case scanned out of
         [] \<Rightarrow> batches = []
       | (infos, _) # _ \<Rightarrow> \<exists>b. batches = [b] \<and> pg_rows_to_typed_batch_for_schema pt try_new schema infos
             (build_pg_field_index infos) (concat (map snd (scanned out))) = Inr b)"
proof -
  from assms obtain pg_fields rows where
    f: "fetch_loop env sql (pool_shard_ids pool) None [] pool = (Some (Inr (pg_fields, rows)), pool')"
    by (auto simp: fetch_all_batches_def split: prod.splits option.splits sum.splits)
  from fetch_loop_ok [OF f] obtain out where out: "map fst out = pool_shard_ids pool"
      "\<forall>(i, rs) \<in> set out. answers env pool sql i rs" "settled env pool' pool"
      "rows = concat (map snd (scanned out))"
      "pg_fields = (case scanned out of (f, _) # _ \<Rightarrow> Some f | [] \<Rightarrow> None)" by auto
  from assms f out show ?thesis
    by (intro exI [of _ out])
      (auto simp: fetch_all_batches_def map_sum_Inr_iff split: prod.splits option.splits sum.splits list.splits)
qed

definition demo_scan_schema :: Schema where
  "demo_scan_schema = [\<lparr> fd_name = ''x'', fd_data_type = DtInt64 \<rparr>]"

lemma demo_fetch:
  "\<exists>pool'. fetch_loop demo_fed_env sql (pool_shard_ids demo_fed_pool) None [] demo_fed_pool =
     (Some (Inr (Some [\<lparr> fi_name = ''x'', fi_datatype = INT8 \<rparr>],
        [encode_row [Some (nat_to_string 3)], encode_row [Some (nat_to_string 4)]])), pool')"
proof -
  have ids: "pool_shard_ids demo_fed_pool = [0, 1]"
    by (simp add: pool_shard_ids_def demo_fed_pool_def pool_new_def insert_commute)
  show ?thesis
    unfolding ids
    by (simp add: demo_fed_pool_def query_shard_def query_shard_client_def acquire_def acquire_permit_def pool_new_def
        pop_idle_def demo_fed_env_def give_back_def release_permit_def drop_client_def release_def pooled_def client_mut_def)
qed

theorem provider_reads_every_configured_shard_witness:
  "\<exists>b pool' out. fetch_all_batches demo_fed_env demo_text ref_try_new demo_scan_schema ''q'' demo_fed_pool = (Some (Inr [b]), pool')
     \<and> map fst (out :: (u32 \<times> ClientResponse list) list) = pool_shard_ids demo_fed_pool \<and> settled demo_fed_env pool' demo_fed_pool"
proof -
  let ?infos = "[\<lparr> fi_name = ''x'', fi_datatype = INT8 \<rparr>]"
  let ?rows = "[encode_row [Some (nat_to_string 3)], encode_row [Some (nat_to_string 4)]]"
  have x: "to_ascii_lowercase ''x'' = ''x''" by code_simp
  have "\<exists>b. pg_rows_to_typed_batch_for_schema demo_text ref_try_new demo_scan_schema ?infos (build_pg_field_index ?infos) ?rows = Inr b"
    using typed_batch_succeeds [OF ref_try_new_law, of demo_scan_schema demo_text ?infos "build_pg_field_index ?infos" ?rows]
    by (simp add: demo_scan_schema_def column_type_def build_pg_field_index_def x)
  then obtain b where b: "pg_rows_to_typed_batch_for_schema demo_text ref_try_new demo_scan_schema ?infos (build_pg_field_index ?infos) ?rows = Inr b" ..
  from demo_fetch [of "''q''"] obtain pool' where
    f: "fetch_all_batches demo_fed_env demo_text ref_try_new demo_scan_schema ''q'' demo_fed_pool = (Some (Inr [b]), pool')"
    using b by (auto simp: fetch_all_batches_def)
  from provider_reads_every_configured_shard [OF f] f show ?thesis by blast
qed


end
