(* ===== verification/Pg_Frontend.thy ===== *)
theory Pg_Frontend
  imports Federated_Catalog
begin

text \<open>
  The SQL endpoint: \<open>protocol/pg_backend.rs\<close>, \<open>protocol/pg_hook.rs\<close>, \<open>protocol/pg_handlers.rs\<close>,
  \<open>protocol/pg_session.rs\<close>. The wire protocol and the query engine are third-party; the record \<open>pg_env\<close> has
  what the handlers use of them. A handler's outcome is to answer, to leave the statement to the query
  engine, or to wait for a free connection. Request counters, timing and logging are left out.
\<close>

record ('r, 'g, 'k, 'd, 'b) pg_env =
  pe_ring :: "'r hash_ring_ops"
  pe_sp :: sqlparser
  pe_fed :: "('g, 'k) fed_env"
  pe_df :: "('d, 'b) df_ops"
  pe_ctx :: 'd

text \<open>The extensions a client session carries: the stored dialect text and the sticky backend.\<close>

record 'k PgSession =
  ps_dialect :: "string option option"
  ps_backends :: "u32 \<rightharpoonup> 'k"
  ps_current_shard :: "u32 option"

datatype HookOutcome = Delegate | Answer "PgWireError + Response" | Waiting

datatype ScalarValue = Utf8 "string option" | LargeUtf8 "string option" | OtherScalar string

datatype ParamValues = ParamList "ScalarValue list" | ParamMap "(string \<times> ScalarValue) list"

section \<open>Backends\<close>

definition wire_err :: "string \<Rightarrow> PgWireError" where
  "wire_err msg = UserError ''ERROR'' ''XX000'' msg"

definition read_only_err :: PgWireError where
  "read_only_err = UserError ''ERROR'' ''42501'' ''quest-router PG endpoint is read-only; use ILP for writes''"

definition routing_err :: "RoutingError \<Rightarrow> PgWireError" where
  "routing_err err = to_pgwire err"

definition conn_state_new :: "'k PgSession" where
  "conn_state_new = \<lparr> ps_dialect = None, ps_backends = Map.empty, ps_current_shard = None \<rparr>"

text \<open>The configuration of a running application has at least one shard (\<open>app_new\<close>), so its first one exists.\<close>

definition default_shard_id :: "('r, 'c, 'k) AppState \<Rightarrow> u32" where
  "default_shard_id st =
     (case default_healthy_shard (mh_snapshot (as_metadata st)) Pg of
        Inr s \<Rightarrow> sc_id s
      | Inl e \<Rightarrow> sc_id (hd (cfg_shards (as_config st))))"

definition resolve_shard_id :: "('r, 'c, 'k) AppState \<Rightarrow> u32 option \<Rightarrow> u32" where
  "resolve_shard_id st current = (case current of Some i \<Rightarrow> i | None \<Rightarrow> default_shard_id st)"

definition connect_backend ::
    "('g, 'k) fed_env \<Rightarrow> ('r, 'c, 'k) AppState \<Rightarrow> u32 \<Rightarrow> 'k PgSession \<Rightarrow> (PgWireError + 'k) \<times> 'k PgSession" where
  "connect_backend env st i ses =
     (case ps_backends ses i of
        Some client \<Rightarrow> (Inr client, ses)
      | None \<Rightarrow>
          (case snapshot_shard_by_id (mh_snapshot (as_metadata st)) i Pg of
             Inl e \<Rightarrow> (Inl (routing_err e), ses)
           | Inr shard \<Rightarrow>
               (case app_backend_pg_config (fe_parse_conn env) st shard of
                  Inl e \<Rightarrow> (Inl (wire_err e), ses)
                | Inr config \<Rightarrow>
                    (case fe_dial env config of
                       Inl e \<Rightarrow> (Inl (wire_err e), ses)
                     | Inr client \<Rightarrow> (Inr client, ses\<lparr>ps_backends := (ps_backends ses)(i \<mapsto> client)\<rparr>)))))"

fun to_server_response :: "ClientResponse \<Rightarrow> Response" where
  "to_server_response CrEmptyQuery = EmptyQuery"
| "to_server_response (CrQuery tag f rows) = QueryResponse f rows"
| "to_server_response (CrExecution tag) = Execution tag"

definition client_to_server :: "ClientResponse list \<Rightarrow> Response list" where
  "client_to_server responses = map to_server_response responses"

definition first_response :: "Response list \<Rightarrow> PgWireError + Response" where
  "first_response responses = (case responses of r # _ \<Rightarrow> Inr r | [] \<Rightarrow> Inl (wire_err ''empty backend response''))"

definition param_literal :: "string \<Rightarrow> string" where
  "param_literal value =
     (if eq_ignore_ascii_case value ''null'' then ''NULL''
      else QUOTE # replace_sub [QUOTE] [QUOTE, QUOTE] value @ [QUOTE])"

definition placeholder :: "nat \<Rightarrow> string" where
  "placeholder idx = CHR ''$'' # nat_to_string (idx + 1)"

fun inline_loop :: "(nat \<times> string) list \<Rightarrow> string \<Rightarrow> string" where
  "inline_loop [] out = out"
| "inline_loop ((idx, value) # params) out = inline_loop params (replace_sub (placeholder idx) (param_literal value) out)"

definition inline_sql_params :: "string \<Rightarrow> string list \<Rightarrow> string" where
  "inline_sql_params sql params = inline_loop (rev (zip [0..<length params] params)) sql"

definition query_shard_pool ::
    "('g, 'k) fed_env \<Rightarrow> 'k ShardPgPool \<Rightarrow> u32 \<Rightarrow> string \<Rightarrow> (PgWireError + Response list) option \<times> 'k ShardPgPool" where
  "query_shard_pool env pool i sql =
     (case query_shard env pool i sql of
        (None, pool') \<Rightarrow> (None, pool')
      | (Some (Inl e), pool') \<Rightarrow> (Some (Inl (wire_err (fe_show env e))), pool')
      | (Some (Inr responses), pool') \<Rightarrow> (Some (Inr (client_to_server responses)), pool'))"

definition relay_passthrough ::
    "('g, 'k) fed_env \<Rightarrow> ('r, 'c, 'k) AppState \<Rightarrow> string \<Rightarrow> 'k PgSession \<Rightarrow> (PgWireError + Response) \<times> 'k PgSession" where
  "relay_passthrough env st sql ses =
     (let i = resolve_shard_id st (ps_current_shard ses)
      in case connect_backend env st i (ses\<lparr>ps_current_shard := Some i\<rparr>) of
           (Inl e, ses') \<Rightarrow> (Inl e, ses')
         | (Inr client, ses') \<Rightarrow>
             (case fe_ask env client sql of
                Inl e \<Rightarrow> (Inl (wire_err (fe_show env e)), ses')
              | Inr responses \<Rightarrow> (first_response (client_to_server responses), ses')))"

section \<open>The hook\<close>

definition try_resolve_hook_route ::
    "('r, 'g, 'k, 'd, 'b) pg_env \<Rightarrow> ('r, 'c, 'k) AppState \<Rightarrow> string \<Rightarrow> string list option
       \<Rightarrow> (RoutingError + ResolvedRoute) option" where
  "try_resolve_hook_route env st sql params =
     (case app_resolve_route (pe_ring env) (pe_sp env) st sql params of
        Inr PassthroughRoute \<Rightarrow> Some (Inr PassthroughRoute)
      | Inr (Single s) \<Rightarrow> Some (Inr (Single s))
      | Inr (Federated p) \<Rightarrow> None
      | Inl (Unsupported msg) \<Rightarrow>
          if contains_sub msg ''only read queries'' then Some (Inl (Unsupported msg))
          else if contains_sub msg ''questdb dialect:'' then Some (Inl (Unsupported msg))
          else None
      | Inl (Parse msg) \<Rightarrow> None
      | Inl e \<Rightarrow> Some (Inl e))"

fun is_write_statement :: "Statement \<Rightarrow> bool" where
  "is_write_statement Insert = True"
| "is_write_statement Update = True"
| "is_write_statement Delete = True"
| "is_write_statement CreateTable = True"
| "is_write_statement CreateView = True"
| "is_write_statement Drop = True"
| "is_write_statement AlterTable = True"
| "is_write_statement Truncate = True"
| "is_write_statement Copy = True"
| "is_write_statement _ = False"

definition ensure_datafusion_tables ::
    "('r, 'g, 'k, 'd, 'b) pg_env \<Rightarrow> ('r, 'c, 'k) AppState \<Rightarrow> string \<Rightarrow> PgWireError option" where
  "ensure_datafusion_tables env st sql =
     (case ensure_tables_in_sql (pe_df env) (pe_sp env) (pe_ctx env) st sql of
        Inl e \<Rightarrow> Some (wire_err e)
      | Inr _ \<Rightarrow> None)"

definition backend_sql :: "string \<Rightarrow> string list option \<Rightarrow> string" where
  "backend_sql sql params = (case params of Some (p # ps) \<Rightarrow> inline_sql_params sql (p # ps) | _ \<Rightarrow> sql)"

definition handle_routed_sql ::
    "('r, 'g, 'k, 'd, 'b) pg_env \<Rightarrow> string \<Rightarrow> string list option \<Rightarrow> ('r, 'c, 'k) AppState \<Rightarrow> 'k PgSession
       \<Rightarrow> HookOutcome \<times> ('r, 'c, 'k) AppState \<times> 'k PgSession" where
  "handle_routed_sql env sql params st ses =
     (case try_resolve_hook_route env st sql params of
        None \<Rightarrow> (Delegate, st, ses)
      | Some (Inl (Unsupported msg)) \<Rightarrow>
          if contains_sub msg ''only read queries'' then (Answer (Inl read_only_err), st, ses)
          else (Answer (Inl (routing_err (Unsupported msg))), st, ses)
      | Some (Inl e) \<Rightarrow> (Answer (Inl (routing_err e)), st, ses)
      | Some (Inr PassthroughRoute) \<Rightarrow>
          (case relay_passthrough (pe_fed env) st sql ses of (r, ses') \<Rightarrow> (Answer r, st, ses'))
      | Some (Inr (Single shard)) \<Rightarrow>
          (case query_shard_pool (pe_fed env) (as_pg_pool st) (sc_id shard) (backend_sql sql params) of
             (None, pool') \<Rightarrow> (Waiting, st\<lparr>as_pg_pool := pool'\<rparr>, ses)
           | (Some (Inl e), pool') \<Rightarrow> (Answer (Inl e), st\<lparr>as_pg_pool := pool'\<rparr>, ses)
           | (Some (Inr rs), pool') \<Rightarrow> (Answer (first_response rs), st\<lparr>as_pg_pool := pool'\<rparr>, ses))
      | Some (Inr (Federated p)) \<Rightarrow> (Delegate, st, ses))"

definition handle_raw_sql ::
    "('r, 'g, 'k, 'd, 'b) pg_env \<Rightarrow> string \<Rightarrow> string list option \<Rightarrow> ('r, 'c, 'k) AppState \<Rightarrow> 'k PgSession
       \<Rightarrow> HookOutcome \<times> ('r, 'c, 'k) AppState \<times> 'k PgSession" where
  "handle_raw_sql env sql params st ses =
     (case ensure_datafusion_tables env st sql of
        Some err \<Rightarrow> (Answer (Inl err), st, ses)
      | None \<Rightarrow> handle_routed_sql env sql params st ses)"

definition take_dialect_sql :: "'k PgSession \<Rightarrow> string option \<times> 'k PgSession" where
  "take_dialect_sql ses =
     (case ps_dialect ses of
        Some (Some sql) \<Rightarrow> (Some sql, ses\<lparr>ps_dialect := Some None\<rparr>)
      | _ \<Rightarrow> (None, ses))"

fun scalar_to_string :: "ScalarValue \<Rightarrow> string" where
  "scalar_to_string (Utf8 (Some s)) = s"
| "scalar_to_string (LargeUtf8 (Some s)) = s"
| "scalar_to_string (Utf8 None) = ''NULL''"
| "scalar_to_string (LargeUtf8 None) = ''NULL''"
| "scalar_to_string (OtherScalar shown) = shown"

fun params_to_strings :: "ParamValues \<Rightarrow> string list" where
  "params_to_strings (ParamList vs) = map scalar_to_string vs"
| "params_to_strings (ParamMap pairs) = map (\<lambda>(_, v). scalar_to_string v) (sort_key fst pairs)"

definition handle_simple_query ::
    "('r, 'g, 'k, 'd, 'b) pg_env \<Rightarrow> Statement \<Rightarrow> ('r, 'c, 'k) AppState \<Rightarrow> 'k PgSession
       \<Rightarrow> HookOutcome \<times> ('r, 'c, 'k) AppState \<times> 'k PgSession" where
  "handle_simple_query env statement st ses =
     (if is_write_statement statement then (Answer (Inl read_only_err), st, ses)
      else let sql = sp_show_statement (pe_sp env) statement
           in case ensure_datafusion_tables env st sql of
                Some err \<Rightarrow> (Answer (Inl err), st, ses)
              | None \<Rightarrow> handle_routed_sql env sql None st ses)"

text \<open>The parse phase answers with a placeholder plan, an error, or leaves the statement to the engine.\<close>

definition handle_extended_parse_query ::
    "('r, 'g, 'k, 'd, 'b) pg_env \<Rightarrow> Statement \<Rightarrow> ('r, 'c, 'k) AppState \<Rightarrow> (PgWireError + unit) option" where
  "handle_extended_parse_query env statement st =
     (if is_write_statement statement then None
      else let sql = sp_show_statement (pe_sp env) statement
           in case ensure_datafusion_tables env st sql of
                Some err \<Rightarrow> Some (Inl err)
              | None \<Rightarrow>
                  (case try_resolve_hook_route env st sql None of
                     None \<Rightarrow> None
                   | Some (Inr PassthroughRoute) \<Rightarrow> Some (Inr ())
                   | Some (Inr (Single s)) \<Rightarrow> Some (Inr ())
                   | Some (Inr (Federated p)) \<Rightarrow> None
                   | Some (Inl (Unsupported msg)) \<Rightarrow>
                       if contains_sub msg ''only read queries'' then Some (Inl read_only_err)
                       else Some (Inl (routing_err (Unsupported msg)))
                   | Some (Inl e) \<Rightarrow> Some (Inl (routing_err e))))"

definition handle_extended_query ::
    "('r, 'g, 'k, 'd, 'b) pg_env \<Rightarrow> Statement \<Rightarrow> ParamValues \<Rightarrow> ('r, 'c, 'k) AppState \<Rightarrow> 'k PgSession
       \<Rightarrow> HookOutcome \<times> ('r, 'c, 'k) AppState \<times> 'k PgSession" where
  "handle_extended_query env statement params st ses =
     (if is_write_statement statement then (Answer (Inl read_only_err), st, ses)
      else case take_dialect_sql ses of
        (stored, ses1) \<Rightarrow>
          let sql = (case stored of Some s \<Rightarrow> s | None \<Rightarrow> sp_show_statement (pe_sp env) statement)
          in case ensure_datafusion_tables env st sql of
               Some err \<Rightarrow> (Answer (Inl err), st, ses1)
             | None \<Rightarrow> handle_routed_sql env sql (Some (params_to_strings params)) st ses1)"

section \<open>The handlers\<close>

definition simple_do_query ::
    "('r, 'g, 'k, 'd, 'b) pg_env \<Rightarrow> string \<Rightarrow> ('r, 'c, 'k) AppState \<Rightarrow> 'k PgSession
       \<Rightarrow> HookOutcome \<times> ('r, 'c, 'k) AppState \<times> 'k PgSession" where
  "simple_do_query env query st ses =
     (if has_questdb_extension query then handle_raw_sql env query None st ses else (Delegate, st, ses))"

text \<open>
  The parser of prepared statements: dialect text is kept in the session and a placeholder statement, parsed
  from \<open>SELECT 1\<close>, takes its place; other text goes to the inner parser.
\<close>

definition dialect_parse_sql ::
    "sqlparser \<Rightarrow> string \<Rightarrow> 'k PgSession \<Rightarrow> (PgWireError + Statement option) \<times> 'k PgSession" where
  "dialect_parse_sql sp sql ses =
     (if has_questdb_extension sql then
        (let ses' = ses\<lparr>ps_dialect := Some (Some sql)\<rparr>
         in case sp_parse sp ''SELECT 1'' of
              Inl e \<Rightarrow> (Inl (ApiError e), ses')
            | Inr [] \<Rightarrow> (Inl (ApiError ''empty dialect placeholder''), ses')
            | Inr (stmt # _) \<Rightarrow> (Inr (Some stmt), ses'))
      else (Inr None, ses))"

definition build_session_context :: "('d, 'b) df_ops \<Rightarrow> 'd \<Rightarrow> ('d \<Rightarrow> string option) \<Rightarrow> ('r, 'c, 'k) AppState \<Rightarrow> string + 'd" where
  "build_session_context df ctx setup_pg_catalog st =
     (if \<not> rc_federated_enabled (cfg_routing (as_config st))
      then Inl ''federated queries are disabled; enable routing.federated_enabled''
      else case register_config_tables df (rc_tables (cfg_routing (as_config st))) ctx of
        Inl e \<Rightarrow> Inl e
      | Inr ctx' \<Rightarrow> (case setup_pg_catalog ctx' of Some e \<Rightarrow> Inl e | None \<Rightarrow> Inr ctx'))"

section \<open>Specification vocabulary\<close>

text \<open>
  A statement with parameters, as the client means it: fixed text and slots. \<open>shown\<close> is the text the client
  sends, \<open>filled\<close> the text with the literals in place of the slots.
\<close>

datatype piece = Text string | Slot nat

fun shown :: "piece list \<Rightarrow> string" where
  "shown [] = []"
| "shown (Text t # ps) = t @ shown ps"
| "shown (Slot i # ps) = placeholder i @ shown ps"

fun fill :: "nat \<Rightarrow> string \<Rightarrow> piece \<Rightarrow> piece" where
  "fill j w (Text t) = Text t"
| "fill j w (Slot i) = (if i = j then Text w else Slot i)"

fun filled :: "string list \<Rightarrow> piece list \<Rightarrow> string" where
  "filled params [] = []"
| "filled params (Text t # ps) = t @ filled params ps"
| "filled params (Slot i # ps) = param_literal (params ! i) @ filled params ps"

definition no_digit_head :: "string \<Rightarrow> bool" where
  "no_digit_head s \<longleftrightarrow> (case s of [] \<Rightarrow> True | c # _ \<Rightarrow> \<not> is_ascii_digit c)"

text \<open>A template is plain when no text holds a dollar sign, no digit follows a slot and the slots are below \<open>n\<close>.\<close>

fun plain_template :: "nat \<Rightarrow> piece list \<Rightarrow> bool" where
  "plain_template n [] = True"
| "plain_template n (Text t # ps) = (CHR ''$'' \<notin> set t \<and> plain_template n ps)"
| "plain_template n (Slot i # ps) = (i < n \<and> no_digit_head (shown ps) \<and> plain_template n ps)"

section \<open>Lemmas\<close>

subsection \<open>Inlining parameters\<close>

lemma digits_value_append: "digits_value a * 10 ^ length b \<le> digits_value (a @ b)"
proof (induction b rule: rev_induct)
  case (snoc c b)
  then have "10 * (digits_value a * 10 ^ length b) \<le> 10 * digits_value (a @ b) + (byte c - 48)" by simp
  then show ?case by (simp add: digits_value_snoc append_assoc [symmetric] del: append_assoc)
qed simp

lemma digits_split:
  assumes "list_all is_ascii_digit ds" and "no_digit_head rest" and "es @ rest = ds @ t"
  shows "\<exists>u. es = ds @ u"
proof -
  from assms(3) consider u where "es = ds @ u" | c u where "es @ c # u = ds" "rest = c # u @ t"
    by (auto simp: append_eq_append_conv2) (metis append_Nil2 append_Cons list.exhaust)
  then show ?thesis using assms(1,2) by cases (auto simp: no_digit_head_def)
qed

lemma longer_number:
  assumes "i \<le> j" and "nat_to_string (i + 1) = nat_to_string (j + 1) @ u"
  shows "i = j"
proof -
  have "u = []"
  proof (rule ccontr)
    assume "u \<noteq> []"
    then have "2 \<le> (10::nat) ^ length u" by (cases u) simp_all
    then have "(j + 1) * 2 \<le> (j + 1) * 10 ^ length u" by (rule mult_le_mono2)
    also have "\<dots> \<le> i + 1"
      using digits_value_append [of "nat_to_string (j + 1)" u] assms(2)
      by (metis digits_value_nat_to_string)
    finally show False using assms(1) by simp
  qed
  with assms(2) show ?thesis by (simp add: nat_to_string_inj)
qed

lemma placeholder_prefix:
  assumes "i \<le> j" and "no_digit_head rest" and "starts_with (placeholder i @ rest) (placeholder j)"
  shows "i = j"
proof -
  from assms(3) obtain t where "nat_to_string (i + 1) @ rest = nat_to_string (j + 1) @ t"
    by (auto simp: placeholder_def starts_with_iff)
  from digits_split [OF nat_to_string_digits assms(2) this] longer_number [OF assms(1)]
  show ?thesis by blast
qed

lemma no_digit_head_append: "no_digit_head (s @ t) \<longleftrightarrow> (if s = [] then no_digit_head t else no_digit_head s)"
  by (cases s) (simp_all add: no_digit_head_def)

lemma replace_sub_skip:
  "c \<notin> set t \<Longrightarrow> replace_sub (c # p) w (t @ s) = t @ replace_sub (c # p) w s"
  by (induction t) (auto simp: replace_sub.simps)

lemma replace_sub_hit: "p \<noteq> [] \<Longrightarrow> replace_sub p w (p @ s) = w @ replace_sub p w s"
  by (cases p) (simp_all add: replace_sub.simps)

lemma placeholder_nonempty [simp]: "placeholder i \<noteq> []"
  by (simp add: placeholder_def)

lemma no_digit_special: "\<not> is_ascii_digit (CHR ''$'')" "\<not> is_ascii_digit (CHR ''N'')" "\<not> is_ascii_digit QUOTE"
  by code_simp+

lemma no_dollar_digits: "CHR ''$'' \<notin> set (nat_to_string n)"
  using nat_to_string_digits [of n] no_digit_special(1) by (auto simp: list_all_iff)

lemma placeholder_head: "no_digit_head (placeholder i)"
  by (simp add: no_digit_head_def placeholder_def no_digit_special)

lemma replace_placeholder:
  assumes "plain_template (Suc j) ps"
  shows "replace_sub (placeholder j) w (shown ps) = shown (map (fill j w) ps)"
  using assms
proof (induction ps rule: shown.induct)
  case 1
  then show ?case by (simp add: placeholder_def)
next
  case (2 t ps)
  then show ?case by (simp add: placeholder_def replace_sub_skip)
next
  case (3 i ps)
  show ?case
  proof (cases "i = j")
    case True
    with 3 show ?thesis by (simp add: replace_sub_hit)
  next
    case False
    with 3 placeholder_prefix [of i j "shown ps"] have "\<not> starts_with (placeholder i @ shown ps) (placeholder j)" by auto
    then have "replace_sub (placeholder j) w (placeholder i @ shown ps) =
        placeholder i @ replace_sub (placeholder j) w (shown ps)"
      by (simp add: placeholder_def replace_sub.simps replace_sub_skip no_dollar_digits)
    with 3 False show ?thesis by simp
  qed
qed

lemma fill_plain:
  assumes "plain_template (Suc j) ps" and "w \<noteq> []" and "no_digit_head w" and "CHR ''$'' \<notin> set w"
  shows "plain_template j (map (fill j w) ps)"
proof -
  have head: "no_digit_head (shown qs) \<Longrightarrow> no_digit_head (shown (map (fill j w) qs))" for qs
    using assms(2,3)
    by (induction qs rule: shown.induct)
      (auto simp: no_digit_head_append placeholder_head no_digit_head_def [of "[]"])
  show ?thesis
    using assms(1,4) head by (induction ps rule: shown.induct) auto
qed

lemma replace_sub_set: "set (replace_sub p w s) \<subseteq> set w \<union> set s"
proof (induction p w s rule: replace_sub.induct)
  case (2 p w c cs)
  then show ?case
    using set_drop_subset [of "length p" "c # cs"] by (auto simp: replace_sub.simps)
qed simp

lemma replace_quote:
  "replace_sub [QUOTE] [QUOTE, QUOTE] v = concat (map (\<lambda>c. if c = QUOTE then [QUOTE, QUOTE] else [c]) v)"
  by (induction v) (simp_all add: replace_sub.simps)

lemma param_literal_quotes:
  "param_literal v = (if eq_ignore_ascii_case v ''null'' then ''NULL'' else quote_literal v)"
  by (simp add: param_literal_def quote_literal_def replace_quote)

lemma param_literal_plain:
  assumes "CHR ''$'' \<notin> set v"
  shows "param_literal v \<noteq> []" "no_digit_head (param_literal v)" "CHR ''$'' \<notin> set (param_literal v)"
  using assms replace_sub_set [of "[QUOTE]" "[QUOTE, QUOTE]" v]
  by (auto simp: param_literal_def no_digit_head_def no_digit_special)

lemma shown_texts: "plain_template 0 ps \<Longrightarrow> shown ps = filled params ps"
  by (induction ps rule: shown.induct) simp_all

lemma filled_fill:
  assumes "j < length params"
  shows "filled params (map (fill j (param_literal (params ! j))) ps) = filled params ps"
  by (induction ps rule: shown.induct) simp_all

lemma inline_loop_fill:
  assumes "n \<le> length params" and "\<forall>v \<in> set params. CHR ''$'' \<notin> set v" and "plain_template n ps"
  shows "inline_loop (rev (zip [0..<n] (take n params))) (shown ps) = filled params ps"
  using assms
proof (induction n arbitrary: ps)
  case 0
  then show ?case by (simp add: shown_texts)
next
  case (Suc n)
  let ?w = "param_literal (params ! n)"
  have "CHR ''$'' \<notin> set (params ! n)" using Suc.prems by simp
  note w = param_literal_plain [OF this]
  have zip: "rev (zip [0..<Suc n] (take (Suc n) params)) = (n, params ! n) # rev (zip [0..<n] (take n params))"
    using Suc.prems(1) by (simp add: take_Suc_conv_app_nth)
  show ?case
    using Suc.IH [of "map (fill n ?w) ps"] Suc.prems fill_plain [OF Suc.prems(3) w]
    by (simp add: zip replace_placeholder filled_fill del: upt_Suc)
qed

subsection \<open>Routed reads\<close>

lemma acquire_succeeds:
  assumes "pp_permits pool i = Some (Suc n)" and "usable env pool i \<noteq> {}"
  shows "\<exists>k p. k \<in> usable env pool i \<and> acquire (fe_parse_conn env) (fe_dial env) pool i = (Inr (Some (pooled i k)), p)"
proof -
  let ?p1 = "pool\<lparr>pp_permits := (pp_permits pool)(i \<mapsto> n)\<rparr>"
  obtain a p where acq: "acquire (fe_parse_conn env) (fe_dial env) pool i = (a, p)"
    by (cases "acquire (fe_parse_conn env) (fe_dial env) pool i")
  then show ?thesis
  proof (cases rule: acquire_cases)
    case (failed e)
    obtain c p2 where pop: "pop_idle ?p1 i = (c, p2)" by (cases "pop_idle ?p1 i")
    note pc = pop_idle_cases [OF pop]
    have conn: "connect (fe_parse_conn env) (fe_dial env) p2 i = connect (fe_parse_conn env) (fe_dial env) pool i"
      using pc(2,3) by (intro connect_cong) simp_all
    have "c = None" using acq failed(1) assms(1) pop by (auto simp: acquire_def acquire_permit_def split: option.splits)
    with pop have "idle pool i = {}" by (auto simp: pop_idle_def idle_def split: option.splits if_splits)
    with assms(2) obtain k where "connect (fe_parse_conn env) (fe_dial env) pool i = Inr k" by (auto simp: usable_def)
    with \<open>c = None\<close> acq failed(1) assms(1) pop conn show ?thesis by (simp add: acquire_def acquire_permit_def)
  qed (use acq assms in auto)
qed

lemma query_shard_lives:
  assumes "pp_permits pool i = Some (Suc n)" and "usable env pool i \<noteq> {}"
    and "\<forall>k \<in> usable env pool i. \<exists>rs. fe_ask env k sql = Inr rs"
  shows "\<exists>k rs pool'. k \<in> usable env pool i \<and> fe_ask env k sql = Inr rs \<and> query_shard env pool i sql = (Some (Inr rs), pool')"
proof -
  from acquire_succeeds [OF assms(1,2)] obtain k p where k: "k \<in> usable env pool i"
    "acquire (fe_parse_conn env) (fe_dial env) pool i = (Inr (Some (pooled i k)), p)" by blast
  moreover from assms(3) k(1) obtain rs where "fe_ask env k sql = Inr rs" by blast
  ultimately show ?thesis by (auto simp: query_shard_def query_shard_client_def)
qed

lemma hook_route_single:
  "app_resolve_route (pe_ring env) (pe_sp env) st sql params = Inr (Single shard) \<Longrightarrow>
     try_resolve_hook_route env st sql params = Some (Inr (Single shard))"
  by (simp add: try_resolve_hook_route_def)

lemma single_is_available:
  "app_resolve_route ops sp st sql params = Inr (Single shard) \<Longrightarrow> available_for (as_query_router st) Pg shard"
  unfolding app_resolve_route_def by (rule dqr.single_available)

lemma handle_single:
  assumes "app_resolve_route (pe_ring env) (pe_sp env) st sql params = Inr (Single shard)"
    and "query_shard (pe_fed env) (as_pg_pool st) (sc_id shard) (backend_sql sql params) = (r, pool')"
  shows "handle_routed_sql env sql params st ses =
    ((case r of None \<Rightarrow> Waiting
      | Some (Inl e) \<Rightarrow> Answer (Inl (wire_err (fe_show (pe_fed env) e)))
      | Some (Inr rs) \<Rightarrow> Answer (first_response (client_to_server rs))), st\<lparr>as_pg_pool := pool'\<rparr>, ses)"
  using assms by (auto simp: handle_routed_sql_def hook_route_single query_shard_pool_def split: option.splits sum.splits)

lemma first_response_Inr: "first_response (client_to_server rs) = Inr r \<longleftrightarrow> (\<exists>c cs. rs = c # cs \<and> r = to_server_response c)"
  by (cases rs) (auto simp: first_response_def client_to_server_def)

lemma first_response_Inl: "first_response rs = Inl e \<Longrightarrow> e = wire_err ''empty backend response''"
  by (auto simp: first_response_def split: list.splits)

subsection \<open>Sessions\<close>

lemma connect_backend_frame:
  "connect_backend env st i ses = (r, ses') \<Longrightarrow> ps_current_shard ses' = ps_current_shard ses \<and> ps_dialect ses' = ps_dialect ses"
  by (auto simp: connect_backend_def split: option.splits sum.splits)

lemma connect_backend_Inr: "connect_backend env st i ses = (Inr client, ses') \<Longrightarrow> ps_backends ses' i = Some client"
  by (auto simp: connect_backend_def split: option.splits sum.splits)

lemma connect_backend_Inl: "connect_backend env st i ses = (Inl e, ses') \<Longrightarrow> ps_backends ses i = None \<and> ses' = ses"
  by (auto simp: connect_backend_def split: option.splits sum.splits)

lemma relay_frame:
  assumes "relay_passthrough env st sql ses = (r, ses')"
  shows "ps_current_shard ses' = Some (resolve_shard_id st (ps_current_shard ses))" and "ps_dialect ses' = ps_dialect ses"
  using assms connect_backend_frame [of env st "resolve_shard_id st (ps_current_shard ses)"]
  by (fastforce simp: relay_passthrough_def Let_def split: prod.splits sum.splits)+

lemma handle_routed_keeps_dialect:
  "handle_routed_sql env sql params st ses = (out, st', ses') \<Longrightarrow> ps_dialect ses' = ps_dialect ses"
  by (auto simp: handle_routed_sql_def dest: relay_frame(2)
      split: option.splits sum.splits prod.splits RoutingError.splits ResolvedRoute.splits if_splits)

lemma handle_raw_keeps_dialect:
  "handle_raw_sql env sql params st ses = (out, st', ses') \<Longrightarrow> ps_dialect ses' = ps_dialect ses"
  by (auto simp: handle_raw_sql_def dest: handle_routed_keeps_dialect split: option.splits)

lemma extended_runs_stored:
  "\<not> is_write_statement stmt \<Longrightarrow> ps_dialect ses = Some (Some sql) \<Longrightarrow>
     handle_extended_query env stmt params st ses =
       handle_raw_sql env sql (Some (params_to_strings params)) st (ses\<lparr>ps_dialect := Some None\<rparr>)"
  by (simp add: handle_extended_query_def take_dialect_sql_def handle_raw_sql_def)

lemma extended_runs_statement:
  "\<not> is_write_statement stmt \<Longrightarrow> ps_dialect ses = Some None \<or> ps_dialect ses = None \<Longrightarrow>
     handle_extended_query env stmt params st ses =
       handle_raw_sql env (sp_show_statement (pe_sp env) stmt) (Some (params_to_strings params)) st ses"
  by (auto simp: handle_extended_query_def take_dialect_sql_def handle_raw_sql_def split: option.splits)

subsection \<open>Instances for the witnesses\<close>

definition demo_df :: "(string list, unit) df_ops" where
  "demo_df = \<lparr> df_new = [], df_register = (\<lambda>t _ d. Inr (t # d)), df_table_exist = (\<lambda>d t. Inr (t \<in> set d)),
     df_sql = (\<lambda>_ _. Inr []) \<rparr>"

definition demo_pg_env :: "(VNode list, unit, nat, string list, unit) pg_env" where
  "demo_pg_env = \<lparr> pe_ring = ref_ring_ops, pe_sp = demo_parser (QueryStatement (demo_query demo_param_where)),
     pe_fed = demo_fed_env, pe_df = demo_df, pe_ctx = [''trades''] \<rparr>"

lemma demo_route_key:
  obtains shard where "app_route_key ref_ring_ops demo_fed_app key Pg = Inr shard" "sc_id shard \<in> {0, 1}"
proof -
  let ?c = "demo_config [demo_shard 0, demo_shard 1] 1"
  let ?snap = "ms_snapshot (actor_run [] (actor_spawn ref_ring_ops ?c))"
  have key: "app_route_key ref_ring_ops demo_fed_app key Pg = shard_for_key ref_ring_ops ?snap key Pg"
    by (simp add: app_route_key_def router_route_key_def demo_fed_app_def demo_app_def demo_handle_def spawn_handle_def
        actor_run_def)
  have ok: "\<not> is_excluded ?snap Pg i" for i by (simp add: run_excluded report_simps)
  have count: "healthy_count ?snap Pg = 2" by (simp add: healthy_count_ids run_healthy_ids report_simps)
  have shards: "sr_shards (cs_ring ?snap) = [demo_shard 0, demo_shard 1]" by simp
  show thesis
  proof (cases "shard_for_key ref_ring_ops ?snap key Pg")
    case (Inl e)
    from shard_for_key_InlD [OF this] ok count shards show thesis by simp
  next
    case (Inr s)
    with shard_for_key_InrD [OF Inr] shards key that [of s] show thesis by (auto simp: demo_shard_def)
  qed
qed

lemma demo_routed:
  obtains shard where "app_resolve_route ref_ring_ops (pe_sp demo_pg_env) demo_fed_app ''q'' None = Inr (Single shard)"
    "sc_id shard \<in> {0, 1}"
proof -
  have ext: "\<not> has_questdb_extension ''q''" by code_simp
  have p: "placeholder_index ''$2'' = Some 1"
    using placeholder_index_render [of 1] by (simp add: nat_to_string_two)
  have "router_classify (pe_sp demo_pg_env) (as_query_router demo_fed_app) ''q'' =
      Inr (Routable (SingleShard ''trades'' None (Some 1)))"
    by (simp add: router_classify_def demo_pg_env_def demo_fed_app_def demo_app_def demo_handle_def spawn_handle_def
        classify_sql_def ext parse_one_statement_def plan_query_def plan_select_def p primary_table_def object_name_def
        demo_sql_defs demo_param_where_def eq_ignore_ascii_case_def)
  from missing_parameter(1) [OF this, of None ref_ring_ops] demo_route_key [of "''trades''"] that show thesis
    by (fastforce simp: param_missing_def bound_param_def)
qed

lemma demo_ready:
  assumes "i \<in> {0, 1}"
  shows "pp_permits (as_pg_pool demo_fed_app) i = Some (Suc 0)" and "usable demo_fed_env (as_pg_pool demo_fed_app) i \<noteq> {}"
  using assms by (auto simp: demo_fed_app_def demo_fed_pool_def pool_new_def usable_def idle_def)

section \<open>Properties\<close>

text \<open>
  C6. Reads with a shard key are answered by their shard alone. When a query resolves to a single shard, that
  shard is configured and not excluded; every response that the client gets is the first response of one of
  that shard's connections to the query with its parameters written in; the session is unchanged and the
  pool has its permits back; the query is never left to the engine, it waits only when the shard has no free
  permit, and every other outcome is an error with the code of an internal error.
\<close>

theorem routed_read_is_answered_by_its_shard:
  assumes "app_resolve_route (pe_ring env) (pe_sp env) st sql params = Inr (Single shard)"
    and "handle_routed_sql env sql params st ses = (out, st', ses')"
  shows "available_for (as_query_router st) Pg shard \<and> ses' = ses
    \<and> st' = st\<lparr>as_pg_pool := as_pg_pool st'\<rparr> \<and> settled (pe_fed env) (as_pg_pool st') (as_pg_pool st)
    \<and> out \<noteq> Delegate \<and> (out = Waiting \<longleftrightarrow> pp_permits (as_pg_pool st) (sc_id shard) = Some 0)
    \<and> (\<forall>r. out = Answer (Inr r) \<longrightarrow>
         (\<exists>c cs. answers (pe_fed env) (as_pg_pool st) (backend_sql sql params) (sc_id shard) (c # cs)
            \<and> r = to_server_response c))
    \<and> (\<forall>e. out = Answer (Inl e) \<longrightarrow> (\<exists>msg. e = wire_err msg))"
proof -
  obtain r pool' where q: "query_shard (pe_fed env) (as_pg_pool st) (sc_id shard) (backend_sql sql params) = (r, pool')"
    by (cases "query_shard (pe_fed env) (as_pg_pool st) (sc_id shard) (backend_sql sql params)")
  note h = handle_single [OF assms(1) q, of ses, unfolded assms(2)]
  show ?thesis
    using h single_is_available [OF assms(1)] query_shard_settled [OF q] query_shard_answers [OF q [THEN trans]]
    by (auto simp: first_response_Inr q dest: first_response_Inl split: option.splits sum.splits)
qed

theorem routed_read_is_answered_by_its_shard_witness:
  "\<exists>shard out st'. handle_routed_sql demo_pg_env ''q'' None demo_fed_app (conn_state_new :: nat PgSession) = (out, st', conn_state_new)
     \<and> available_for (as_query_router demo_fed_app) Pg shard \<and> out \<noteq> Waiting \<and> out \<noteq> Delegate"
proof -
  obtain shard where s: "app_resolve_route ref_ring_ops (pe_sp demo_pg_env) demo_fed_app ''q'' None = Inr (Single shard)"
    "sc_id shard \<in> {0, 1}" by (rule demo_routed)
  obtain out st' and ses' :: "nat PgSession" where
    h: "handle_routed_sql demo_pg_env ''q'' None demo_fed_app conn_state_new = (out, st', ses')"
    by (cases "handle_routed_sql demo_pg_env ''q'' None demo_fed_app (conn_state_new :: nat PgSession)") auto
  have "pe_ring demo_pg_env = ref_ring_ops" by (simp add: demo_pg_env_def)
  with routed_read_is_answered_by_its_shard [of demo_pg_env demo_fed_app "''q''" None shard, OF _ h] s demo_ready(1) [OF s(2)]
  show ?thesis using h by auto
qed

text \<open>
  A routed read is answered: if the shard it resolves to has a free permit and a connection, idle or new, and
  its connections reply to the query, then the client gets the first response of one of them.
\<close>

theorem routed_read_gets_a_response:
  assumes "app_resolve_route (pe_ring env) (pe_sp env) st sql params = Inr (Single shard)"
    and "pp_permits (as_pg_pool st) (sc_id shard) = Some (Suc n)"
    and "usable (pe_fed env) (as_pg_pool st) (sc_id shard) \<noteq> {}"
    and "\<forall>k \<in> usable (pe_fed env) (as_pg_pool st) (sc_id shard). \<exists>c cs. fe_ask (pe_fed env) k (backend_sql sql params) = Inr (c # cs)"
  shows "\<exists>k c cs st'. k \<in> usable (pe_fed env) (as_pg_pool st) (sc_id shard)
    \<and> fe_ask (pe_fed env) k (backend_sql sql params) = Inr (c # cs)
    \<and> handle_routed_sql env sql params st ses = (Answer (Inr (to_server_response c)), st', ses)"
proof -
  from assms(4) query_shard_lives [OF assms(2,3), of "backend_sql sql params"] obtain k rs pool' where
    k: "k \<in> usable (pe_fed env) (as_pg_pool st) (sc_id shard)" "fe_ask (pe_fed env) k (backend_sql sql params) = Inr rs"
    and q: "query_shard (pe_fed env) (as_pg_pool st) (sc_id shard) (backend_sql sql params) = (Some (Inr rs), pool')" by blast
  from k assms(4) obtain c cs where "rs = c # cs" by fastforce
  with k handle_single [OF assms(1) q, of ses] show ?thesis
    by (auto simp: first_response_def client_to_server_def)
qed

theorem routed_read_gets_a_response_witness:
  "\<exists>r st'. handle_routed_sql demo_pg_env ''q'' None demo_fed_app (conn_state_new :: nat PgSession) = (Answer (Inr r), st', conn_state_new)"
proof -
  obtain shard where s: "app_resolve_route ref_ring_ops (pe_sp demo_pg_env) demo_fed_app ''q'' None = Inr (Single shard)"
    "sc_id shard \<in> {0, 1}" by (rule demo_routed)
  have env: "pe_ring demo_pg_env = ref_ring_ops" "pe_fed demo_pg_env = demo_fed_env" by (simp_all add: demo_pg_env_def)
  show ?thesis
    using routed_read_gets_a_response [of demo_pg_env demo_fed_app "''q''" None shard 0 conn_state_new]
      s(1) demo_ready [OF s(2)] env by (auto simp: demo_fed_env_def)
qed

text \<open>
  C23. Parameters are written in correctly where the text and the values allow it: for a statement whose fixed text holds
  no dollar sign and has no digit right after a parameter, and values none of which holds a dollar sign. Then the text sent
  to the shard has in place of each \<open>$n\<close> the literal of the n-th value and is otherwise unchanged, also when there are more than nine
  parameters and \<open>$1\<close> is a prefix of \<open>$10\<close>. The literal of a value that does not read \<open>null\<close> is its quoted
  text, and reading it back gives the value. (What happens to values with a dollar sign is C38.)
\<close>

theorem parameters_are_inlined:
  assumes "plain_template (length params) ps" and "\<forall>v \<in> set params. CHR ''$'' \<notin> set v"
  shows "inline_sql_params (shown ps) params = filled params ps
    \<and> (\<forall>v. if eq_ignore_ascii_case v ''null'' then param_literal v = ''NULL''
           else parse_sql_string_literal (param_literal v) = Some v)"
  using inline_loop_fill [OF order_refl assms(2,1)] parse_quote_literal [of "[]"]
  by (simp add: inline_sql_params_def param_literal_quotes)

theorem parameters_are_inlined_witness:
  "inline_sql_params ''a = $1 AND b = $10'' (map (\<lambda>i. [char_of (97 + i)]) [0..<10]) =
     ''a = '' @ quote_literal ''a'' @ '' AND b = '' @ quote_literal ''j''"
proof -
  let ?ps = "[Text ''a = '', Slot 0, Text '' AND b = '', Slot 9]"
  let ?params = "map (\<lambda>i. [char_of (97 + i) :: char]) [0..<10]"
  have s: "shown ?ps = ''a = $1 AND b = $10''" by code_simp
  have "plain_template (length ?params) ?ps" by code_simp
  moreover have "\<forall>v \<in> set ?params. CHR ''$'' \<notin> set v" by code_simp
  ultimately have "inline_sql_params (shown ?ps) ?params = filled ?params ?ps"
    using parameters_are_inlined [of ?params ?ps] by blast
  moreover have "filled ?params ?ps = ''a = '' @ quote_literal ''a'' @ '' AND b = '' @ quote_literal ''j''" by code_simp
  ultimately show ?thesis by (simp only: s)
qed

text \<open>
  C38. A value that itself reads like a parameter is substituted again. With the second value \<open>$1\<close>, the literal
  of the first value is written inside the quotes of the second: for a value that is quoted, the quotes close
  at once and its text stands outside any literal.
\<close>

theorem parameter_values_are_substituted_again:
  "inline_sql_params ''a = $1 AND b = $2'' [v, ''$1''] =
     ''a = '' @ param_literal v @ '' AND b = '' @ [QUOTE] @ param_literal v @ [QUOTE]
   \<and> inline_sql_params ''a = $1 AND b = $2'' ['' OR 1=1 --'', ''$1''] =
       ''a = '' @ quote_literal '' OR 1=1 --'' @ '' AND b = '' @ [QUOTE, QUOTE] @ '' OR 1=1 --'' @ [QUOTE, QUOTE]"
proof
  let ?qs = "[Text ''a = '', Slot 0, Text ('' AND b = '' @ [QUOTE]), Slot 0, Text [QUOTE]]"
  have one: "replace_sub (placeholder (Suc 0)) (param_literal ''$1'') ''a = $1 AND b = $2'' = shown ?qs" by code_simp
  have "plain_template (Suc 0) ?qs" by code_simp
  then have zero: "replace_sub (placeholder 0) (param_literal v) (shown ?qs) = shown (map (fill 0 (param_literal v)) ?qs)"
    by (rule replace_placeholder)
  have "inline_sql_params ''a = $1 AND b = $2'' [v, ''$1''] =
      replace_sub (placeholder 0) (param_literal v) (replace_sub (placeholder (Suc 0)) (param_literal ''$1'') ''a = $1 AND b = $2'')"
    by (simp add: inline_sql_params_def upt_rec)
  then show "inline_sql_params ''a = $1 AND b = $2'' [v, ''$1''] =
      ''a = '' @ param_literal v @ '' AND b = '' @ [QUOTE] @ param_literal v @ [QUOTE]"
    unfolding one zero by simp
  show "inline_sql_params ''a = $1 AND b = $2'' ['' OR 1=1 --'', ''$1''] =
       ''a = '' @ quote_literal '' OR 1=1 --'' @ '' AND b = '' @ [QUOTE, QUOTE] @ '' OR 1=1 --'' @ [QUOTE, QUOTE]"
    by code_simp
qed

text \<open>
  Prepared dialect statements share one place in the session. Parsing dialect text keeps it there and yields
  the placeholder statement; the next execution of any statement that is not a write - the placeholder or
  another one - runs the kept text instead of its own; and when the placeholder is executed after that, its
  own text is run, not the text that was prepared.
\<close>

theorem prepared_dialect_text_runs_once:
  assumes "has_questdb_extension d" and "sp_parse (pe_sp env) ''SELECT 1'' = Inr [ph]"
    and "\<not> is_write_statement ph" and "\<not> is_write_statement stmt"
    and "dialect_parse_sql (pe_sp env) d ses = (parsed, ses1)"
    and "handle_extended_query env stmt params st ses1 = (out, st2, ses2)"
  shows "parsed = Inr (Some ph)
    \<and> (out, st2, ses2) = handle_raw_sql env d (Some (params_to_strings params)) st (ses\<lparr>ps_dialect := Some None\<rparr>)
    \<and> handle_extended_query env ph params' st2 ses2 =
        handle_raw_sql env (sp_show_statement (pe_sp env) ph) (Some (params_to_strings params')) st2 ses2"
proof -
  from assms(1,2,5) have p: "parsed = Inr (Some ph)" "ses1 = ses\<lparr>ps_dialect := Some (Some d)\<rparr>"
    by (auto simp: dialect_parse_sql_def)
  from extended_runs_stored [OF assms(4), of ses1 d env params st] p(2) assms(6)
  have run: "handle_raw_sql env d (Some (params_to_strings params)) st (ses\<lparr>ps_dialect := Some None\<rparr>) = (out, st2, ses2)"
    by simp
  from handle_raw_keeps_dialect [OF run] have "ps_dialect ses2 = Some None" by simp
  with p(1) run extended_runs_statement [OF assms(3), of ses2 env params' st2] show ?thesis by simp
qed

theorem prepared_dialect_text_runs_once_witness:
  "\<exists>out st2 ses2. handle_extended_query demo_pg_env ShowVariables (ParamList []) demo_fed_app
       (snd (dialect_parse_sql (pe_sp demo_pg_env) ''SELECT x FROM trades SAMPLE BY 1h'' (conn_state_new :: nat PgSession))) =
     (out, st2, ses2)
   \<and> (out, st2, ses2) = handle_raw_sql demo_pg_env ''SELECT x FROM trades SAMPLE BY 1h'' (Some []) demo_fed_app
        (conn_state_new\<lparr>ps_dialect := Some None\<rparr>)"
proof -
  let ?d = "''SELECT x FROM trades SAMPLE BY 1h''" and ?ses = "conn_state_new :: nat PgSession"
  obtain parsed ses1 where parse: "dialect_parse_sql (pe_sp demo_pg_env) ?d ?ses = (parsed, ses1)"
    by (cases "dialect_parse_sql (pe_sp demo_pg_env) ?d ?ses")
  obtain out st2 ses2 where run: "handle_extended_query demo_pg_env ShowVariables (ParamList []) demo_fed_app ses1 = (out, st2, ses2)"
    by (cases "handle_extended_query demo_pg_env ShowVariables (ParamList []) demo_fed_app ses1") auto
  have ext: "has_questdb_extension ?d" by code_simp
  have sp: "sp_parse (pe_sp demo_pg_env) ''SELECT 1'' = Inr [QueryStatement (demo_query demo_param_where)]"
    by (simp add: demo_pg_env_def demo_parser_def)
  from prepared_dialect_text_runs_once [OF ext sp _ _ parse run, of "ParamList []"]
  have "(out, st2, ses2) = handle_raw_sql demo_pg_env ?d (Some []) demo_fed_app (?ses\<lparr>ps_dialect := Some None\<rparr>)" by simp
  with run parse show ?thesis by (metis snd_conv)
qed

text \<open>
  Session statements stick to one shard. After a first passthrough the session is bound to the shard it chose,
  whatever came of it. If that one succeeded, every later passthrough is sent on the same connection, whatever
  the health of the shard is by then. If it could not connect, later ones try the same shard only, and while
  that shard is excluded they all fail, even though other shards are healthy.
\<close>

theorem passthrough_is_sticky:
  assumes "relay_passthrough env st sql ses = (r, ses')"
  defines "i \<equiv> resolve_shard_id st (ps_current_shard ses)"
  shows "ps_current_shard ses' = Some i
    \<and> (\<forall>client. ps_backends ses' i = Some client \<longrightarrow>
        relay_passthrough env st2 sql2 ses' =
          (case fe_ask env client sql2 of
             Inl e \<Rightarrow> Inl (wire_err (fe_show env e))
           | Inr responses \<Rightarrow> first_response (client_to_server responses), ses'))
    \<and> (ps_backends ses' i = None \<longrightarrow>
        (\<forall>e. snapshot_shard_by_id (mh_snapshot (as_metadata st2)) i Pg = Inl e \<longrightarrow>
           relay_passthrough env st2 sql2 ses' = (Inl (routing_err e), ses')))
    \<and> (\<forall>x. r = Inr x \<longrightarrow> ps_backends ses' i \<noteq> None)"
proof -
  have cur: "ps_current_shard ses' = Some i" using relay_frame(1) [OF assms(1)] by (simp add: i_def)
  then have bound: "ses'\<lparr>ps_current_shard := Some i\<rparr> = ses'" by simp
  have "ps_backends ses' i \<noteq> None" if "r = Inr x" for x
    using assms(1) that
    by (auto simp: relay_passthrough_def Let_def i_def [symmetric] split: prod.splits sum.splits
        dest: connect_backend_Inr)
  then show ?thesis
    using cur bound
    by (auto simp: relay_passthrough_def Let_def resolve_shard_id_def connect_backend_def split: sum.splits)
qed

theorem passthrough_is_sticky_witness:
  "\<exists>r ses'. relay_passthrough demo_fed_env demo_fed_app ''BEGIN'' (conn_state_new :: nat PgSession) = (r, ses')
     \<and> ps_current_shard ses' = Some (resolve_shard_id demo_fed_app None)"
proof -
  obtain r ses' where r: "relay_passthrough demo_fed_env demo_fed_app ''BEGIN'' (conn_state_new :: nat PgSession) = (r, ses')"
    by (cases "relay_passthrough demo_fed_env demo_fed_app ''BEGIN'' (conn_state_new :: nat PgSession)")
  from passthrough_is_sticky [OF r, of demo_fed_app "''COMMIT''"] have "ps_current_shard ses' = Some (resolve_shard_id demo_fed_app None)"
    by (simp add: conn_state_new_def)
  with r show ?thesis by blast
qed

end
