(* ===== verification/Step_System.thy ===== *)
theory Step_System
  imports Main
begin

text \<open>
  Interleaved tasks as a step relation on their shared state, and what an invariant of every step gives for every
  reachable state. The concurrent parts of the router (the ILP listener with its connections, the object ingest)
  instantiate it.
\<close>

locale step_system =
  fixes step :: "'s \<Rightarrow> 's \<Rightarrow> bool" and inv :: "'s \<Rightarrow> bool"
  assumes step_inv: "step s s' \<Longrightarrow> inv s \<Longrightarrow> inv s'"
begin

lemma reachable_inv: "rtranclp step s s' \<Longrightarrow> inv s \<Longrightarrow> inv s'"
  by (induction rule: rtranclp_induct) (auto intro: step_inv)

end

lemma two_steps: "step s s1 \<Longrightarrow> step s1 s2 \<Longrightarrow> rtranclp step s s2"
  by (meson rtranclp.simps)

end
