(* ===== verification/Ilp_Server.thy ===== *)
theory Ilp_Server
  imports Ilp_Forward Step_System "HOL-Library.Sublist"
begin

text \<open>
  The ILP listener, \<open>serve\<close> of \<open>protocol/ilp.rs\<close>, with all its connections at once. Each accepted socket gets a task
  that runs \<open>handle_connection\<close>; the tasks interleave with each other, with the health reports that change the
  published snapshot, and with a network that may fail at any moment. The loops of \<open>handle_connection\<close> are taken
  apart into their awaits: one step reads from the client, forwards one line, or flushes. That these steps, run
  without interruption, are \<open>handle_connection\<close> is a theorem.

  A connection records what it read (\<open>ic_input\<close>) and, with the snapshot in force at the time, each line it
  handed to the forwarder (\<open>ic_log\<close>). The listener ends with the first failure of \<open>accept\<close>.
\<close>

datatype ConnPhase = Reading | Draining | Ended "ForwardError + unit"

record 'r IlpConn =
  ic_reads :: "(string + bytes) list"
  ic_buf :: bytes
  ic_fwd :: IlpForwarder
  ic_phase :: ConnPhase
  ic_input :: bytes
  ic_log :: "('r MetadataHandle \<times> bytes) list"

definition conn_start :: "(string + bytes) list \<Rightarrow> 'r IlpConn" where
  "conn_start reads =
     \<lparr> ic_reads = reads, ic_buf = [], ic_fwd = forwarder_new, ic_phase = Reading, ic_input = [], ic_log = [] \<rparr>"

definition final_flush :: "('r, 'c) ilp_env \<Rightarrow> 'r IlpConn \<Rightarrow> 'r IlpConn" where
  "final_flush env c = (case flush env (ic_fwd c) of (r, fwd') \<Rightarrow> c\<lparr>ic_fwd := fwd', ic_phase := Ended r\<rparr>)"

definition read_step :: "('r, 'c) ilp_env \<Rightarrow> 'r IlpConn \<Rightarrow> 'r IlpConn" where
  "read_step env c =
     (case ic_reads c of
        [] \<Rightarrow> final_flush env c
      | Inl e # reads \<Rightarrow> c\<lparr>ic_reads := reads, ic_phase := Ended (Inl (IoFailed e))\<rparr>
      | Inr chunk # reads \<Rightarrow>
          if chunk = [] then final_flush env (c\<lparr>ic_reads := reads\<rparr>)
          else c\<lparr>ic_reads := reads, ic_buf := ic_buf c @ chunk, ic_input := ic_input c @ chunk, ic_phase := Draining\<rparr>)"

definition drain_step ::
    "('r, 'c) ilp_env \<Rightarrow> ('r, 'c, 'k) AppState \<Rightarrow> 'r IlpConn \<Rightarrow> 'r IlpConn \<times> ('r, 'c, 'k) AppState" where
  "drain_step env st c =
     (case (if ic_buf c = [] then None else env_memchr env NL (ic_buf c)) of
        None \<Rightarrow>
          (case flush env (ic_fwd c) of
             (Inl e, fwd') \<Rightarrow> (c\<lparr>ic_fwd := fwd', ic_phase := Ended (Inl e)\<rparr>, st)
           | (Inr _, fwd') \<Rightarrow> (c\<lparr>ic_fwd := fwd', ic_phase := Reading\<rparr>, st))
      | Some newline \<Rightarrow>
          (let line = take (newline + 1) (ic_buf c);
               c1 = c\<lparr>ic_buf := drop (newline + 1) (ic_buf c), ic_log := ic_log c @ [(as_metadata st, line)]\<rparr>
           in case forward_line env st (ic_fwd c) line of
                (Inl e, st', fwd') \<Rightarrow> (c1\<lparr>ic_fwd := fwd', ic_phase := Ended (Inl e)\<rparr>, st')
              | (Inr _, st', fwd') \<Rightarrow> (c1\<lparr>ic_fwd := fwd'\<rparr>, st')))"

definition conn_step ::
    "('r, 'c) ilp_env \<Rightarrow> ('r, 'c, 'k) AppState \<Rightarrow> 'r IlpConn \<Rightarrow> ('r IlpConn \<times> ('r, 'c, 'k) AppState) option" where
  "conn_step env st c =
     (case ic_phase c of
        Reading \<Rightarrow> Some (read_step env c, st)
      | Draining \<Rightarrow> Some (drain_step env st c)
      | Ended _ \<Rightarrow> None)"

section \<open>The listener\<close>

record ('r, 'c, 'k) IlpServer =
  il_app :: "('r, 'c, 'k) AppState"
  il_conns :: "'r IlpConn list"
  il_result :: "string option"

definition ilp_bind :: "(SocketAddr \<Rightarrow> string + unit) \<Rightarrow> SocketAddr \<Rightarrow> ('r, 'c, 'k) AppState \<Rightarrow> string + ('r, 'c, 'k) IlpServer" where
  "ilp_bind bind listen st =
     (case bind listen of Inl e \<Rightarrow> Inl e | Inr _ \<Rightarrow> Inr \<lparr> il_app = st, il_conns = [], il_result = None \<rparr>)"

definition ilp_accept :: "string + (string + bytes) list \<Rightarrow> ('r, 'c, 'k) IlpServer \<Rightarrow> ('r, 'c, 'k) IlpServer" where
  "ilp_accept socket s =
     (case socket of
        Inl e \<Rightarrow> s\<lparr>il_result := Some e\<rparr>
      | Inr reads \<Rightarrow> s\<lparr>il_conns := il_conns s @ [conn_start reads]\<rparr>)"

inductive ilp_step :: "('r, 'c) ilp_env \<Rightarrow> ('r, 'c, 'k) IlpServer \<Rightarrow> ('r, 'c, 'k) IlpServer \<Rightarrow> bool" for env where
  accepted: "il_result s = None \<Longrightarrow> ilp_step env s (ilp_accept socket s)"
| conn: "i < length (il_conns s) \<Longrightarrow> conn_step (env\<lparr>env_net := net\<rparr>) (il_app s) (il_conns s ! i) = Some (c', st') \<Longrightarrow>
     ilp_step env s (s\<lparr>il_conns := (il_conns s)[i := c'], il_app := st'\<rparr>)"
| reported: "ilp_step env s (s\<lparr>il_app := (il_app s)\<lparr>as_metadata := metadata', as_stream := stream'\<rparr>\<rparr>)"

section \<open>Specification vocabulary\<close>

text \<open>What a shard is owed of the lines of a log, each routed with the snapshot recorded for it.\<close>

definition owed :: "('r, 'c) ilp_env \<Rightarrow> u32 \<Rightarrow> ('r MetadataHandle \<times> bytes) list \<Rightarrow> bytes" where
  "owed env i log = concat (map (\<lambda>(md, line). if goes_to env md i line then terminated line else []) log)"

definition failed :: "'r IlpConn \<Rightarrow> bool" where
  "failed c \<longleftrightarrow> (\<exists>e. ic_phase c = Ended (Inl e))"

definition framed :: "bytes \<Rightarrow> bool" where
  "framed line \<longleftrightarrow> (\<exists>x. line = x @ [NL] \<and> NL \<notin> set x)"

text \<open>
  The invariant of a connection. Its log holds the complete lines at the front of its input; a connection that has
  not failed still has the rest in its buffer and has taken for each shard what the shard is owed, and a failed one
  has taken a prefix of that.
\<close>

definition conn_inv :: "('r, 'c) ilp_env \<Rightarrow> 'r IlpConn \<Rightarrow> bool" where
  "conn_inv env c \<longleftrightarrow>
     finite (dom (ic_fwd c)) \<and> buffers_bounded (ic_fwd c)
   \<and> (\<forall>(md, line) \<in> set (ic_log c). framed line)
   \<and> (\<forall>i. prefix (taken (ic_fwd c) i) (owed env i (ic_log c)))
   \<and> prefix (concat (map snd (ic_log c))) (ic_input c)
   \<and> (\<not> failed c \<longrightarrow> (\<forall>i. taken (ic_fwd c) i = owed env i (ic_log c))
       \<and> ic_input c = concat (map snd (ic_log c)) @ ic_buf c)
   \<and> (ic_phase c = Reading \<longrightarrow> NL \<notin> set (ic_buf c))
   \<and> (\<forall>x. ic_phase c = Ended (Inr x) \<longrightarrow> NL \<notin> set (ic_buf c) \<and> (\<forall>i. received (ic_fwd c) i = taken (ic_fwd c) i))"

text \<open>A change of the write buffers that may lose what was buffered, but adds nothing.\<close>

definition sheds :: "IlpForwarder \<Rightarrow> IlpForwarder \<Rightarrow> bool" where
  "sheds fwd' fwd \<longleftrightarrow> (\<forall>i. prefix (taken fwd' i) (taken fwd i)) \<and> (finite (dom fwd) \<longrightarrow> finite (dom fwd'))
     \<and> (buffers_bounded fwd \<longrightarrow> buffers_bounded fwd')"

section \<open>Lemmas\<close>

subsection \<open>Failures\<close>

lemma sheds_refl [simp]: "sheds fwd fwd"
  by (simp add: sheds_def)

lemma sheds_trans: "sheds c b \<Longrightarrow> sheds b a \<Longrightarrow> sheds c a"
  unfolding sheds_def by (meson prefix_order.trans)

lemma sheds_upd:
  assumes "prefix (up_written u @ up_buf u) (taken fwd i)" and "length (up_buf u) < SHARD_BUF_FLUSH_BYTES"
  shows "sheds (fwd(i \<mapsto> u)) fwd"
  using assms by (simp add: sheds_def taken_upd bounded_upd)

lemma write_out_cases:
  "write_out net u = (r, u') \<Longrightarrow> prefix (up_written u' @ up_buf u') (up_written u @ up_buf u) \<and> up_buf u' = []"
  by (auto simp: write_out_def take_is_prefix split: sum.splits)

lemma flush_one_sheds:
  assumes "flush_one net i fwd = (r, fwd')"
  shows "sheds fwd' fwd"
proof (cases "fwd i")
  case None
  with assms show ?thesis by (simp add: flush_one_def)
next
  case (Some u)
  have "\<exists>u'. fwd' = fwd(i \<mapsto> u') \<and> prefix (up_written u' @ up_buf u') (up_written u @ up_buf u) \<and> (up_buf u' = [])"
  proof (cases "up_buf u = []")
    case True
    with assms Some show ?thesis by (auto simp: flush_one_def split: sum.splits)
  next
    case False
    obtain w u' where w: "write_out net u = (w, u')" by (cases "write_out net u")
    with assms Some False write_out_cases [OF w] show ?thesis
      by (auto simp: flush_one_def split: sum.splits)
  qed
  then show ?thesis using Some by (auto intro!: sheds_upd simp: taken_def SHARD_BUF_FLUSH_BYTES_def)
qed

lemma flush_loop_sheds: "flush_loop net is fwd = (r, fwd') \<Longrightarrow> sheds fwd' fwd"
proof (induction "is" arbitrary: fwd)
  case (Cons i "is")
  obtain r1 fwd1 where one: "flush_one net i fwd = (r1, fwd1)" by (cases "flush_one net i fwd")
  from Cons.prems one Cons.IH [of fwd1] flush_one_sheds [OF one] show ?case
    by (auto split: sum.splits intro: sheds_trans)
qed simp

lemma flush_sheds: "flush env fwd = (r, fwd') \<Longrightarrow> sheds fwd' fwd"
  unfolding flush_def by (rule flush_loop_sheds)

text \<open>A line that fails to be forwarded may have been sent in part.\<close>

lemma route_fails:
  assumes "route_and_buffer env st fwd line = (Inl e, st', fwd')"
  shows "prefix (taken fwd' i) (taken fwd i @ (if goes_to env (as_metadata st) i line then terminated line else []))"
    and "finite (dom fwd) \<Longrightarrow> finite (dom fwd')" and "buffers_bounded fwd \<Longrightarrow> buffers_bounded fwd'"
proof -
  consider (unchanged) "fwd' = fwd"
    | (cut) shard u u' r where "takeWhile (\<lambda>b. b \<noteq> NL) line \<noteq> []" "route_line env (as_metadata st) line = Inr shard"
        "open_upstream (env_net env) shard fwd = Inr u"
        "write_out (env_net env) (u\<lparr>up_buf := up_buf u @ terminated line\<rparr>) = (r, u')" "fwd' = fwd(sc_id shard \<mapsto> u')"
  proof (cases "route_line env (as_metadata st) line")
    case (Inl e')
    with assms that(1) show ?thesis by (auto simp: route_and_buffer_def split: if_splits)
  next
    case (Inr shard)
    show ?thesis
    proof (cases "open_upstream (env_net env) shard fwd")
      case (Inl e')
      with Inr assms that(1) show ?thesis by (auto simp: route_and_buffer_def split: if_splits)
    next
      case up: (Inr u)
      obtain r u' where w: "write_out (env_net env) (u\<lparr>up_buf := up_buf u @ terminated line\<rparr>) = (r, u')" by fastforce
      with Inr up assms that(2) [OF _ Inr up w] show ?thesis
        by (auto simp: route_and_buffer_def Let_def terminated_def split: if_splits sum.splits)
    qed
  qed
  then have "prefix (taken fwd' i) (taken fwd i @ (if goes_to env (as_metadata st) i line then terminated line else []))
    \<and> (finite (dom fwd) \<longrightarrow> finite (dom fwd')) \<and> (buffers_bounded fwd \<longrightarrow> buffers_bounded fwd')"
  proof cases
    case cut
    have t: "taken fwd (sc_id shard) @ terminated line = up_written u @ up_buf u @ terminated line"
      using open_upstream_ok [OF cut(3)] by (metis append.assoc)
    from write_out_cases [OF cut(4)] cut show ?thesis
      by (auto simp: t goes_to_def taken_upd bounded_upd SHARD_BUF_FLUSH_BYTES_def)
  qed simp
  then show "prefix (taken fwd' i) (taken fwd i @ (if goes_to env (as_metadata st) i line then terminated line else []))"
    and "finite (dom fwd) \<Longrightarrow> finite (dom fwd')" and "buffers_bounded fwd \<Longrightarrow> buffers_bounded fwd'" by blast+
qed

subsection \<open>One connection\<close>

lemma complete_lines_framed:
  "framed line \<Longrightarrow> complete_lines (line @ s) = line # complete_lines s"
  by (auto simp: framed_def complete_lines.simps [of "_ @ NL # s"] position_skip)

lemma complete_lines_log:
  "\<forall>line \<in> set ls. framed line \<Longrightarrow> complete_lines (concat ls @ s) = ls @ complete_lines s"
  by (induction ls) (simp_all add: complete_lines_framed)

lemma first_line_framed:
  assumes "position (\<lambda>b. b = NL) buf = Some n"
  shows "framed (take (Suc n) buf)"
proof -
  from position_SomeD [OF assms] have n: "n < length buf" "buf ! n = NL" "\<forall>j < n. buf ! j \<noteq> NL" by auto
  then have "take (Suc n) buf = take n buf @ [NL]" by (simp add: take_Suc_conv_app_nth)
  moreover have "NL \<notin> set (take n buf)" using n by (auto simp: in_set_conv_nth)
  ultimately show ?thesis unfolding framed_def by blast
qed

lemma owed_append: "owed env i (log @ log') = owed env i log @ owed env i log'"
  by (simp add: owed_def)

lemma net_irrelevant [simp]: "goes_to (env\<lparr>env_net := net\<rparr>) md i line = goes_to env md i line"
  by (simp add: goes_to_def route_line_def)

lemma net_irrelevant_inv [simp]:
  "owed (env\<lparr>env_net := net\<rparr>) = owed env" "conn_inv (env\<lparr>env_net := net\<rparr>) c = conn_inv env c"
  by (simp_all add: owed_def conn_inv_def fun_eq_iff)

lemma conn_inv_start: "conn_inv env (conn_start reads)"
  by (simp add: conn_inv_def conn_start_def forwarder_new_def owed_def taken_def buffers_bounded_def failed_def)

text \<open>A failure keeps the invariant, whatever it does to the buffers and to the unread bytes.\<close>

lemma conn_inv_failed:
  assumes "conn_inv env c" and "sheds fwd' (ic_fwd c)"
    and "c' = c\<lparr>ic_reads := reads, ic_buf := buf, ic_fwd := fwd', ic_phase := Ended (Inl e)\<rparr>"
  shows "conn_inv env c'"
  using assms unfolding conn_inv_def sheds_def failed_def by (auto intro: prefix_order.trans)

text \<open>A flush that succeeds leaves everything taken written.\<close>

lemma conn_inv_flushed:
  assumes "conn_inv env c" and "\<not> failed c" and "NL \<notin> set (ic_buf c)" and "order_ok env"
    and "flush env (ic_fwd c) = (Inr x, fwd')"
    and "c' = c\<lparr>ic_reads := reads, ic_fwd := fwd', ic_phase := p\<rparr>" and "p = Reading \<or> p = Ended (Inr y)"
  shows "conn_inv env c'"
proof -
  from assms(1) have "finite (dom (ic_fwd c))" by (simp add: conn_inv_def)
  note f = flush_ok [OF assms(5,4) this]
  from assms(1,2,3,7) f show ?thesis
    unfolding conn_inv_def assms(6) failed_def by auto
qed

lemma final_flush_inv:
  assumes "conn_inv env c" and "\<not> failed c" and "NL \<notin> set (ic_buf c)" and "order_ok env"
  shows "conn_inv env (final_flush env (c\<lparr>ic_reads := reads\<rparr>))"
proof -
  obtain r fwd' where f: "flush env (ic_fwd c) = (r, fwd')" by (cases "flush env (ic_fwd c)")
  show ?thesis
  proof (cases r)
    case (Inl e)
    with f show ?thesis
      by (auto simp: final_flush_def intro: conn_inv_failed [OF assms(1) flush_sheds [OF f], where buf = "ic_buf c"])
  next
    case (Inr x)
    with f show ?thesis
      by (auto simp: final_flush_def intro: conn_inv_flushed [OF assms])
  qed
qed

lemma read_step_inv:
  assumes "conn_inv env c" and "ic_phase c = Reading" and "order_ok env"
  shows "conn_inv env (read_step env c)"
proof -
  from assms(1,2) have nf: "\<not> failed c" and nl: "NL \<notin> set (ic_buf c)" by (simp_all add: conn_inv_def failed_def)
  note ff = final_flush_inv [OF assms(1) nf nl assms(3)]
  show ?thesis
  proof (cases "ic_reads c")
    case Nil
    have "conn_inv env (final_flush env c)" using ff [of "ic_reads c"] by simp
    with Nil show ?thesis by (simp add: read_step_def)
  next
    case (Cons r reads)
    show ?thesis
    proof (cases r)
      case (Inl e)
      with Cons show ?thesis
        by (auto simp: read_step_def intro: conn_inv_failed [OF assms(1) sheds_refl, where buf = "ic_buf c"])
    next
      case (Inr chunk)
      with Cons assms(1) nf ff [of reads] show ?thesis
        by (auto simp: read_step_def conn_inv_def failed_def prefix_def)
    qed
  qed
qed

lemma drain_step_inv:
  assumes inv: "conn_inv env c" and ph: "ic_phase c = Draining" and "order_ok env" and mc: "env_memchr env = memchr_ref"
    and step: "drain_step env st c = (c', st')"
  shows "conn_inv env c'"
proof -
  from ph have nf: "\<not> failed c" by (simp add: failed_def)
  show ?thesis
  proof (cases "position (\<lambda>b. b = NL) (ic_buf c)")
    case None
    then have nl: "NL \<notin> set (ic_buf c)" by (auto simp: position_None_iff)
    from None have search: "(if ic_buf c = [] then None else env_memchr env NL (ic_buf c)) = None"
      by (simp add: mc memchr_ref_def)
    obtain r fwd' where f: "flush env (ic_fwd c) = (r, fwd')" by (cases "flush env (ic_fwd c)")
    show ?thesis
    proof (cases r)
      case (Inl e)
      with f search step show ?thesis
        by (auto simp: drain_step_def
            intro: conn_inv_failed [OF inv flush_sheds [OF f], where buf = "ic_buf c" and reads = "ic_reads c"])
    next
      case (Inr x)
      with f search step show ?thesis
        by (auto simp: drain_step_def intro: conn_inv_flushed [OF inv nf nl assms(3), where reads = "ic_reads c"])
    qed
  next
    case (Some n)
    then have search: "(if ic_buf c = [] then None else env_memchr env NL (ic_buf c)) = Some n"
      by (auto simp: mc memchr_ref_def)
    let ?line = "take (Suc n) (ic_buf c)"
    obtain r st1 fwd' where f: "forward_line env st (ic_fwd c) ?line = (r, st1, fwd')"
      by (metis prod_cases3)
    note r = f [unfolded forward_line_def]
    show ?thesis
    proof (cases r)
      case (Inl e)
      with f step search have c': "c' = c\<lparr>ic_buf := drop (Suc n) (ic_buf c), ic_log := ic_log c @ [(as_metadata st, ?line)],
          ic_fwd := fwd', ic_phase := Ended (Inl e)\<rparr>"
        by (auto simp: drain_step_def Let_def)
      note cut = route_fails [OF r [unfolded Inl]]
      from inv nf cut first_line_framed [OF Some] show ?thesis
        unfolding conn_inv_def c' failed_def by (auto simp: owed_append take_is_prefix) (auto simp: owed_def)
    next
      case (Inr x)
      with f step search have c': "c' = c\<lparr>ic_buf := drop (Suc n) (ic_buf c), ic_log := ic_log c @ [(as_metadata st, ?line)], ic_fwd := fwd'\<rparr>"
        by (auto simp: drain_step_def Let_def)
      note ok = route_and_buffer_ok [OF r [unfolded Inr]]
      from inv nf ph ok first_line_framed [OF Some] show ?thesis
        unfolding conn_inv_def c' failed_def by (auto simp: owed_append take_is_prefix) (auto simp: owed_def)
    qed
  qed
qed

lemma conn_step_inv:
  assumes "conn_step env st c = Some (c', st')" and "conn_inv env c" and "order_ok env" and "env_memchr env = memchr_ref"
  shows "conn_inv env c'"
  using assms read_step_inv [OF assms(2) _ assms(3)] drain_step_inv [OF assms(2) _ assms(3,4)]
  by (auto simp: conn_step_def split: ConnPhase.splits)

subsection \<open>The listener\<close>

definition server_inv :: "('r, 'c) ilp_env \<Rightarrow> ('r, 'c, 'k) IlpServer \<Rightarrow> bool" where
  "server_inv env s \<longleftrightarrow> (\<forall>c \<in> set (il_conns s). conn_inv env c)"

lemma ilp_step_inv:
  assumes "ilp_step env s s'" and "server_inv env s" and "order_ok env" and "env_memchr env = memchr_ref"
  shows "server_inv env s'"
  using assms(1)
proof cases
  case (accepted socket)
  with assms(2) show ?thesis by (auto simp: server_inv_def ilp_accept_def conn_inv_start split: sum.splits)
next
  case (conn i net c' st')
  have "conn_inv env (il_conns s ! i)" using assms(2) conn(2) by (simp add: server_inv_def)
  then have "conn_inv (env\<lparr>env_net := net\<rparr>) c'"
    using assms(3,4) by (intro conn_step_inv [OF conn(3)]) (simp_all add: order_ok_def)
  with assms(2) conn show ?thesis by (auto simp: server_inv_def dest: set_update_subset_insert [THEN subsetD])
next
  case (reported metadata' stream')
  with assms(2) show ?thesis by (simp add: server_inv_def)
qed

text \<open>The invariant of the listener, for a byte search and an order of the buffers as documented.\<close>

definition ilp_inv :: "('r, 'c) ilp_env \<Rightarrow> ('r, 'c, 'k) IlpServer \<Rightarrow> bool" where
  "ilp_inv env s \<longleftrightarrow> order_ok env \<and> env_memchr env = memchr_ref \<and> server_inv env s"

interpretation ilp_sys: step_system "ilp_step env" "ilp_inv env" for env
  by unfold_locales (auto simp: ilp_inv_def intro: ilp_step_inv)

text \<open>What the invariant says of one connection.\<close>

lemma conn_inv_received: "conn_inv env c \<Longrightarrow> prefix (received (ic_fwd c) i) (owed env i (ic_log c))"
  using prefix_order.trans [of "received (ic_fwd c) i" "taken (ic_fwd c) i"]
  by (simp add: conn_inv_def received_def taken_def split: option.splits)

lemma conn_inv_log:
  assumes "conn_inv env c"
  shows "prefix (map snd (ic_log c)) (complete_lines (ic_input c))"
    and "\<not> failed c \<Longrightarrow> NL \<notin> set (ic_buf c) \<Longrightarrow> map snd (ic_log c) = complete_lines (ic_input c)"
proof -
  from assms have fr: "\<forall>line \<in> set (map snd (ic_log c)). framed line" by (auto simp: conn_inv_def)
  from assms obtain rest where "ic_input c = concat (map snd (ic_log c)) @ rest" by (auto simp: conn_inv_def prefix_def)
  with complete_lines_log [OF fr] show "prefix (map snd (ic_log c)) (complete_lines (ic_input c))" by simp
  show "map snd (ic_log c) = complete_lines (ic_input c)" if "\<not> failed c" "NL \<notin> set (ic_buf c)"
    using assms that complete_lines_log [OF fr, of "ic_buf c"] by (simp add: conn_inv_def complete_lines_clean)
qed

lemma conn_inv_ended:
  assumes "conn_inv env c" and "ic_phase c = Ended (Inr x)"
  shows "map snd (ic_log c) = complete_lines (ic_input c)" and "received (ic_fwd c) i = owed env i (ic_log c)"
proof -
  from assms(2) have nf: "\<not> failed c" by (simp add: failed_def)
  from assms have nl: "NL \<notin> set (ic_buf c)" by (simp add: conn_inv_def)
  show "map snd (ic_log c) = complete_lines (ic_input c)" by (rule conn_inv_log(2) [OF assms(1) nf nl])
  show "received (ic_fwd c) i = owed env i (ic_log c)" using assms nf by (simp add: conn_inv_def)
qed

text \<open>What a shard is owed as the list of the whole lines that belong to it.\<close>

lemma owed_lines:
  "\<forall>(md, line) \<in> set lg. framed line \<Longrightarrow>
     owed env i lg = concat (map snd (filter (\<lambda>(md, line). goes_to env md i line) lg))"
  by (induction lg) (auto simp: owed_def framed_def terminated_def)

lemma filter_logged:
  "(\<And>md line. (md, line) \<in> set lg \<Longrightarrow> P line \<Longrightarrow> g md line = b) \<Longrightarrow>
     filter P (map snd (filter (\<lambda>(md, line). g md line) lg)) = (if b then filter P (map snd lg) else [])"
  by (induction lg) auto

subsection \<open>Uninterrupted connections\<close>

text \<open>The steps of one connection with nothing in between, for at most \<open>n\<close> steps.\<close>

fun conn_steps ::
    "('r, 'c) ilp_env \<Rightarrow> nat \<Rightarrow> ('r, 'c, 'k) AppState \<Rightarrow> 'r IlpConn \<Rightarrow> 'r IlpConn \<times> ('r, 'c, 'k) AppState" where
  "conn_steps env 0 st c = (c, st)"
| "conn_steps env (Suc n) st c =
     (case conn_step env st c of None \<Rightarrow> (c, st) | Some (c', st') \<Rightarrow> conn_steps env n st' c')"

text \<open>
  Draining a buffer of \<open>length (ic_buf c)\<close> bytes takes at most that many lines and one flush, so a connection needs at
  most one step for each byte, two for each read and one for the last flush.
\<close>

definition conn_fuel :: "'r IlpConn \<Rightarrow> nat" where
  "conn_fuel c = length (ic_buf c) + sum_list (map (\<lambda>r. case r of Inl _ \<Rightarrow> 1 | Inr chunk \<Rightarrow> length chunk + 2) (ic_reads c))
     + (case ic_phase c of Reading \<Rightarrow> 1 | Draining \<Rightarrow> 2 | Ended _ \<Rightarrow> 0)"

lemma conn_step_fuel:
  assumes "conn_step env st c = Some (c', st')" and "env_memchr env = memchr_ref"
  shows "conn_fuel c' < conn_fuel c"
proof (cases "ic_phase c")
  case Reading
  with assms show ?thesis
    by (auto simp: conn_step_def read_step_def final_flush_def conn_fuel_def split: list.splits sum.splits if_splits prod.splits)
next
  case Draining
  with assms show ?thesis
    by (auto simp: conn_step_def drain_step_def Let_def conn_fuel_def memchr_ref_def
        split: option.splits sum.splits if_splits prod.splits ConnPhase.splits)
next
  case (Ended r)
  with assms show ?thesis by (simp add: conn_step_def)
qed

lemma conn_steps_ended [simp]: "ic_phase c = Ended r \<Longrightarrow> conn_steps env n st c = (c, st)"
  by (cases n) (simp_all add: conn_step_def)

lemma conn_steps_add:
  "conn_steps env (m + n) st c = (case conn_steps env m st c of (c', st') \<Rightarrow> conn_steps env n st' c')"
proof (induction m arbitrary: st c)
  case (Suc m)
  show ?case
  proof (cases "conn_step env st c")
    case None
    then show ?thesis by (cases n) simp_all
  qed (use Suc in \<open>auto split: prod.splits\<close>)
qed simp

text \<open>What a connection still has to do, in the functions of the sequential model.\<close>

definition conn_rest ::
    "('r, 'c) ilp_env \<Rightarrow> ('r, 'c, 'k) AppState \<Rightarrow> 'r IlpConn \<Rightarrow> (ForwardError + unit) \<times> ('r, 'c, 'k) AppState \<times> IlpForwarder" where
  "conn_rest env st c =
     (case ic_phase c of
        Ended r \<Rightarrow> (r, st, ic_fwd c)
      | Reading \<Rightarrow> connection_loop env (ic_reads c) (ic_buf c) st (ic_fwd c)
      | Draining \<Rightarrow>
          (case drain_lines env (ic_buf c) st (ic_fwd c) of
             (Inl e, st', fwd') \<Rightarrow> (Inl e, st', fwd')
           | (Inr rest, st', fwd') \<Rightarrow>
               (case flush env fwd' of
                  (Inl e, fwd'') \<Rightarrow> (Inl e, st', fwd'')
                | (Inr _, fwd'') \<Rightarrow> connection_loop env (ic_reads c) rest st' fwd'')))"

lemma conn_step_rest:
  assumes "conn_step env st c = Some (c', st')"
  shows "conn_rest env st' c' = conn_rest env st c"
proof (cases "ic_phase c")
  case Reading
  with assms show ?thesis
    by (auto simp: conn_step_def read_step_def final_flush_def conn_rest_def split: list.splits sum.splits if_splits prod.splits)
next
  case Draining
  let ?search = "if ic_buf c = [] then None else env_memchr env NL (ic_buf c)"
  note unfold = drain_lines.simps [of env "ic_buf c" st "ic_fwd c"]
  from assms Draining have step: "drain_step env st c = (c', st')" by (simp add: conn_step_def)
  show ?thesis
  proof (cases ?search)
    case None
    obtain r fwd' where f: "flush env (ic_fwd c) = (r, fwd')" by (cases "flush env (ic_fwd c)")
    with None Draining step unfold show ?thesis by (cases r) (auto simp: drain_step_def conn_rest_def)
  next
    case (Some n)
    obtain r st1 fwd' where f: "forward_line env st (ic_fwd c) (take (n + 1) (ic_buf c)) = (r, st1, fwd')"
      by (metis prod_cases3)
    with Some Draining step unfold show ?thesis by (cases r) (auto simp: drain_step_def conn_rest_def Let_def cong: prod.case_cong sum.case_cong)
  qed
next
  case (Ended r)
  with assms show ?thesis by (simp add: conn_step_def)
qed

lemma conn_steps_rest: "conn_steps env n st c = (c', st') \<Longrightarrow> conn_rest env st' c' = conn_rest env st c"
proof (induction n arbitrary: st c)
  case (Suc n)
  then show ?case by (auto split: option.splits prod.splits dest: conn_step_rest)
qed simp

lemma conn_steps_end:
  assumes "env_memchr env = memchr_ref"
  shows "conn_fuel c \<le> n \<Longrightarrow> \<exists>r. ic_phase (fst (conn_steps env n st c)) = Ended r"
proof (induction n arbitrary: st c)
  case 0
  then show ?case by (simp add: conn_fuel_def split: ConnPhase.splits)
next
  case (Suc n)
  show ?case
  proof (cases "conn_step env st c")
    case None
    then show ?thesis by (simp add: conn_step_def split: ConnPhase.splits)
  next
    case (Some x)
    then obtain c' st' where x: "conn_step env st c = Some (c', st')" by (cases x) simp
    from conn_step_fuel [OF x assms] Suc.prems Suc.IH [of c' st'] x show ?thesis by simp
  qed
qed

lemma conn_steps_run:
  "conn_steps env n (il_app s) (il_conns s ! i) = (c', st') \<Longrightarrow> rtranclp (ilp_step env) s0 s \<Longrightarrow> i < length (il_conns s) \<Longrightarrow>
     rtranclp (ilp_step env) s0 (s\<lparr>il_conns := (il_conns s)[i := c'], il_app := st'\<rparr>)"
proof (induction n arbitrary: s)
  case (Suc n)
  show ?case
  proof (cases "conn_step env (il_app s) (il_conns s ! i)")
    case (Some x)
    then obtain c1 st1 where x: "conn_step env (il_app s) (il_conns s ! i) = Some (c1, st1)" by (cases x) simp
    let ?s1 = "s\<lparr>il_conns := (il_conns s)[i := c1], il_app := st1\<rparr>"
    have "ilp_step env s ?s1" using x Suc.prems(3) by (intro conn [where net = "env_net env"]) simp_all
    from rtranclp.rtrancl_into_rtrancl [OF Suc.prems(2) this] Suc.IH [of ?s1] Suc.prems x show ?thesis by simp
  qed (use Suc.prems in auto)
qed auto

text \<open>A connection for the witnesses: one line for the first of the two shards.\<close>

definition one_line :: bytes where
  "one_line = ''t,symbol=A x=1'' @ [NL]"

lemma one_line_key: "ilp_line_key memchr_ref (as_metadata demo_ilp_app) one_line = ''A''"
  by (simp add: ilp_line_key_def one_line_def demo_ilp_app_def spawn_handle_def registry_from_config_def
      shard_key_for_def registry_get_def) code_simp

lemma one_line_simps:
  "complete_lines one_line = [one_line]" "terminated one_line = one_line" "one_line \<noteq> []"
  "goes_to (demo_env net) (as_metadata demo_ilp_app) 0 one_line"
  "position (\<lambda>b. b = NL) one_line = Some 14" "take 15 one_line = one_line" "drop 15 one_line = []"
proof -
  show "goes_to (demo_env net) (as_metadata demo_ilp_app) 0 one_line"
    by (simp add: goes_to_def demo_route one_line_key) (simp add: demo_pair_def one_line_def)
qed (simp_all add: one_line_def complete_lines.simps terminated_def)

lemma demo_forward:
  "forward_line (demo_env good_net) demo_ilp_app forwarder_new one_line =
     (Inr (), demo_ilp_app, forwarder_new(0 \<mapsto> \<lparr> up_address = ''a'', up_written = [], up_buf = one_line \<rparr>))"
  by (simp add: forward_line_def route_and_buffer_def demo_route one_line_key open_upstream_def demo_pair_def forwarder_new_def
      good_net_def SHARD_BUF_FLUSH_BYTES_def) (simp add: one_line_def)

lemma demo_conn:
  "conn_steps (demo_env good_net) 4 demo_ilp_app (conn_start [Inr one_line]) =
     (\<lparr> ic_reads = [], ic_buf = [], ic_fwd = forwarder_new(0 \<mapsto> \<lparr> up_address = ''a'', up_written = one_line, up_buf = [] \<rparr>),
        ic_phase = Ended (Inr ()), ic_input = one_line, ic_log = [(as_metadata demo_ilp_app, one_line)] \<rparr>, demo_ilp_app)"
proof -
  have fl: "flush (demo_env good_net) (forwarder_new(0 \<mapsto> \<lparr> up_address = ''a'', up_written = w, up_buf = b \<rparr>)) =
      (Inr (), forwarder_new(0 \<mapsto> \<lparr> up_address = ''a'', up_written = w @ b, up_buf = [] \<rparr>))" for w b
    by (simp add: flush_def demo_env_def forwarder_new_def flush_one_def write_out_def good_net_def)
  have four: "4 = Suc (Suc (Suc (Suc 0)))" by simp
  show ?thesis
    by (simp add: four conn_step_def conn_start_def read_step_def drain_step_def final_flush_def
        memchr_ref_def one_line_simps demo_forward fl)
qed

section \<open>Properties\<close>

text \<open>
  C3. The write path under concurrency. However the tasks of any number of connections interleave, whatever
  health reports arrive in between and whenever the network fails, what a shard has received from a connection is at
  every moment a prefix of the complete lines of that connection that belong to the shard, in the order the client sent them, each
  line routed with the snapshot in force when it was forwarded: no line is duplicated, reordered, split across shards
  or mixed with those of another connection, and only a failed write can leave the last one cut off. When the connection has ended without an error every complete line
  it sent has been forwarded and every shard has received exactly what belongs to it.
\<close>

theorem connections_never_mix_lines:
  assumes "rtranclp (ilp_step env) s s'" and "il_conns s = []" and "memchr_spec (env_memchr env)" and "order_ok env" and "c \<in> set (il_conns s')"
  shows "prefix (received (ic_fwd c) i) (owed env i (ic_log c))
    \<and> prefix (map snd (ic_log c)) (complete_lines (ic_input c))
    \<and> buffers_bounded (ic_fwd c)
    \<and> (ic_phase c = Ended (Inr ()) \<longrightarrow>
        map snd (ic_log c) = complete_lines (ic_input c) \<and> received (ic_fwd c) i = owed env i (ic_log c))"
proof -
  have "ilp_inv env s" using assms(2-4) by (simp add: ilp_inv_def server_inv_def memchr_specD)
  from ilp_sys.reachable_inv [OF assms(1) this] have "server_inv env s'" by (simp add: ilp_inv_def)
  with assms(5) have inv: "conn_inv env c" by (simp add: server_inv_def)
  from inv have "buffers_bounded (ic_fwd c)" by (simp add: conn_inv_def)
  with conn_inv_received [OF inv] conn_inv_log(1) [OF inv] conn_inv_ended [OF inv] show ?thesis by blast
qed

theorem connections_never_mix_lines_witness:
  "\<exists>s'. rtranclp (ilp_step (demo_env good_net)) \<lparr> il_app = demo_ilp_app, il_conns = [], il_result = None \<rparr> s'
     \<and> length (il_conns s') = 2 \<and> failed (il_conns s' ! 1)
     \<and> ic_phase (il_conns s' ! 0) = Ended (Inr ()) \<and> received (ic_fwd (il_conns s' ! 0)) 0 = one_line"
proof -
  let ?env = "demo_env good_net"
  let ?s0 = "\<lparr> il_app = demo_ilp_app, il_conns = [], il_result = None \<rparr> :: (VNode list, nat \<times> StreamTick list, nat) IlpServer"
  let ?s1 = "ilp_accept (Inr [Inl ''reset'']) (ilp_accept (Inr [Inr one_line]) ?s0)"
  have one: "rtranclp (ilp_step ?env) ?s0 (ilp_accept (Inr [Inr one_line]) ?s0)"
    by (rule r_into_rtranclp) (rule accepted, simp)
  have two: "rtranclp (ilp_step ?env) ?s0 ?s1" by (rule rtranclp.rtrancl_into_rtrancl [OF one]) (rule accepted, simp add: ilp_accept_def)
  obtain c st' where "conn_steps ?env 1 (il_app ?s1) (il_conns ?s1 ! 1) = (c, st')" and c: "failed c" "st' = demo_ilp_app"
    by (simp add: ilp_accept_def conn_step_def conn_start_def read_step_def failed_def)
  from conn_steps_run [OF this(1) two] c have reset: "rtranclp (ilp_step ?env) ?s0 (?s1\<lparr>il_conns := [conn_start [Inr one_line], c]\<rparr>)"
    by (simp add: ilp_accept_def)
  note run = conn_steps_run [OF _ reset, where i = 0, simplified, unfolded ilp_accept_def, simplified, OF demo_conn]
  from connections_never_mix_lines [OF run, where i = 0 and c = "fst (conn_steps ?env 4 demo_ilp_app (conn_start [Inr one_line]))"]
  have "received (ic_fwd (fst (conn_steps ?env 4 demo_ilp_app (conn_start [Inr one_line])))) 0 = one_line"
    by (simp add: demo_conn owed_def one_line_simps)
  with run c show ?thesis by (intro exI) (auto simp: demo_conn)
qed

text \<open>
  C27. A connection always ends, and left alone it does what its task does: after at most one step for each byte, two for
  each read and one more, the steps of the connection have reached the result, the write buffers and the state of
  \<open>handle_connection\<close> on the same reads.
\<close>

theorem connection_steps_are_handle_connection:
  assumes "memchr_spec (env_memchr env)" and "conn_fuel (conn_start reads :: 'r IlpConn) \<le> n"
  shows "\<exists>c st' r. conn_steps env n st (conn_start reads :: 'r IlpConn) = (c, st') \<and> ic_phase c = Ended r
    \<and> handle_connection env reads st = (r, st', ic_fwd c)"
proof -
  obtain c st' where run: "conn_steps env n st (conn_start reads) = (c, st')" by (cases "conn_steps env n st (conn_start reads)")
  from conn_steps_end [OF memchr_specD [OF assms(1)] assms(2), of st] run obtain r where r: "ic_phase c = Ended r" by auto
  from conn_steps_rest [OF run] r have "handle_connection env reads st = (r, st', ic_fwd c)"
    by (simp add: conn_rest_def conn_start_def handle_connection_def)
  with run r show ?thesis by blast
qed

theorem connection_steps_are_handle_connection_witness:
  "\<exists>c. conn_steps (demo_env good_net) 18 demo_ilp_app (conn_start [Inr one_line]) = (c, demo_ilp_app)
     \<and> handle_connection (demo_env good_net) [Inr one_line] demo_ilp_app = (Inr (), demo_ilp_app, ic_fwd c)"
proof -
  have fuel: "conn_fuel (conn_start [Inr one_line] :: VNode list IlpConn) \<le> 18"
    by (simp add: conn_fuel_def conn_start_def one_line_def)
  have "conn_steps (demo_env good_net) (4 + 14) demo_ilp_app (conn_start [Inr one_line]) =
      conn_steps (demo_env good_net) 4 demo_ilp_app (conn_start [Inr one_line])"
    unfolding conn_steps_add demo_conn by simp
  with connection_steps_are_handle_connection [OF _ fuel, of "demo_env good_net" demo_ilp_app] show ?thesis
    by (auto simp: demo_conn)
qed

end
