(* ===== verification/Ingest_Pipeline.thy ===== *)
theory Ingest_Pipeline
  imports Ingest_Actor Step_System "HOL-Library.Sublist" "HOL-Library.Countable"
begin

text \<open>
  The object ingest as a whole: the webhook and the reconcile loop (\<open>run_reconcile_loop\<close> of \<open>ingest/reconcile.rs\<close>)
  fill the mailbox of the actor, the actor works it off, and all three interleave. A step of the pipeline is one
  request of the webhook, one await of the reconcile loop, or the actor taking a message or finishing one. The store
  may list something else at every scan, and the world of the actor (network, health, store, disk) is that of
  \<open>Ingest_Actor\<close>. The reconcile loop and the actor share only the mailbox and the checkpoint file: a scan reads the
  file before it lists the store, and the actor may have moved on in between.
\<close>

section \<open>The reconcile loop\<close>

datatype LoopPhase = Starting | Sleeping | Listing CheckpointStore | Stopped

record ('r, 'c, 'k) Pipeline =
  pl_mailbox :: Mailbox
  pl_current :: "(nat \<times> ProcessObject) option"
  pl_actor :: "('r, 'c, 'k) IngestState"
  pl_loop :: LoopPhase
  pl_lag :: "nat option"

text \<open>What follows a scan: the loop waits for the interval, or ends when only the start-up scan is configured.\<close>

definition after_scan :: "IngestReconcileConfig \<Rightarrow> LoopPhase" where
  "after_scan config = (if ir_enabled config then Sleeping else Stopped)"

definition reconcile_interval :: "IngestReconcileConfig \<Rightarrow> u64" where
  "reconcile_interval config = max (ir_interval_secs config) 1"

definition scan_load ::
    "(string \<Rightarrow> string + entries) \<Rightarrow> string \<Rightarrow> IngestReconcileConfig \<Rightarrow> ('r, 'c, 'k) Pipeline \<Rightarrow> ('r, 'c, 'k) Pipeline" where
  "scan_load de path config p =
     (case load de (is_files (pl_actor p)) path of
        Inl e \<Rightarrow> p\<lparr>pl_loop := after_scan config\<rparr>
      | Inr checkpoint \<Rightarrow> p\<lparr>pl_loop := Listing checkpoint\<rparr>)"

definition scan_list ::
    "(string \<Rightarrow> (string + ObjectMeta) list) \<Rightarrow> ObjectFetcher \<Rightarrow> IngestReconcileConfig \<Rightarrow> CheckpointStore
       \<Rightarrow> ('r, 'c, 'k) Pipeline \<Rightarrow> ('r, 'c, 'k) Pipeline" where
  "scan_list store f config checkpoint p =
     (case list_feather_objects store f of
        Inl e \<Rightarrow> p\<lparr>pl_loop := after_scan config\<rparr>
      | Inr objects \<Rightarrow>
          (case reconcile_objects checkpoint (of_bucket f) objects 0 (pl_mailbox p) of
             (lag, mb) \<Rightarrow> p\<lparr>pl_mailbox := mb, pl_lag := Some lag, pl_loop := after_scan config\<rparr>))"

definition run_reconcile_loop ::
    "(string \<Rightarrow> string + entries) \<Rightarrow> (string \<Rightarrow> (string + ObjectMeta) list) \<Rightarrow> ObjectFetcher \<Rightarrow> string \<Rightarrow> IngestReconcileConfig
       \<Rightarrow> ('r, 'c, 'k) Pipeline \<Rightarrow> ('r, 'c, 'k) Pipeline" where
  "run_reconcile_loop de store f path config p =
     (case pl_loop p of
        Starting \<Rightarrow> if ir_startup_scan config then scan_load de path config p else p\<lparr>pl_loop := after_scan config\<rparr>
      | Sleeping \<Rightarrow> scan_load de path config p
      | Listing checkpoint \<Rightarrow> scan_list store f config checkpoint p
      | Stopped \<Rightarrow> p)"

section \<open>The actor's mailbox\<close>

definition actor_receive :: "('r, 'c, 'k) Pipeline \<Rightarrow> ('r, 'c, 'k) Pipeline" where
  "actor_receive p =
     (case (pl_current p, mb_queue (pl_mailbox p)) of
        (None, m # rest) \<Rightarrow> p\<lparr>pl_mailbox := (pl_mailbox p)\<lparr>mb_queue := rest\<rparr>, pl_current := Some (length rest, m)\<rparr>
      | _ \<Rightarrow> p)"

definition actor_work ::
    "('r, 'c) ingest_world \<Rightarrow> IngestConfig \<Rightarrow> ('r, 'c, 'k) Pipeline \<Rightarrow> ('r, 'c, 'k) Pipeline" where
  "actor_work w config p =
     (case pl_current p of
        None \<Rightarrow> p
      | Some msg \<Rightarrow> p\<lparr>pl_actor := handle_ingest_message w config msg (pl_actor p), pl_current := None\<rparr>)"

definition webhook ::
    "(string \<Rightarrow> string + S3NotificationEnvelope) \<Rightarrow> HttpState \<Rightarrow> string + string \<Rightarrow> ('r, 'c, 'k) Pipeline \<Rightarrow> ('r, 'c, 'k) Pipeline" where
  "webhook dn hs body p = p\<lparr>pl_mailbox := snd (ingest_events dn hs body (pl_mailbox p))\<rparr>"

section \<open>The pipeline\<close>

definition ingest_start ::
    "Mailbox \<times> ('r, 'c, 'k) IngestState \<Rightarrow> bool \<Rightarrow> ('r, 'c, 'k) Pipeline" where
  "ingest_start spawned reconciles =
     \<lparr> pl_mailbox = fst spawned, pl_current = None, pl_actor = snd spawned,
       pl_loop = (if reconciles then Starting else Stopped), pl_lag = None \<rparr>"

inductive ingest_step ::
    "('r, 'c) ingest_world \<Rightarrow> IngestConfig \<Rightarrow> (string \<Rightarrow> string + entries) \<Rightarrow> ObjectFetcher
       \<Rightarrow> ('r, 'c, 'k) Pipeline \<Rightarrow> ('r, 'c, 'k) Pipeline \<Rightarrow> bool" for w config de f where
  notified: "ingest_step w config de f p (webhook dn hs body p)"
| scanned: "ingest_step w config de f p
     (run_reconcile_loop de store f (ic_path (ig_checkpoint config)) (ig_reconcile config) p)"
| taken_up: "ingest_step w config de f p (actor_receive p)"
| worked: "ingest_step w config de f p (actor_work w config p)"

section \<open>Specification vocabulary\<close>

text \<open>
  The n-th attempt delivered an object of so many rows: what the store answered decoded to that many lines, every
  line that is not blank has a shard, and the lines of each shard, complete and in order, are among what that shard
  has received, without gaps.
\<close>

definition delivered_at ::
    "('r, 'c) ingest_world \<Rightarrow> IngestConfig \<Rightarrow> ProcessObject \<Rightarrow> nat \<Rightarrow> u64 \<Rightarrow> IlpForwarder \<Rightarrow> bool" where
  "delivered_at w config object n rows fwd \<longleftrightarrow>
     (\<exists>bytes etag table lines. iw_get w n (po_key object) = Inr (bytes, etag)
      \<and> decode_feather_to_ilp (iw_fmt w) (iw_reader w) (po_key object) bytes (ig_nautilus config) = Inr (table, lines)
      \<and> rows = of_nat (length lines) \<and> all_routed (iw_env w n) (iw_metadata w n) lines
      \<and> (\<forall>i. \<exists>earlier later. received fwd i =
            earlier @ shard_bytes (iw_env w n) (iw_metadata w n) i lines @ later))"

text \<open>
  Every checkpoint entry that is not one of \<open>old\<close> was written for one of the attempts made so far: it carries the key
  and the etag of an object, the time and the number of rows of that attempt, and the attempt delivered the object.
\<close>

definition records_delivered ::
    "('r, 'c) ingest_world \<Rightarrow> IngestConfig \<Rightarrow> nat \<Rightarrow> entries \<Rightarrow> entries \<Rightarrow> IlpForwarder \<Rightarrow> bool" where
  "records_delivered w config attempts old new fwd \<longleftrightarrow>
     (\<forall>k meta. new k = Some meta \<longrightarrow> old k = Some meta \<or>
        (\<exists>object n. n < attempts \<and> k = encode (po_bucket object) (po_key object)
           \<and> pm_etag meta = po_etag object \<and> pm_processed_at meta = iw_now w (Suc n)
           \<and> delivered_at w config object n (pm_rows meta) fwd))"

text \<open>
  A schedule: the actor works its mailbox off, and then the loop scans and the actor works off what the scan
  queued, for a number of rounds.
\<close>

fun actor_drain :: "('r, 'c) ingest_world \<Rightarrow> IngestConfig \<Rightarrow> nat \<Rightarrow> ('r, 'c, 'k) Pipeline \<Rightarrow> ('r, 'c, 'k) Pipeline" where
  "actor_drain w config 0 p = p"
| "actor_drain w config (Suc n) p = actor_drain w config n (actor_work w config (actor_receive p))"

definition drain_mailbox :: "('r, 'c) ingest_world \<Rightarrow> IngestConfig \<Rightarrow> ('r, 'c, 'k) Pipeline \<Rightarrow> ('r, 'c, 'k) Pipeline" where
  "drain_mailbox w config p = actor_drain w config (length (mb_queue (pl_mailbox p))) p"

definition reconcile_round ::
    "('r, 'c) ingest_world \<Rightarrow> IngestConfig \<Rightarrow> (string \<Rightarrow> string + entries) \<Rightarrow> (string \<Rightarrow> (string + ObjectMeta) list) \<Rightarrow> ObjectFetcher
       \<Rightarrow> ('r, 'c, 'k) Pipeline \<Rightarrow> ('r, 'c, 'k) Pipeline" where
  "reconcile_round w config de store f p =
     (let scan = run_reconcile_loop de store f (ic_path (ig_checkpoint config)) (ig_reconcile config)
      in drain_mailbox w config (scan (scan p)))"

definition catch_up ::
    "('r, 'c) ingest_world \<Rightarrow> IngestConfig \<Rightarrow> (string \<Rightarrow> string + entries) \<Rightarrow> (string \<Rightarrow> (string + ObjectMeta) list) \<Rightarrow> ObjectFetcher
       \<Rightarrow> nat \<Rightarrow> ('r, 'c, 'k) Pipeline \<Rightarrow> ('r, 'c, 'k) Pipeline" where
  "catch_up w config de store f n p = (reconcile_round w config de store f ^^ n) (drain_mailbox w config p)"

definition unseen :: "CheckpointStore \<Rightarrow> string \<Rightarrow> ObjectMeta list \<Rightarrow> ObjectMeta list" where
  "unseen cp bucket objects = filter (\<lambda>m. \<not> contains cp bucket (om_location m)) objects"

definition grows :: "IlpForwarder \<Rightarrow> IlpForwarder \<Rightarrow> bool" where
  "grows fwd fwd' \<longleftrightarrow> (\<forall>i. prefix (received fwd i) (received fwd' i))"

section \<open>Lemmas\<close>

subsection \<open>What a shard has received only grows\<close>

lemma grows_refl [simp]: "grows fwd fwd"
  by (simp add: grows_def)

lemma grows_trans: "grows a b \<Longrightarrow> grows b c \<Longrightarrow> grows a c"
  unfolding grows_def by (meson prefix_order.trans)

lemma grows_upd: "prefix (received fwd i) (up_written u) \<Longrightarrow> grows fwd (fwd(i \<mapsto> u))"
  by (auto simp: grows_def received_def)

lemma write_out_grows: "write_out net u = (r, u') \<Longrightarrow> prefix (up_written u) (up_written u')"
  by (auto simp: write_out_def split: sum.splits)

lemma route_and_buffer_grows: "route_and_buffer env st fwd line = (r, st', fwd') \<Longrightarrow> grows fwd fwd'"
proof -
  have "prefix (received fwd (sc_id shard)) (up_written u)" if "open_upstream net shard fwd = Inr u" for net shard u
    using that by (auto simp: open_upstream_def received_def split: option.splits sum.splits)
  then show "route_and_buffer env st fwd line = (r, st', fwd') \<Longrightarrow> grows fwd fwd'"
    by (auto simp: route_and_buffer_def Let_def split: if_splits sum.splits prod.splits intro!: grows_upd
        dest!: write_out_grows) (metis prefix_order.trans)+
qed

lemma forward_lines_grows: "forward_lines env lines st fwd = (r, st', fwd') \<Longrightarrow> grows fwd fwd'"
proof (induction lines arbitrary: st fwd)
  case (Cons line lines)
  obtain r1 st1 fwd1 where one: "route_and_buffer env st fwd line = (r1, st1, fwd1)" by (metis prod_cases3)
  from Cons.prems one Cons.IH [of st1 fwd1] route_and_buffer_grows [OF one] show ?case
    by (auto simp: forward_line_def split: sum.splits intro: grows_trans)
qed simp

lemma flush_one_grows: "flush_one net i fwd = (r, fwd') \<Longrightarrow> grows fwd fwd'"
  by (auto simp: flush_one_def received_def split: option.splits if_splits sum.splits prod.splits intro!: grows_upd
      dest!: write_out_grows)

lemma flush_loop_grows: "flush_loop net is fwd = (r, fwd') \<Longrightarrow> grows fwd fwd'"
proof (induction "is" arbitrary: fwd)
  case (Cons i "is")
  obtain r1 fwd1 where one: "flush_one net i fwd = (r1, fwd1)" by (cases "flush_one net i fwd")
  from Cons.prems one Cons.IH [of fwd1] flush_one_grows [OF one] show ?case
    by (auto split: sum.splits intro: grows_trans)
qed simp

lemma forward_batch_grows: "forward_batch env lines st fwd = (r, st', fwd') \<Longrightarrow> grows fwd fwd'"
  by (auto simp: forward_batch_def flush_def split: sum.splits prod.splits
      dest!: forward_lines_grows flush_loop_grows intro: grows_trans)

lemma attempt_grows: "fetch_decode_forward w config object s = (r, s') \<Longrightarrow> grows (is_forwarder s) (is_forwarder s')"
  by (auto simp: fetch_decode_forward_def Let_def split: sum.splits prod.splits dest!: forward_batch_grows)

lemma delivered_grows:
  "delivered_at w config object n rows fwd \<Longrightarrow> grows fwd fwd' \<Longrightarrow> delivered_at w config object n rows fwd'"
  unfolding delivered_at_def grows_def prefix_def by (metis append.assoc)

lemma records_grow:
  "records_delivered w config attempts old new fwd \<Longrightarrow> attempts \<le> attempts' \<Longrightarrow> grows fwd fwd' \<Longrightarrow>
     records_delivered w config attempts' old new fwd'"
  unfolding records_delivered_def by (meson delivered_grows less_le_trans)

lemma records_insert:
  assumes "records_delivered w config attempts old new fwd" and "n < attempts"
    and "delivered_at w config object n (pm_rows meta) fwd" and "pm_etag meta = po_etag object"
    and "pm_processed_at meta = iw_now w (Suc n)"
  shows "records_delivered w config attempts old (new(encode (po_bucket object) (po_key object) \<mapsto> meta)) fwd"
  using assms unfolding records_delivered_def by (auto split: if_splits)

subsection \<open>The actor\<close>

definition actor_inv ::
    "('r, 'c) ingest_world \<Rightarrow> IngestConfig \<Rightarrow> (string \<Rightarrow> string + entries) \<Rightarrow> string \<Rightarrow> entries \<Rightarrow> ('r, 'c, 'k) IngestState \<Rightarrow> bool" where
  "actor_inv w config de path old s \<longleftrightarrow>
     finite (dom (is_forwarder s)) \<and> cp_path (is_checkpoint s) = path
   \<and> records_delivered w config (is_attempts s) old (cp_entries (is_checkpoint s)) (is_forwarder s)
   \<and> (\<forall>cp. load de (is_files s) path = Inr cp \<longrightarrow>
        records_delivered w config (is_attempts s) old (cp_entries cp) (is_forwarder s))"

lemma mark_processed_file:
  assumes "json_laws ser de" and "with_extension (cp_path cp) ''tmp'' \<noteq> cp_path cp"
    and "mark_processed ser fault now bucket key etag rows cp fs = (r, cp', fs')"
  shows "cp_path cp' = cp_path cp" and "load de fs' (cp_path cp) \<in> {load de fs (cp_path cp), Inr cp'}"
    and "r = Inr () \<Longrightarrow> load de fs' (cp_path cp) = Inr cp'"
proof -
  from assms(3) have p: "persist ser fault cp' fs = (r, fs')" and path: "cp_path cp' = cp_path cp"
    by (auto simp: mark_processed_def Let_def split: prod.splits)
  show "cp_path cp' = cp_path cp" by fact
  from path have eq: "cp' = \<lparr> cp_path = cp_path cp, cp_entries = cp_entries cp' \<rparr>" by (cases cp') simp
  consider "fs' = fs" "r \<noteq> Inr ()" | data where "ser (cp_entries cp') = Inr data"
      "run_ops fault (persist_ops (cp_path cp) data) fs = (r, fs')"
    using p path by (auto simp: persist_def Let_def split: option.splits sum.splits if_splits)
  then have "load de fs' (cp_path cp) \<in> {load de fs (cp_path cp), Inr cp'}
      \<and> (r = Inr () \<longrightarrow> load de fs' (cp_path cp) = Inr cp')"
  proof cases
    case 1
    then show ?thesis by simp
  next
    case (2 data)
    from persist_run [OF assms(1,2) 2] eq show ?thesis by auto
  qed
  then show "load de fs' (cp_path cp) \<in> {load de fs (cp_path cp), Inr cp'}"
    and "r = Inr () \<Longrightarrow> load de fs' (cp_path cp) = Inr cp'" by blast+
qed

lemma mark_object_file:
  assumes "json_laws (iw_ser w) de" and "with_extension (cp_path (is_checkpoint s)) ''tmp'' \<noteq> cp_path (is_checkpoint s)"
    and "mark_object w object tr s = (r, s')"
  shows "cp_path (is_checkpoint s') = cp_path (is_checkpoint s)" 
    and "load de (is_files s') (cp_path (is_checkpoint s)) \<in>
      {load de (is_files s) (cp_path (is_checkpoint s)), Inr (is_checkpoint s')}"
    and "r = Inr () \<Longrightarrow> load de (is_files s') (cp_path (is_checkpoint s)) = Inr (is_checkpoint s')"
proof -
  obtain r1 cp' fs' where m: "mark_processed (iw_ser w) (iw_fault w (is_attempts s)) (iw_now w (is_attempts s))
      (po_bucket object) (po_key object) (po_etag object) (snd tr) (is_checkpoint s) (is_files s) = (r1, cp', fs')"
    by (metis prod_cases3)
  then have s': "is_checkpoint s' = cp'" "is_files s' = fs'" and r: "r = Inr () \<longleftrightarrow> r1 = Inr ()"
    using assms(3) by (auto simp: mark_object_def Let_def record_ingest_rows_forwarded_def record_ingest_object_processed_def
        split: sum.splits)
  note disk = mark_processed_file [OF assms(1,2) m]
  show "cp_path (is_checkpoint s') = cp_path (is_checkpoint s)" using disk(1) s' by simp
  show "load de (is_files s') (cp_path (is_checkpoint s)) = Inr (is_checkpoint s')" if "r = Inr ()"
    using disk(3) that s' r by simp
  show "load de (is_files s') (cp_path (is_checkpoint s)) \<in>
      {load de (is_files s) (cp_path (is_checkpoint s)), Inr (is_checkpoint s')}"
    using disk(2) s' by simp
qed

lemma attempt_loop_inv:
  assumes "\<And>n. order_ok (iw_env w n)" and "json_laws (iw_ser w) de" and "with_extension path ''tmp'' \<noteq> path"
  shows "attempt_loop w config object tries err s = (r, s') \<Longrightarrow> actor_inv w config de path old s \<Longrightarrow>
    actor_inv w config de path old s'"
proof (induction tries arbitrary: err s)
  case (Cons a tries)
  obtain r1 s1 where one: "fetch_decode_forward w config object s = (r1, s1)" by (cases "fetch_decode_forward w config object s")
  note frame = attempt_frame [OF one]
  have grown: "records_delivered w config (is_attempts s) old new (is_forwarder s) \<Longrightarrow>
      records_delivered w config (is_attempts s1) old new (is_forwarder s1)" for new
    by (erule records_grow [OF _ _ attempt_grows [OF one]]) (simp add: frame(1))
  from Cons.prems(2) grown frame have inv1: "actor_inv w config de path old s1" by (simp add: actor_inv_def)
  show ?case
  proof (cases r1)
    case (Inl e)
    with Cons.prems one have "attempt_loop w config object tries (Some e) s1 = (r, s')" by simp
    from Cons.IH [OF this inv1] show ?thesis .
  next
    case (Inr tr)
    with Cons.prems one have m: "mark_object w object tr s1 = (r, s')" by simp
    from Inr one have ok: "fetch_decode_forward w config object s = (Inr (fst tr, snd tr), s1)" by simp
    from Cons.prems(2) have "finite (dom (is_forwarder s))" by (simp add: actor_inv_def)
    from attempt_ok [OF ok assms(1) this] have delivered: "delivered_at w config object (is_attempts s) (snd tr) (is_forwarder s1)"
      unfolding delivered_at_def by (metis append_Nil2)
    note marked = mark_object_ok [OF m] and disk = mark_object_file [OF assms(2) _ m]
    have "records_delivered w config (is_attempts s') old (cp_entries (is_checkpoint s')) (is_forwarder s')"
      unfolding marked(1-3) using inv1 frame(1) delivered
      by (intro records_insert [where n = "is_attempts s"]) (simp_all add: actor_inv_def)
    with inv1 assms(3) marked(1,2) disk show ?thesis by (auto simp: actor_inv_def)
  qed
qed simp

lemma handle_ingest_message_inv:
  assumes "\<And>n. order_ok (iw_env w n)" and "json_laws (iw_ser w) de" and "with_extension path ''tmp'' \<noteq> path"
    and "actor_inv w config de path old s"
  shows "actor_inv w config de path old (handle_ingest_message w config msg s)"
proof -
  obtain waiting object where msg: "msg = (waiting, object)" by (cases msg)
  have metric: "actor_inv w config de path old (s'\<lparr>is_metrics := ms\<rparr>) = actor_inv w config de path old s'" for s' ms
    by (simp add: actor_inv_def)
  obtain r s' where loop: "attempt_loop w config object [0..<3] None (s\<lparr>is_metrics := is_metrics s @ [MailboxDepth waiting]\<rparr>) = (r, s')"
    by fastforce
  from attempt_loop_inv [OF assms(1-3) loop, where old = old] assms(4) loop show ?thesis
    by (auto simp: handle_ingest_message_def msg process_object_def record_ingest_object_processed_def
        record_ingest_mailbox_depth_def metric split: sum.splits prod.splits)
qed

subsection \<open>The pipeline\<close>

definition pipeline_inv ::
    "('r, 'c) ingest_world \<Rightarrow> IngestConfig \<Rightarrow> (string \<Rightarrow> string + entries) \<Rightarrow> ObjectFetcher \<Rightarrow> entries \<Rightarrow> ('r, 'c, 'k) Pipeline \<Rightarrow> bool" where
  "pipeline_inv w config de f old p \<longleftrightarrow>
     mb_capacity (pl_mailbox p) = ig_mailbox_capacity config
   \<and> length (mb_queue (pl_mailbox p)) \<le> mb_capacity (pl_mailbox p)
   \<and> actor_inv w config de (ic_path (ig_checkpoint config)) old (pl_actor p)"

lemma send_all_bounded:
  assumes "mbox.send_all ms mb = (ok, mb')" and "length (mb_queue mb) \<le> mb_capacity mb"
  shows "length (mb_queue mb') \<le> mb_capacity mb' \<and> mb_capacity mb' = mb_capacity mb"
  using mbox.send_all_spec [OF assms(1)] capacity_send_all [OF assms(1)] assms(2)
  by (simp add: mailbox_room_def)

lemma webhook_bounded:
  assumes "length (mb_queue mb) \<le> mb_capacity mb" and "ingest_events dn hs body mb = (status, mb')"
  shows "length (mb_queue mb') \<le> mb_capacity mb' \<and> mb_capacity mb' = mb_capacity mb"
  using assms by (auto simp: ingest_events_def enqueue_refs_send_all dest: send_all_bounded split: sum.splits prod.splits)

lemma scan_bounded:
  assumes "length (mb_queue mb) \<le> mb_capacity mb" and "reconcile_objects cp bucket objects lag mb = (lag', mb')"
  shows "length (mb_queue mb') \<le> mb_capacity mb' \<and> mb_capacity mb' = mb_capacity mb"
  using assms by (auto simp: reconcile_objects_send_all Let_def dest: send_all_bounded split: prod.splits)

lemma ingest_step_inv:
  assumes "ingest_step w config de f p p'" and "pipeline_inv w config de f old p"
    and "\<And>n. order_ok (iw_env w n)" and "json_laws (iw_ser w) de"
    and "with_extension (ic_path (ig_checkpoint config)) ''tmp'' \<noteq> ic_path (ig_checkpoint config)"
  shows "pipeline_inv w config de f old p'"
  using assms(1)
proof cases
  case (notified dn hs body)
  with assms(2) show ?thesis
    by (cases "ingest_events dn hs body (pl_mailbox p)") (auto simp: pipeline_inv_def webhook_def dest: webhook_bounded)
next
  case (scanned store)
  with assms(2) show ?thesis
    by (auto simp: pipeline_inv_def run_reconcile_loop_def scan_load_def scan_list_def dest!: scan_bounded [rotated]
        split: LoopPhase.splits sum.splits prod.splits)
next
  case taken_up
  with assms(2) show ?thesis by (auto simp: pipeline_inv_def actor_receive_def split: option.splits list.splits)
next
  case worked
  with assms(2) show ?thesis
    by (auto simp: pipeline_inv_def actor_work_def split: option.splits intro: handle_ingest_message_inv [OF assms(3-5)])
qed

text \<open>The invariant of the pipeline, under what it relies on.\<close>

definition ingest_inv ::
    "('r, 'c) ingest_world \<Rightarrow> IngestConfig \<Rightarrow> (string \<Rightarrow> string + entries) \<Rightarrow> ObjectFetcher \<Rightarrow> entries \<Rightarrow> ('r, 'c, 'k) Pipeline \<Rightarrow> bool" where
  "ingest_inv w config de f old p \<longleftrightarrow>
     (\<forall>n. order_ok (iw_env w n)) \<and> json_laws (iw_ser w) de
   \<and> with_extension (ic_path (ig_checkpoint config)) ''tmp'' \<noteq> ic_path (ig_checkpoint config)
   \<and> pipeline_inv w config de f old p"

interpretation ingest_sys: step_system "ingest_step w config de f" "ingest_inv w config de f old" for w config de f old
  by unfold_locales (auto simp: ingest_inv_def intro: ingest_step_inv)

lemma load_path: "load de fs path = Inr cp \<Longrightarrow> cp_path cp = path"
  by (auto simp: load_def split: option.splits sum.splits if_splits)

lemma ingest_start_inv:
  assumes "ingest_spawn be de fs app config = Inr spawned"
  shows "pipeline_inv w config de f (cp_entries (is_checkpoint (snd spawned))) (ingest_start spawned b)"
  using assms
  by (auto simp: ingest_spawn_def pipeline_inv_def ingest_start_def actor_inv_def forwarder_new_def records_delivered_def
      load_path split: sum.splits if_splits)

text \<open>A scan that nothing interrupts is \<open>reconcile_once\<close>.\<close>

lemma scan_is_reconcile_once:
  assumes "pl_loop p = Sleeping" and "ir_enabled config" and "load de (is_files (pl_actor p)) path = Inr cp"
  shows "case reconcile_once de (is_files (pl_actor p)) store f path (pl_mailbox p) of (lag, mb) \<Rightarrow>
    run_reconcile_loop de store f path config (run_reconcile_loop de store f path config p) =
      p\<lparr>pl_mailbox := mb, pl_lag := (case lag of Some n \<Rightarrow> Some n | None \<Rightarrow> pl_lag p)\<rparr>"
  using assms
  by (auto simp: run_reconcile_loop_def scan_load_def scan_list_def reconcile_once_def after_scan_def
      split: sum.splits prod.splits)

subsection \<open>The schedule\<close>

lemma actor_drain_reach: "rtranclp (ingest_step w config de f) p (actor_drain w config n p)"
proof (induction n arbitrary: p)
  case (Suc n)
  have "rtranclp (ingest_step w config de f) p (actor_work w config (actor_receive p))"
    by (rule two_steps) (rule taken_up, rule worked)
  from rtranclp_trans [OF this Suc.IH] show ?case by simp
qed simp

lemma two_scans:
  "rtranclp (ingest_step w config de f) p
     (run_reconcile_loop de store f (ic_path (ig_checkpoint config)) (ig_reconcile config)
       (run_reconcile_loop de store f (ic_path (ig_checkpoint config)) (ig_reconcile config) p))"
  by (rule two_steps) (rule scanned)+

lemma reconcile_round_reach: "rtranclp (ingest_step w config de f) p (reconcile_round w config de store f p)"
  unfolding reconcile_round_def Let_def drain_mailbox_def
  by (rule rtranclp_trans [OF two_scans actor_drain_reach])

lemma catch_up_reach: "rtranclp (ingest_step w config de f) p (catch_up w config de store f n p)"
proof (induction n)
  case 0
  show ?case by (simp add: catch_up_def drain_mailbox_def actor_drain_reach)
next
  case (Suc n)
  from rtranclp_trans [OF Suc reconcile_round_reach] show ?case by (simp add: catch_up_def)
qed

text \<open>The messages of a queue with the number of messages waiting behind each.\<close>

fun numbered :: "ProcessObject list \<Rightarrow> (nat \<times> ProcessObject) list" where
  "numbered [] = []"
| "numbered (m # rest) = (length rest, m) # numbered rest"

lemma numbered_mem: "m \<in> set q \<Longrightarrow> \<exists>n. (n, m) \<in> set (numbered q)"
  by (induction q) auto

lemma actor_drain_run:
  "mb_queue (pl_mailbox p) = q \<Longrightarrow> pl_current p = None \<Longrightarrow>
     actor_drain w config (length q) p =
       p\<lparr>pl_mailbox := (pl_mailbox p)\<lparr>mb_queue := []\<rparr>, pl_actor := ingest_run w config (numbered q) (pl_actor p)\<rparr>"
proof (induction q arbitrary: p)
  case Nil
  then show ?case by (simp add: ingest_run_def)
next
  case (Cons m q)
  have "actor_work w config (actor_receive p) = p\<lparr>pl_mailbox := (pl_mailbox p)\<lparr>mb_queue := q\<rparr>,
      pl_actor := handle_ingest_message w config (length q, m) (pl_actor p)\<rparr>"
    using Cons.prems by (simp add: actor_receive_def actor_work_def)
  with Cons.IH [of "actor_work w config (actor_receive p)"] Cons.prems show ?case by (simp add: ingest_run_def)
qed

lemma drain_mailbox_run:
  "pl_current p = None \<Longrightarrow> drain_mailbox w config p =
     p\<lparr>pl_mailbox := (pl_mailbox p)\<lparr>mb_queue := []\<rparr>,
       pl_actor := ingest_run w config (numbered (mb_queue (pl_mailbox p))) (pl_actor p)\<rparr>"
  unfolding drain_mailbox_def by (rule actor_drain_run [OF refl])

subsection \<open>The file keeps up with the memory\<close>

definition file_current :: "(string \<Rightarrow> string + entries) \<Rightarrow> string \<Rightarrow> ('r, 'c, 'k) IngestState \<Rightarrow> bool" where
  "file_current de path s \<longleftrightarrow>
     cp_path (is_checkpoint s) = path \<and> load de (is_files s) path = Inr (is_checkpoint s) \<and> finite_checkpoint s"

lemma attempt_loop_current:
  assumes "json_laws (iw_ser w) de" and "with_extension path ''tmp'' \<noteq> path" and "disk_ok w"
  shows "attempt_loop w config object tries err s = (r, s') \<Longrightarrow> file_current de path s \<Longrightarrow> file_current de path s'"
proof (induction tries arbitrary: err s)
  case (Cons a tries)
  obtain r1 s1 where one: "fetch_decode_forward w config object s = (r1, s1)" by (cases "fetch_decode_forward w config object s")
  note frame = attempt_frame [OF one]
  from Cons.prems(2) frame have cur: "file_current de path s1" by (simp add: file_current_def finite_checkpoint_def)
  show ?case
  proof (cases r1)
    case (Inl e)
    with Cons one cur show ?thesis by simp
  next
    case (Inr tr)
    with Cons.prems one have m: "mark_object w object tr s1 = (r, s')" by simp
    with mark_object_succeeds [OF assms(3), of s1 object tr] cur have "r = Inr ()" by (simp add: file_current_def)
    with mark_object_file [OF assms(1) _ m] mark_object_dom [OF m] cur assms(2) show ?thesis
      by (auto simp: file_current_def finite_checkpoint_def)
  qed
qed simp

lemma handle_ingest_message_current:
  assumes "json_laws (iw_ser w) de" and "with_extension path ''tmp'' \<noteq> path" and "disk_ok w" and "file_current de path s"
  shows "file_current de path (handle_ingest_message w config msg s)"
proof -
  obtain waiting object where msg: "msg = (waiting, object)" by (cases msg)
  obtain r s' where loop: "attempt_loop w config object [0..<3] None (s\<lparr>is_metrics := is_metrics s @ [MailboxDepth waiting]\<rparr>) = (r, s')"
    by fastforce
  from attempt_loop_current [OF assms(1-3) loop] assms(4) loop show ?thesis
    by (auto simp: handle_ingest_message_def msg process_object_def record_ingest_object_processed_def
        record_ingest_mailbox_depth_def file_current_def finite_checkpoint_def split: sum.splits prod.splits)
qed

lemma ingest_run_current:
  assumes "json_laws (iw_ser w) de" and "with_extension path ''tmp'' \<noteq> path" and "disk_ok w"
  shows "file_current de path s \<Longrightarrow> file_current de path (ingest_run w config msgs s)"
  unfolding ingest_run_def by (induction msgs arbitrary: s) (simp_all add: handle_ingest_message_current [OF assms])

subsection \<open>A round\<close>

text \<open>Between the rounds the mailbox is empty, the loop waits and the file holds what the actor knows.\<close>

definition at_rest :: "(string \<Rightarrow> string + entries) \<Rightarrow> string \<Rightarrow> nat \<Rightarrow> ('r, 'c, 'k) Pipeline \<Rightarrow> bool" where
  "at_rest de path c p \<longleftrightarrow>
     pl_current p = None \<and> mb_queue (pl_mailbox p) = [] \<and> mb_capacity (pl_mailbox p) = c \<and> pl_loop p = Sleeping
   \<and> file_current de path (pl_actor p)"

lemma listed_eligible:
  assumes "list_feather_objects store f = Inr objects" and "fetcher_from_config (ig_rustfs config) be = Inr f" and "m \<in> set objects"
  shows "eligible config (reconcile_msg b m)"
proof -
  have "collect_listed pre items acc = Inr os \<Longrightarrow> m \<in> set os \<Longrightarrow>
      m \<in> set acc \<or> (should_ingest_key (om_location m) \<and> matches_prefix (om_location m) pre)" for pre items acc os
    by (induction pre items acc rule: collect_listed.induct) (auto split: if_splits)
  from this [of "of_prefix f" _ "[]"] assms show ?thesis
    by (auto simp: eligible_def reconcile_msg_def list_feather_objects_def fetcher_from_config_def split: if_splits option.splits)
qed

lemma scan_twice:
  assumes "at_rest de path c p" and "list_feather_objects store f = Inr objects" and "ir_enabled rc"
  shows "run_reconcile_loop de store f path rc (run_reconcile_loop de store f path rc p) =
    (let new = unseen (is_checkpoint (pl_actor p)) (of_bucket f) objects
     in p\<lparr>pl_mailbox := (pl_mailbox p)\<lparr>mb_queue := take c (map (reconcile_msg (of_bucket f)) new)\<rparr>,
         pl_lag := Some (if length new \<le> c then length new else c + 1)\<rparr>)"
proof -
  let ?new = "map (reconcile_msg (of_bucket f)) (unseen (is_checkpoint (pl_actor p)) (of_bucket f) objects)"
  obtain ok mb' where r: "mbox.send_all ?new (pl_mailbox p) = (ok, mb')" by fastforce
  have "mb' = (pl_mailbox p)\<lparr>mb_queue := take c ?new\<rparr>"
    using mbox.send_all_spec [OF r] capacity_send_all [OF r] assms(1)
    by (simp add: at_rest_def mailbox_room_def)
  moreover have "ok \<longleftrightarrow> length ?new \<le> c" using mbox.send_all_spec [OF r] assms(1) by (simp add: at_rest_def mailbox_room_def)
  ultimately show ?thesis
    using assms r
    by (auto simp: at_rest_def run_reconcile_loop_def scan_load_def scan_list_def file_current_def after_scan_def
        reconcile_objects_send_all unseen_def Let_def mailbox_room_def)
qed

text \<open>The listed objects that can be ingested, and those that may never be.\<close>

definition servable ::
    "('r, 'c) ingest_world \<Rightarrow> IngestConfig \<Rightarrow> string \<Rightarrow> ObjectMeta list \<Rightarrow> ObjectMeta list" where
  "servable w config bucket objects = filter (\<lambda>m. served w config (reconcile_msg bucket m)) objects"

definition stuck ::
    "('r, 'c) ingest_world \<Rightarrow> IngestConfig \<Rightarrow> string \<Rightarrow> ObjectMeta list \<Rightarrow> ObjectMeta list" where
  "stuck w config bucket objects = filter (\<lambda>m. \<not> served w config (reconcile_msg bucket m)) objects"

text \<open>A scan that fills the mailbox takes up all but as many servable objects as there are stuck ones.\<close>

lemma servable_beyond:
  "length (servable w config b (drop c new)) \<le> length (servable w config b new) - (c - length (stuck w config b new))"
proof -
  have parts: "length (servable w config b xs) + length (stuck w config b xs) = length xs" for xs
    by (simp add: servable_def stuck_def sum_length_filter_compl)
  have split: "length (h w config b (take c new)) + length (h w config b (drop c new)) = length (h w config b new)"
    if "h = servable \<or> h = stuck" for h
    using that by (auto simp: servable_def stuck_def simp flip: length_append filter_append)
  show ?thesis
  proof (cases "length new \<le> c")
    case True
    then show ?thesis by (simp add: servable_def)
  next
    case False
    with parts [of "take c new"] split [of servable] split [of stuck] show ?thesis by simp
  qed
qed

lemma reconcile_round_settled:
  assumes "json_laws (iw_ser w) de" and "with_extension path ''tmp'' \<noteq> path" and "disk_ok w" and path: "path = ic_path (ig_checkpoint config)"
    and listing: "list_feather_objects store f = Inr objects" and fetcher: "fetcher_from_config (ig_rustfs config) be = Inr f"
    and "ir_enabled (ig_reconcile config)"
    and p: "at_rest de path c p" and p': "p' = reconcile_round w config de store f p"
  shows "at_rest de path c p'"
    and "length (servable w config (of_bucket f) (unseen (is_checkpoint (pl_actor p')) (of_bucket f) objects)) \<le>
      length (servable w config (of_bucket f) (unseen (is_checkpoint (pl_actor p)) (of_bucket f) objects))
        - (c - length (stuck w config (of_bucket f) objects))"
    and "length (unseen (is_checkpoint (pl_actor p)) (of_bucket f) objects) \<le> c \<Longrightarrow>
      pl_lag p' = Some (length (unseen (is_checkpoint (pl_actor p)) (of_bucket f) objects))"
    and "pl_actor p' = ingest_run w config
      (numbered (take c (map (reconcile_msg (of_bucket f)) (unseen (is_checkpoint (pl_actor p)) (of_bucket f) objects)))) (pl_actor p)"
proof -
  let ?b = "of_bucket f" and ?cp = "is_checkpoint (pl_actor p)" and ?cp' = "is_checkpoint (pl_actor p')"
  let ?new = "unseen ?cp ?b objects"
  let ?msgs = "numbered (take c (map (reconcile_msg ?b) ?new))"
  have run: "p' = p\<lparr>pl_mailbox := (pl_mailbox p)\<lparr>mb_queue := []\<rparr>, pl_actor := ingest_run w config ?msgs (pl_actor p),
      pl_lag := Some (if length ?new \<le> c then length ?new else c + 1)\<rparr>"
    using p unfolding p' reconcile_round_def Let_def scan_twice [OF p [unfolded path] listing assms(7)]
    by (subst drain_mailbox_run) (simp_all add: at_rest_def)
  with p ingest_run_current [OF assms(1-3), of "pl_actor p" config ?msgs] show "at_rest de path c p'" by (simp add: at_rest_def)
  from run show "pl_lag p' = Some (length ?new)" if "length ?new \<le> c" using that by simp
  from run show "pl_actor p' = ingest_run w config ?msgs (pl_actor p)" by simp
  have marked: "contains ?cp' ?b (om_location m)" if "m \<in> set (take c ?new)" and sv: "served w config (reconcile_msg ?b m)" for m
  proof -
    from that have "m \<in> set objects" by (auto simp: unseen_def dest: in_set_takeD)
    with listed_eligible [OF listing fetcher] have ok: "eligible config (reconcile_msg ?b m)" by blast
    from that have "reconcile_msg ?b m \<in> set (take c (map (reconcile_msg ?b) ?new))" by (auto simp: take_map)
    then obtain n where n: "(n, reconcile_msg ?b m) \<in> set ?msgs" using numbered_mem by blast
    from p have "finite_checkpoint (pl_actor p)" by (simp add: at_rest_def file_current_def)
    from ingest_run_marks [OF assms(3) sv ok this n] run show ?thesis
      by (simp add: reconcile_msg_def)
  qed
  have kept: "contains ?cp' ?b k" if "contains ?cp ?b k" for k
    using ingest_run_dom [of "pl_actor p" w config ?msgs] that run by (auto simp: contains_def)
  let ?still = "filter (\<lambda>m. \<not> contains ?cp' ?b (om_location m))"
  have "unseen ?cp' ?b objects = ?still ?new"
    using kept by (auto simp: unseen_def intro: filter_cong)
  also have "\<dots> = ?still (take c ?new) @ ?still (drop c ?new)" by (metis append_take_drop_id filter_append)
  also have "servable w config ?b \<dots> = ?still (servable w config ?b (drop c ?new))"
    using marked by (simp add: servable_def filter_empty_conv conj_commute)
  finally have "length (servable w config ?b (unseen ?cp' ?b objects)) \<le> length (servable w config ?b (drop c ?new))"
    by (metis length_filter_le)
  moreover have "length (stuck w config ?b ?new) \<le> length (stuck w config ?b objects)"
  proof -
    have "stuck w config ?b ?new = filter (\<lambda>m. \<not> contains ?cp ?b (om_location m)) (stuck w config ?b objects)"
      by (auto simp: stuck_def unseen_def intro: filter_cong)
    then show ?thesis by simp
  qed
  ultimately show "length (servable w config ?b (unseen ?cp' ?b objects)) \<le>
      length (servable w config ?b ?new) - (c - length (stuck w config ?b objects))"
    using servable_beyond [of w config ?b c ?new] by simp
qed

lemma rounds_settled:
  assumes "json_laws (iw_ser w) de" and "with_extension path ''tmp'' \<noteq> path" and "disk_ok w" and "path = ic_path (ig_checkpoint config)"
    and "list_feather_objects store f = Inr objects" and "fetcher_from_config (ig_rustfs config) be = Inr f"
    and "ir_enabled (ig_reconcile config)" and "at_rest de path c p"
  shows "at_rest de path c ((reconcile_round w config de store f ^^ n) p)
    \<and> length (servable w config (of_bucket f) (unseen (is_checkpoint (pl_actor ((reconcile_round w config de store f ^^ n) p))) (of_bucket f) objects)) \<le>
      length (servable w config (of_bucket f) (unseen (is_checkpoint (pl_actor p)) (of_bucket f) objects))
        - n * (c - length (stuck w config (of_bucket f) objects))"
proof (induction n)
  case (Suc n)
  from reconcile_round_settled [OF assms(1-7) _ refl, of c "(reconcile_round w config de store f ^^ n) p"] Suc
  show ?case by fastforce
qed (simp add: assms(8))

subsection \<open>Starvation\<close>

text \<open>An object that never decodes leaves the checkpoint as it is.\<close>

lemma attempt_loop_undecodable:
  "(\<And>n. \<not> store_ok w config object n) \<Longrightarrow> attempt_loop w config object tries err s = (r, s') \<Longrightarrow>
     is_checkpoint s' = is_checkpoint s"
proof (induction tries arbitrary: err s)
  case (Cons a tries)
  obtain r1 s1 where one: "fetch_decode_forward w config object s = (r1, s1)" by (cases "fetch_decode_forward w config object s")
  with Cons.prems(1) [of "is_attempts s"] obtain e where "r1 = Inl e"
    by (auto simp: fetch_decode_forward_def store_ok_def Let_def split: sum.splits prod.splits)
  with Cons one attempt_frame(2) [OF one] show ?case by simp
qed simp

lemma ingest_run_undecodable:
  "(\<And>m n. m \<in> snd ` set msgs \<Longrightarrow> \<not> store_ok w config m n) \<Longrightarrow>
     is_checkpoint (ingest_run w config msgs s) = is_checkpoint s"
  unfolding ingest_run_def
proof (induction msgs arbitrary: s)
  case (Cons msg msgs)
  obtain waiting object where msg: "msg = (waiting, object)" by (cases msg)
  with Cons.prems have bad: "\<not> store_ok w config object n" for n by simp
  obtain r s' where loop: "attempt_loop w config object [0..<3] None (s\<lparr>is_metrics := is_metrics s @ [MailboxDepth waiting]\<rparr>) = (r, s')"
    by fastforce
  from attempt_loop_undecodable [OF bad loop] loop
  have "is_checkpoint (handle_ingest_message w config msg s) = is_checkpoint s"
    by (auto simp: handle_ingest_message_def msg process_object_def record_ingest_object_processed_def
        record_ingest_mailbox_depth_def split: sum.splits prod.splits)
  with Cons.IH [of "handle_ingest_message w config msg s"] Cons.prems show ?case by simp
qed simp

lemma numbered_snd: "snd ` set (numbered q) = set q"
  by (induction q) auto

text \<open>
  A scan stops at a full mailbox and the next one starts at the front of the listing again: when as many objects as the mailbox
  has places come first and never decode, no round changes the checkpoint, whatever comes after them in the listing.
\<close>

theorem undecodable_objects_starve_the_rest:
  assumes "json_laws (iw_ser w) de" and "disk_ok w" and "path = ic_path (ig_checkpoint config)"
    and "with_extension path ''tmp'' \<noteq> path"
    and "list_feather_objects store f = Inr objects" and "fetcher_from_config (ig_rustfs config) be = Inr f"
    and "ir_enabled (ig_reconcile config)" and "at_rest de path c p"
    and "\<And>m n. m \<in> set (take c (unseen (is_checkpoint (pl_actor p)) (of_bucket f) objects)) \<Longrightarrow>
      \<not> store_ok w config (reconcile_msg (of_bucket f) m) n"
  shows "is_checkpoint (pl_actor ((reconcile_round w config de store f ^^ n) p)) = is_checkpoint (pl_actor p)"
proof (induction n)
  case (Suc n)
  let ?p = "(reconcile_round w config de store f ^^ n) p"
  have "at_rest de path c ?p" using rounds_settled [OF assms(1,4,2,3,5-8)] by blast
  note round = reconcile_round_settled(4) [OF assms(1,4,2,3,5-7) this refl]
  have "is_checkpoint (pl_actor (reconcile_round w config de store f ?p)) = is_checkpoint (pl_actor ?p)"
    unfolding round by (rule ingest_run_undecodable) (use assms(9) Suc in \<open>auto simp: numbered_snd take_map\<close>)
  with Suc show ?case by simp
qed simp

subsection \<open>Parameters for the witnesses\<close>

text \<open>
  An instance of the JSON parameters that reads back every finite map: the entries are numbered, and the text of a
  number is that many letters.
\<close>

definition entry_code :: "entries \<Rightarrow> string \<Rightarrow> nat" where
  "entry_code m k = (case the (m k) of meta \<Rightarrow> to_nat (k, pm_etag meta, pm_processed_at meta, unat (pm_rows meta)))"

definition code_entry :: "nat \<Rightarrow> string \<times> ProcessedMeta" where
  "code_entry c = (case from_nat c of (k, e, t, r) \<Rightarrow> (k, \<lparr> pm_etag = e, pm_processed_at = t, pm_rows = word_of_nat r \<rparr>))"

definition unary_ser :: "entries \<Rightarrow> string + string" where
  "unary_ser m =
     (if finite (dom m) then Inr (replicate (Suc (to_nat (sorted_list_of_set (entry_code m ` dom m)))) CHR ''x'')
      else Inl ''infinite'')"

definition unary_de :: "string \<Rightarrow> string + entries" where
  "unary_de s = Inr (map_of (map code_entry (from_nat (length s - 1))))"

lemma map_of_graph:
  assumes "\<And>k v. (k, v) \<in> set xs \<Longrightarrow> m k = Some v" and "dom m \<subseteq> fst ` set xs"
  shows "map_of xs = m"
proof
  fix k
  show "map_of xs k = m k"
  proof (cases "map_of xs k")
    case None
    then have "k \<notin> dom m" using assms(2) by (auto simp: map_of_eq_None_iff)
    with None show ?thesis by (simp add: domIff)
  next
    case (Some v)
    with assms(1) show ?thesis by (metis map_of_SomeD)
  qed
qed

lemma trim_letters: "trim (replicate (Suc n) CHR ''x'') = replicate (Suc n) CHR ''x''"
proof -
  have x: "ws_len (CHR ''x'' # t) = 0" for t by (simp add: ws_len_def byte_def starts_with_def)
  have "ws_end_len (replicate (Suc n) CHR ''x'') = 0"
    by (auto simp: ws_end_len_def x simp del: replicate.simps) (simp_all add: x numeral_2_eq_2 numeral_3_eq_3)
  with x show ?thesis by (simp add: trim_def trim_start.simps trim_end.simps)
qed

lemma unary_json: "json_laws unary_ser unary_de"
proof -
  have decoded: "code_entry (entry_code m k) = (k, v)" if "m k = Some v" for m k v
    using that by (simp add: code_entry_def entry_code_def)
  have "map_of (map code_entry (sorted_list_of_set (entry_code m ` dom m))) = m" if "finite (dom m)" for m
  proof (rule map_of_graph)
    show "m k = Some v" if "(k, v) \<in> set (map code_entry (sorted_list_of_set (entry_code m ` dom m)))" for k v
      using that \<open>finite (dom m)\<close> by (auto simp: decoded)
    show "dom m \<subseteq> fst ` set (map code_entry (sorted_list_of_set (entry_code m ` dom m)))"
    proof
      fix k assume "k \<in> dom m"
      then obtain v where "m k = Some v" by blast
      with decoded [of m k v] that show "k \<in> fst ` set (map code_entry (sorted_list_of_set (entry_code m ` dom m)))"
        by (force simp: image_iff)
    qed
  qed
  moreover have "valid_utf8 (replicate n CHR ''x'')" for n
    by (rule valid_utf8_ascii) (simp add: list_all_iff byte_def)
  ultimately show ?thesis
    by (auto simp: json_laws_def unary_ser_def unary_de_def trim_letters simp del: replicate.simps split: if_splits)
qed

definition demo_ingest_config :: IngestConfig where
  "demo_ingest_config = default_ingest\<lparr>ig_rustfs := default_rustfs\<lparr>rf_endpoint := Some ''e'', rf_bucket := Some ''b'',
     rf_access_key := Some ''a'', rf_secret_key := Some ''s''\<rparr>\<rparr>"

definition demo_pipeline_world :: "(VNode list, nat \<times> StreamTick list) ingest_world" where
  "demo_pipeline_world = (demo_world (\<lambda>_. good_net))\<lparr>iw_ser := unary_ser\<rparr>"

definition demo_fetcher :: ObjectFetcher where
  "demo_fetcher = \<lparr> of_bucket = ''b'', of_prefix = [] \<rparr>"

definition demo_meta :: ObjectMeta where
  "demo_meta = \<lparr> om_location = demo_key, om_e_tag = Some ''e1'' \<rparr>"

definition demo_store :: "string \<Rightarrow> (string + ObjectMeta) list" where
  "demo_store pre = [Inr demo_meta]"

definition demo_pipeline :: "(VNode list, nat \<times> StreamTick list, nat) Pipeline" where
  "demo_pipeline = ingest_start (\<lparr> mb_queue = [], mb_capacity = 256 \<rparr>,
     demo_ingest\<lparr>is_checkpoint := \<lparr> cp_path = ''./ingest.checkpoint.json'', cp_entries = Map.empty \<rparr>\<rparr>) True"

lemma demo_spawn:
  "ingest_spawn (\<lambda>_. None) unary_de Map.empty demo_ilp_app demo_ingest_config = Inr (pl_mailbox demo_pipeline, pl_actor demo_pipeline)"
  "ingest_start (pl_mailbox demo_pipeline, pl_actor demo_pipeline) True = demo_pipeline"
  by (simp_all add: ingest_spawn_def fetcher_from_config_def demo_ingest_config_def default_ingest_def default_rustfs_def
      load_def default_ingest_checkpoint_def demo_pipeline_def ingest_start_def demo_ingest_def)

lemma demo_pipeline_simps:
  "json_laws (iw_ser demo_pipeline_world) unary_de" "disk_ok demo_pipeline_world"
  "''./ingest.checkpoint.json'' = ic_path (ig_checkpoint demo_ingest_config)"
  "with_extension ''./ingest.checkpoint.json'' ''tmp'' \<noteq> ''./ingest.checkpoint.json''"
  "list_feather_objects demo_store demo_fetcher = Inr [demo_meta]"
  "fetcher_from_config (ig_rustfs demo_ingest_config) (\<lambda>_. None) = Inr demo_fetcher"
  "ir_enabled (ig_reconcile demo_ingest_config)"
  "served demo_pipeline_world demo_ingest_config (reconcile_msg (of_bucket demo_fetcher) demo_meta)"
  "order_ok (iw_env demo_pipeline_world n)"
proof -
  show "with_extension ''./ingest.checkpoint.json'' ''tmp'' \<noteq> ''./ingest.checkpoint.json''" by code_simp
  have "should_ingest_key demo_key" by code_simp
  then show "list_feather_objects demo_store demo_fetcher = Inr [demo_meta]"
    by (simp add: list_feather_objects_def demo_store_def demo_fetcher_def demo_meta_def matches_prefix_def)
  have "store_ok demo_pipeline_world demo_ingest_config (reconcile_msg (of_bucket demo_fetcher) demo_meta) n" for n
    by (simp add: store_ok_def demo_pipeline_world_def demo_world_def reconcile_msg_def demo_meta_def demo_ingest_config_def
        default_ingest_def demo_decode)
  moreover have "world_ok demo_pipeline_world n" for n
    using demo_world_ok [of "\<lambda>_. good_net" n] by (simp add: world_ok_def demo_pipeline_world_def)
  ultimately show "served demo_pipeline_world demo_ingest_config (reconcile_msg (of_bucket demo_fetcher) demo_meta)"
    by (auto simp: served_def)
qed (simp_all add: demo_pipeline_world_def unary_json demo_world_def disk_ok_def unary_ser_def demo_ingest_config_def
    default_ingest_def default_ingest_checkpoint_def default_ingest_reconcile_def fetcher_from_config_def default_rustfs_def demo_fetcher_def)

section \<open>Properties\<close>

text \<open>
  C9. The checkpoint never claims too much. However webhook requests, reconcile scans and the actor interleave from
  the start of the ingest on, and whatever network, store, decoder and disk do, the mailbox stays within its configured
  capacity, and every checkpoint entry, in memory or in the file a restart would load, is one that was loaded at the
  start or was written for one of the attempts made since. Such an attempt fetched and decoded the object of the entry,
  and delivered it completely: every line that is not blank had a shard, the lines of each shard are, in order and
  without gaps, part of what it has received, and the entry records the etag of the message, the time of the attempt and
  the number of lines. Of the entries loaded at the start nothing is claimed: an earlier run wrote them.
  Assumed are that a flush visits every open connection, that the JSON of the checkpoint reads back what was written
  (both from the documentation of the libraries), and that the temporary file is not the checkpoint file itself.
\<close>

theorem checkpoint_records_only_delivered_objects:
  assumes "ingest_spawn be de fs app config = Inr spawned" and "rtranclp (ingest_step w config de f) (ingest_start spawned reconciles) p"
    and "\<And>n. order_ok (iw_env w n)" and "json_laws (iw_ser w) de"
    and "with_extension (ic_path (ig_checkpoint config)) ''tmp'' \<noteq> ic_path (ig_checkpoint config)"
  shows "length (mb_queue (pl_mailbox p)) \<le> ig_mailbox_capacity config
    \<and> records_delivered w config (is_attempts (pl_actor p)) (cp_entries (is_checkpoint (snd spawned)))
        (cp_entries (is_checkpoint (pl_actor p))) (is_forwarder (pl_actor p))
    \<and> (\<forall>cp. load de (is_files (pl_actor p)) (ic_path (ig_checkpoint config)) = Inr cp \<longrightarrow>
        records_delivered w config (is_attempts (pl_actor p)) (cp_entries (is_checkpoint (snd spawned))) (cp_entries cp)
          (is_forwarder (pl_actor p)))"
proof -
  have "ingest_inv w config de f (cp_entries (is_checkpoint (snd spawned))) (ingest_start spawned reconciles)"
    using assms(3-5) ingest_start_inv [OF assms(1)] by (simp add: ingest_inv_def)
  from ingest_sys.reachable_inv [OF assms(2) this] show ?thesis
    by (simp add: ingest_inv_def pipeline_inv_def actor_inv_def)
qed

theorem checkpoint_records_only_delivered_objects_witness:
  "\<exists>p. rtranclp (ingest_step demo_pipeline_world demo_ingest_config unary_de demo_fetcher) demo_pipeline p
     \<and> contains (is_checkpoint (pl_actor p)) ''b'' demo_key
     \<and> records_delivered demo_pipeline_world demo_ingest_config (is_attempts (pl_actor p)) Map.empty
         (cp_entries (is_checkpoint (pl_actor p))) (is_forwarder (pl_actor p))"
proof -
  let ?w = demo_pipeline_world and ?c = demo_ingest_config
  let ?scan = "run_reconcile_loop unary_de demo_store demo_fetcher (ic_path (ig_checkpoint ?c)) (ig_reconcile ?c)"
  let ?m = "reconcile_msg (of_bucket demo_fetcher) demo_meta"
  let ?p = "drain_mailbox ?w ?c (?scan (?scan demo_pipeline))"
  have reach: "rtranclp (ingest_step ?w ?c unary_de demo_fetcher) (ingest_start (pl_mailbox demo_pipeline, pl_actor demo_pipeline) True) ?p"
    unfolding demo_spawn(2) drain_mailbox_def
    by (rule rtranclp_trans [OF two_scans actor_drain_reach])
  have scan: "?scan (?scan demo_pipeline) = demo_pipeline\<lparr>pl_mailbox := \<lparr> mb_queue = [?m], mb_capacity = 256 \<rparr>,
      pl_lag := Some 1, pl_loop := Sleeping\<rparr>"
    by (simp add: run_reconcile_loop_def scan_load_def scan_list_def demo_pipeline_simps demo_pipeline_def ingest_start_def
        demo_ingest_def load_def contains_def enqueue_def after_scan_def reconcile_msg_def)
      (simp add: demo_ingest_config_def default_ingest_def default_ingest_reconcile_def)
  have "finite_checkpoint (pl_actor demo_pipeline)" by (simp add: demo_pipeline_def ingest_start_def finite_checkpoint_def)
  from ingest_run_marks [OF demo_pipeline_simps(2,8) listed_eligible [OF demo_pipeline_simps(5,6)] this, where msgs = "[(0, ?m)]" and waiting = 0]
  have "contains (is_checkpoint (pl_actor ?p)) ''b'' demo_key"
    unfolding scan by (subst drain_mailbox_run)
      (simp_all add: demo_pipeline_def ingest_start_def reconcile_msg_def demo_fetcher_def demo_meta_def)
  moreover have "cp_entries (is_checkpoint (pl_actor demo_pipeline)) = Map.empty" by (simp add: demo_pipeline_def ingest_start_def)
  moreover note checkpoint_records_only_delivered_objects [OF demo_spawn(1) reach demo_pipeline_simps(9,1)
      demo_pipeline_simps(4) [unfolded demo_pipeline_simps(3)]]
  ultimately show ?thesis using reach unfolding demo_spawn(2) by (intro exI [of _ ?p]) simp
qed

text \<open>
  C14. The reconcile loop catches up. Assume that the periodic scan is enabled, the disk works, and the listing of the store
  never fails and does not change. Call a listed object servable if of any three attempts in a row one finds the object
  fetchable and decodable, the network working and every line routable; the others, which may
  never be ingested, are fewer than the mailbox has places. Then, whatever notifications were lost, the schedule in which
  scans and the actor alternate has, after as many rounds as it takes to pass the listed objects through the places that
  remain, every servable object in the checkpoint, in memory and in the file, and the next scan reports as its lag the
  number of listed objects that are still missing, which are at most the unservable ones: zero when there are none. What was
  in the mailbox before may fail or succeed. (With as many unservable objects as places the rest can starve:
  \<open>undecodable_objects_starve_the_rest\<close>.)
\<close>

theorem reconcile_catches_up:
  assumes "json_laws (iw_ser w) de" and "disk_ok w" and path: "path = ic_path (ig_checkpoint config)"
    and "with_extension path ''tmp'' \<noteq> path"
    and "list_feather_objects store f = Inr objects" and "fetcher_from_config (ig_rustfs config) be = Inr f"
    and "ir_enabled (ig_reconcile config)"
    and "pl_loop p = Sleeping" and "pl_current p = None" and "file_current de path (pl_actor p)"
    and unservable: "b = length (stuck w config (of_bucket f) objects)" and few: "b < mb_capacity (pl_mailbox p)"
    and "length objects \<le> n * (mb_capacity (pl_mailbox p) - b)"
    and p': "p' = catch_up w config de store f n p"
  shows "rtranclp (ingest_step w config de f) p p'
    \<and> (\<forall>m \<in> set (servable w config (of_bucket f) objects). contains (is_checkpoint (pl_actor p')) (of_bucket f) (om_location m))
    \<and> load de (is_files (pl_actor p')) path = Inr (is_checkpoint (pl_actor p'))
    \<and> pl_lag (reconcile_round w config de store f p') = Some (length (unseen (is_checkpoint (pl_actor p')) (of_bucket f) objects))
    \<and> length (unseen (is_checkpoint (pl_actor p')) (of_bucket f) objects) \<le> b"
proof -
  let ?c = "mb_capacity (pl_mailbox p)" and ?p = "drain_mailbox w config p" and ?f = "of_bucket f"
  let ?missing = "unseen (is_checkpoint (pl_actor p')) ?f objects"
  have "at_rest de path ?c ?p"
    using assms(8-10) ingest_run_current [OF assms(1,4,2), of "pl_actor p"] by (simp add: drain_mailbox_run at_rest_def)
  from rounds_settled [OF assms(1,4,2) path assms(5-7) this, of n]
  have fin: "at_rest de path ?c p'" and short: "length (servable w config ?f ?missing) \<le>
      length (servable w config ?f (unseen (is_checkpoint (pl_actor ?p)) ?f objects)) - n * (?c - b)"
    by (simp_all add: p' catch_up_def unservable)
  have "length (servable w config ?f (unseen (is_checkpoint (pl_actor ?p)) ?f objects)) \<le> length objects"
    unfolding servable_def unseen_def by (meson length_filter_le order_trans)
  with short assms(13) have none: "servable w config ?f ?missing = []" by simp
  then have "?missing = filter (\<lambda>m. \<not> contains (is_checkpoint (pl_actor p')) ?f (om_location m)) (stuck w config ?f objects)"
    by (auto simp: servable_def stuck_def unseen_def filter_empty_conv intro: filter_cong)
  then have le: "length ?missing \<le> b" by (simp add: unservable)
  with few reconcile_round_settled(3) [OF assms(1,4,2) path assms(5-7) fin refl]
  have "pl_lag (reconcile_round w config de store f p') = Some (length ?missing)" using assms(5) by simp
  with none le fin catch_up_reach [of w config de f p store n] show ?thesis
    by (auto simp: p' servable_def unseen_def filter_empty_conv at_rest_def file_current_def)
qed

theorem reconcile_catches_up_witness:
  "\<exists>p. contains (is_checkpoint (pl_actor p)) ''b'' demo_key
     \<and> rtranclp (ingest_step demo_pipeline_world demo_ingest_config unary_de demo_fetcher) (demo_pipeline\<lparr>pl_loop := Sleeping\<rparr>) p
     \<and> pl_lag (reconcile_round demo_pipeline_world demo_ingest_config unary_de demo_store demo_fetcher p) = Some 0"
proof -
  let ?p = "demo_pipeline\<lparr>pl_loop := Sleeping\<rparr>"
  let ?q = "catch_up demo_pipeline_world demo_ingest_config unary_de demo_store demo_fetcher 1 ?p"
  have none: "stuck demo_pipeline_world demo_ingest_config (of_bucket demo_fetcher) [demo_meta] = []"
    and all: "servable demo_pipeline_world demo_ingest_config (of_bucket demo_fetcher) [demo_meta] = [demo_meta]"
    by (simp_all add: stuck_def servable_def demo_pipeline_simps(8))
  have names: "of_bucket demo_fetcher = ''b''" "om_location demo_meta = demo_key"
    by (simp_all add: demo_fetcher_def demo_meta_def)
  have start: "pl_current ?p = None" "file_current unary_de ''./ingest.checkpoint.json'' (pl_actor ?p)"
    "mb_capacity (pl_mailbox ?p) = 256"
    by (simp_all add: demo_pipeline_def ingest_start_def file_current_def demo_ingest_def load_def finite_checkpoint_def)
  from reconcile_catches_up [OF demo_pipeline_simps(1-7) _ start(1,2) refl _ _ refl, where n = 1] show ?thesis
    by (intro exI [of _ ?q]) (simp add: start(3) names none [unfolded names] all [unfolded names],
        simp add: demo_pipeline_def ingest_start_def)
qed

end
