(* ===== verification/Observability.thy ===== *)
theory Observability
  imports Ingest_Actor Route_Plan
begin

text \<open>
  What the router shows of itself: the metrics of \<open>metrics/mod.rs\<close>, the logging set-up of \<open>logging/mod.rs\<close> and the
  request ids of \<open>protocol/request_id.rs\<close>. The metrics library is third-party: describing a metric and
  recording one are the values handed to it, and its exporter is the parameter \<open>install\<close>. Likewise the
  subscriber of the logging library is the parameter \<open>try_init\<close>, which is handed the layers.
\<close>

section \<open>Metrics\<close>

datatype MetricKind = CounterMetric | GaugeMetric | HistogramMetric

text \<open>A recorded value: an increment, a level, or an observation; times are numbers of a type of their own.\<close>

datatype 'f MetricValue = Increment u64 | Level nat | Observed nat | Elapsed 'f

record 'f MetricOp =
  mo_name :: string
  mo_labels :: "(string \<times> string) list"
  mo_value :: "'f MetricValue"

fun value_kind :: "'f MetricValue \<Rightarrow> MetricKind" where
  "value_kind (Increment _) = CounterMetric"
| "value_kind (Level _) = GaugeMetric"
| "value_kind (Observed _) = HistogramMetric"
| "value_kind (Elapsed _) = HistogramMetric"

definition metric_descriptions :: "(string \<times> MetricKind) list" where
  "metric_descriptions =
     [(''quest_router_requests_total'', CounterMetric),
      (''quest_router_request_duration_seconds'', HistogramMetric),
      (''quest_router_merge_latency_seconds'', HistogramMetric),
      (''quest_router_federated_queries_total'', CounterMetric),
      (''quest_router_federated_shards_queried'', HistogramMetric),
      (''quest_router_stream_ticks_published_total'', CounterMetric),
      (''quest_router_stream_subscribers'', GaugeMetric),
      (''quest_router_stream_client_lagged_total'', CounterMetric),
      (''quest_router_stream_client_dropped_total'', CounterMetric),
      (''quest_router_shard_healthy'', GaugeMetric),
      (''quest_router_ingest_events_received_total'', CounterMetric),
      (''quest_router_ingest_objects_processed_total'', CounterMetric),
      (''quest_router_ingest_rows_forwarded_total'', CounterMetric),
      (''quest_router_ingest_mailbox_depth'', GaugeMetric),
      (''quest_router_ingest_reconcile_lag_objects'', GaugeMetric)]"

text \<open>The exporter is installed with an HTTP listener when metrics are enabled, and without one otherwise.\<close>

definition metrics_init :: "(SocketAddr option \<Rightarrow> string + unit) \<Rightarrow> bool \<Rightarrow> SocketAddr option \<Rightarrow> string + unit" where
  "metrics_init install config_enabled listen =
     (if config_enabled
      then install (Some (case listen of Some addr \<Rightarrow> addr | None \<Rightarrow> \<lparr> sa_ip = V4 0x7F000001, sa_port = 9090 \<rparr>))
      else install None)"

definition record_request :: "string \<Rightarrow> u32 option \<Rightarrow> 'f MetricOp" where
  "record_request operation shard =
     \<lparr> mo_name = ''quest_router_requests_total'',
       mo_labels = [(''operation'', operation),
         (''shard'', case shard of Some i \<Rightarrow> nat_to_string (unat i) | None \<Rightarrow> ''unknown'')],
       mo_value = Increment 1 \<rparr>"

definition record_duration :: "string \<Rightarrow> 'f \<Rightarrow> 'f MetricOp" where
  "record_duration operation duration_secs =
     \<lparr> mo_name = ''quest_router_request_duration_seconds'', mo_labels = [(''operation'', operation)],
       mo_value = Elapsed duration_secs \<rparr>"

definition record_merge_latency :: "'f \<Rightarrow> 'f MetricOp" where
  "record_merge_latency duration_secs =
     \<lparr> mo_name = ''quest_router_merge_latency_seconds'', mo_labels = [], mo_value = Elapsed duration_secs \<rparr>"

fun plan_label :: "RoutePlan \<Rightarrow> string" where
  "plan_label (FullScan _) = ''full_scan''"
| "plan_label (AggregateScan _ _) = ''aggregate_scan''"
| "plan_label (Join _) = ''join''"
| "plan_label (GroupBy _ _ _) = ''group_by''"
| "plan_label (SingleShard _ _ _) = ''single_shard''"

definition record_federated_query :: "string \<Rightarrow> 'f MetricOp" where
  "record_federated_query plan =
     \<lparr> mo_name = ''quest_router_federated_queries_total'', mo_labels = [(''plan'', plan)], mo_value = Increment 1 \<rparr>"

definition record_federated_shards :: "nat \<Rightarrow> 'f MetricOp" where
  "record_federated_shards count =
     \<lparr> mo_name = ''quest_router_federated_shards_queried'', mo_labels = [], mo_value = Observed count \<rparr>"

definition emit_stream_tick_published :: "'f MetricOp" where
  "emit_stream_tick_published =
     \<lparr> mo_name = ''quest_router_stream_ticks_published_total'', mo_labels = [], mo_value = Increment 1 \<rparr>"

definition emit_stream_subscriber :: "string \<Rightarrow> nat \<Rightarrow> 'f MetricOp" where
  "emit_stream_subscriber topic count =
     \<lparr> mo_name = ''quest_router_stream_subscribers'', mo_labels = [(''topic'', topic)], mo_value = Level count \<rparr>"

definition record_stream_client_lagged :: "'f MetricOp" where
  "record_stream_client_lagged =
     \<lparr> mo_name = ''quest_router_stream_client_lagged_total'', mo_labels = [], mo_value = Increment 1 \<rparr>"

definition record_stream_client_dropped :: "'f MetricOp" where
  "record_stream_client_dropped =
     \<lparr> mo_name = ''quest_router_stream_client_dropped_total'', mo_labels = [], mo_value = Increment 1 \<rparr>"

definition emit_shard_health :: "u32 \<Rightarrow> string \<Rightarrow> bool \<Rightarrow> 'f MetricOp" where
  "emit_shard_health shard protocol healthy =
     \<lparr> mo_name = ''quest_router_shard_healthy'',
       mo_labels = [(''shard'', nat_to_string (unat shard)), (''protocol'', protocol)],
       mo_value = Level (if healthy then 1 else 0) \<rparr>"

definition record_ingest_events_received :: "IngestSource \<Rightarrow> nat \<Rightarrow> 'f MetricOp" where
  "record_ingest_events_received source count =
     \<lparr> mo_name = ''quest_router_ingest_events_received_total'', mo_labels = [(''source'', ingest_source_label source)],
       mo_value = Increment (of_nat count) \<rparr>"

definition record_ingest_reconcile_lag :: "nat \<Rightarrow> 'f MetricOp" where
  "record_ingest_reconcile_lag count =
     \<lparr> mo_name = ''quest_router_ingest_reconcile_lag_objects'', mo_labels = [], mo_value = Level count \<rparr>"

text \<open>The counters the ingest actor keeps in its log, as they reach the metrics library.\<close>

fun emit_ingest_metric :: "IngestMetric \<Rightarrow> 'f MetricOp" where
  "emit_ingest_metric (ObjectsProcessed source status) =
     \<lparr> mo_name = ''quest_router_ingest_objects_processed_total'', mo_labels = [(''source'', source), (''status'', status)],
       mo_value = Increment 1 \<rparr>"
| "emit_ingest_metric (RowsForwarded table rows) =
     \<lparr> mo_name = ''quest_router_ingest_rows_forwarded_total'', mo_labels = [(''table'', table)], mo_value = Increment rows \<rparr>"
| "emit_ingest_metric (MailboxDepth depth) =
     \<lparr> mo_name = ''quest_router_ingest_mailbox_depth'', mo_labels = [], mo_value = Level depth \<rparr>"

section \<open>Logging\<close>

datatype LogWriter = Stdout | AppendTo string

record LogLayer =
  ll_json :: bool
  ll_target :: bool
  ll_writer :: LogWriter

definition log_layer :: "bool \<Rightarrow> LogWriter \<Rightarrow> LogLayer" where
  "log_layer json writer = \<lparr> ll_json = json, ll_target = json, ll_writer = writer \<rparr>"

text \<open>
  The environment variables are a map; \<open>parse_filter\<close> says whether the library accepts a filter, and \<open>open_append\<close>
  is the attempt to open the log file for appending.
\<close>

definition logging_init ::
    "(string \<rightharpoonup> string) \<Rightarrow> (string \<Rightarrow> bool) \<Rightarrow> (string \<Rightarrow> string + unit) \<Rightarrow> (string \<Rightarrow> LogLayer list \<Rightarrow> string + unit) \<Rightarrow> string + unit" where
  "logging_init var parse_filter open_append try_init =
     (let filter = (case var ''RUST_LOG'' of Some f \<Rightarrow> if parse_filter f then f else ''info'' | None \<Rightarrow> ''info'');
          json = (case var ''QUEST_ROUTER__LOG__FORMAT'' of Some v \<Rightarrow> eq_ignore_ascii_case v ''json'' | None \<Rightarrow> False);
          file_path = (case var ''QUEST_ROUTER__LOG__FILE'' of Some p \<Rightarrow> if p = [] then None else Some p | None \<Rightarrow> None);
          start = (\<lambda>layers. case try_init filter layers of
             Inl e \<Rightarrow> Inl (''failed to init tracing subscriber: '' @ e) | Inr _ \<Rightarrow> Inr ())
      in case file_path of
           Some path \<Rightarrow>
             (case open_append path of
                Inl e \<Rightarrow> Inl (''failed to open log file '' @ path @ '': '' @ e)
              | Inr _ \<Rightarrow> start [log_layer json Stdout, log_layer json (AppendTo path)])
         | None \<Rightarrow> start [log_layer json Stdout])"

section \<open>Request ids\<close>

text \<open>The counter of the process, and the ids handed out: the old value, while the counter wraps at 64 bits.\<close>

definition request_counter :: u64 where
  "request_counter = 1"

definition next_request_id :: "u64 \<Rightarrow> u64 \<times> u64" where
  "next_request_id counter = (counter, counter + 1)"

text \<open>The ids of the first \<open>n\<close> requests of the process, in order.\<close>

fun request_ids :: "nat \<Rightarrow> u64 \<Rightarrow> u64 list" where
  "request_ids 0 counter = []"
| "request_ids (Suc n) counter = (case next_request_id counter of (i, counter') \<Rightarrow> i # request_ids n counter')"

section \<open>Lemmas\<close>

lemma request_ids_nth: "request_ids n c = map (\<lambda>k. c + of_nat k) [0..<n]"
proof (induction n arbitrary: c)
  case (Suc n)
  have "[0..<Suc n] = 0 # map Suc [0..<n]" by (metis map_Suc_upt upt_conv_Cons zero_less_Suc)
  with Suc [of "c + 1"] show ?case by (simp add: next_request_id_def comp_def algebra_simps)
qed simp

lemma of_nat_word_inj: "inj_on (of_nat :: nat \<Rightarrow> u64) {..<2 ^ 64}"
  by (rule inj_on_inverseI [where g = unat]) (simp add: unat_of_nat take_bit_nat_eq_self)

text \<open>Everything the router records has been described, with the kind it is recorded as.\<close>

definition described :: "'f MetricOp \<Rightarrow> bool" where
  "described op \<longleftrightarrow> (mo_name op, value_kind (mo_value op)) \<in> set metric_descriptions"

lemma recorded_metrics_are_described:
  "described (record_request operation shard)" "described (record_duration operation secs)"
  "described (record_merge_latency secs)" "described (record_federated_query plan)" "described (record_federated_shards count)"
  "described emit_stream_tick_published" "described (emit_stream_subscriber topic count)"
  "described record_stream_client_lagged" "described record_stream_client_dropped"
  "described (emit_shard_health shard_no protocol healthy)" "described (record_ingest_events_received source count)"
  "described (record_ingest_reconcile_lag count)" "described (emit_ingest_metric metric)"
  by (simp_all add: described_def metric_descriptions_def record_request_def record_duration_def record_merge_latency_def
      record_federated_query_def record_federated_shards_def emit_stream_tick_published_def emit_stream_subscriber_def
      record_stream_client_lagged_def record_stream_client_dropped_def emit_shard_health_def record_ingest_events_received_def
      record_ingest_reconcile_lag_def) (cases metric; simp)

section \<open>Properties\<close>

text \<open>
  C40. Request ids. The ids start at one and no two of the first \<open>2 ^ 64\<close> requests of a process share an id; the
  request after that gets the first id again.
\<close>

theorem request_ids_are_unique_until_wrap:
  "(n \<le> 2 ^ 64 \<longrightarrow> distinct (request_ids n request_counter))
   \<and> (0 < n \<longrightarrow> hd (request_ids n request_counter) = 1)
   \<and> request_ids (Suc (2 ^ 64)) request_counter ! (2 ^ 64) = hd (request_ids (Suc (2 ^ 64)) request_counter)"
proof (intro conjI impI)
  show "distinct (request_ids n request_counter)" if "n \<le> 2 ^ 64"
  proof -
    have "{0..<n} \<subseteq> {..<2 ^ 64}" using that by auto
    from inj_on_subset [OF of_nat_word_inj this] have "inj_on (\<lambda>k. request_counter + word_of_nat k) {0..<n}"
      by (simp add: inj_on_def)
    then show ?thesis by (simp add: request_ids_nth distinct_map)
  qed
  show "hd (request_ids n request_counter) = 1" if "0 < n"
    using that by (cases n) (simp_all add: next_request_id_def request_counter_def)
  have wrap: "(word_of_nat (2 ^ 64) :: u64) = 0" by simp
  have "request_ids (Suc (2 ^ 64)) request_counter ! (2 ^ 64) = request_counter + word_of_nat (2 ^ 64)"
    unfolding request_ids_nth by (subst nth_map) (simp_all del: upt_Suc)
  also have "\<dots> = hd (request_ids (Suc (2 ^ 64)) request_counter)"
    by (simp only: wrap request_ids.simps next_request_id_def prod.case list.sel add_0_right)
  finally show "request_ids (Suc (2 ^ 64)) request_counter ! (2 ^ 64) = hd (request_ids (Suc (2 ^ 64)) request_counter)" .
qed

theorem request_ids_are_unique_until_wrap_witness:
  "distinct (request_ids 3 request_counter) \<and> hd (request_ids 3 request_counter) = 1"
  using request_ids_are_unique_until_wrap [of 3] by simp

end
