(* ===== verification/Listeners.thy ===== *)
theory Listeners
  imports Server_Run Pg_Frontend Ilp_Server Ingest_Pipeline Observability
begin

text \<open>
  The listeners of the process and what it does when one of them ends: \<open>serve\<close> of \<open>protocol/ilp.rs\<close>, \<open>protocol/pg.rs\<close>
  (behind \<open>protocol/pg_gateway.rs\<close>), \<open>stream/ws.rs\<close> and \<open>ingest/http.rs\<close>, the end of \<open>run\<close> in \<open>server/mod.rs\<close>, and
  \<open>main.rs\<close>. Binding a socket, accepting connections and the third-party HTTP and PostgreSQL servers are parameters;
  what a listener has come to so far is None while it is serving, or its result. The crate is built with the
  feature \<open>federated\<close>.
\<close>

record listen_env =
  li_bind :: "SocketAddr \<Rightarrow> string + unit"
  li_accepts :: "(string + (string + bytes) list) list"
  li_axum :: "SocketAddr \<Rightarrow> (string + unit) option"
  li_pgwire :: "string \<Rightarrow> u16 \<Rightarrow> (string + unit) option"

section \<open>Addresses as text\<close>

fun nat_to_hex :: "nat \<Rightarrow> string" where
  "nat_to_hex n =
     (let d = (\<lambda>k. char_of (if k < 10 then 48 + k else 87 + k))
      in if n < 16 then [d n] else nat_to_hex (n div 16) @ [d (n mod 16)])"

declare nat_to_hex.simps [simp del]

definition ipv4_text :: "32 word \<Rightarrow> string" where
  "ipv4_text a =
     nat_to_string (unat a div 2 ^ 24) @ ''.'' @ nat_to_string (unat a div 2 ^ 16 mod 256) @ ''.''
     @ nat_to_string (unat a div 2 ^ 8 mod 256) @ ''.'' @ nat_to_string (unat a mod 256)"

definition segments :: "128 word \<Rightarrow> nat list" where
  "segments a = map (\<lambda>i. unat a div 2 ^ (16 * (7 - i)) mod 2 ^ 16) [0..<8]"

text \<open>The first longest run of zero segments, as its start and length; \<open>(s, l)\<close> is the run being read.\<close>

fun zero_run :: "nat list \<Rightarrow> nat \<Rightarrow> nat \<times> nat \<Rightarrow> nat \<times> nat \<Rightarrow> nat \<times> nat" where
  "zero_run [] i current longest = longest"
| "zero_run (x # xs) i (s, l) longest =
     (if x = 0 then (let c = (if l = 0 then i else s, l + 1)
                     in zero_run xs (i + 1) c (if l + 1 > snd longest then c else longest))
      else zero_run xs (i + 1) (0, 0) longest)"

definition colon_join :: "nat list \<Rightarrow> string" where
  "colon_join xs = concat (case map nat_to_hex xs of [] \<Rightarrow> [] | h # t \<Rightarrow> h # map (\<lambda>x. '':'' @ x) t)"

definition ipv6_text :: "128 word \<Rightarrow> string" where
  "ipv6_text a =
     (let ss = segments a
      in if take 6 ss = [0, 0, 0, 0, 0, 65535] then ''::ffff:'' @ ipv4_text (word_of_nat (unat a mod 2 ^ 32))
         else case zero_run ss 0 (0, 0) (0, 0) of
           (s, l) \<Rightarrow> if l > 1 then colon_join (take s ss) @ ''::'' @ colon_join (drop (s + l) ss) else colon_join ss)"

definition pg_host :: "SocketAddr \<Rightarrow> string" where
  "pg_host listen = (case sa_ip listen of V4 v4 \<Rightarrow> ipv4_text v4 | V6 v6 \<Rightarrow> ''['' @ ipv6_text v6 @ '']'')"

section \<open>The listeners\<close>

fun accept_loop :: "(string + (string + bytes) list) list \<Rightarrow> ('r, 'c, 'k) IlpServer \<Rightarrow> ('r, 'c, 'k) IlpServer" where
  "accept_loop [] s = s"
| "accept_loop (socket # sockets) s =
     (let s' = ilp_accept socket s
      in case il_result s' of Some e \<Rightarrow> s' | None \<Rightarrow> accept_loop sockets s')"

definition ilp_serve :: "listen_env \<Rightarrow> ('r, 'c, 'k) AppState \<Rightarrow> SocketAddr \<Rightarrow> (string + unit) option" where
  "ilp_serve le st listen =
     (case ilp_bind (li_bind le) listen st of
        Inl e \<Rightarrow> Some (Inl e)
      | Inr s \<Rightarrow> map_option Inl (il_result (accept_loop (li_accepts le) s)))"

definition pg_serve ::
    "listen_env \<Rightarrow> ('d, 'b) df_ops \<Rightarrow> ('d \<Rightarrow> string option) \<Rightarrow> ('r, 'c, 'k) AppState \<Rightarrow> SocketAddr \<Rightarrow> (string + unit) option" where
  "pg_serve le df setup_pg_catalog st listen =
     (case build_session_context df (df_new df) setup_pg_catalog st of
        Inl e \<Rightarrow> Some (Inl e)
      | Inr ctx \<Rightarrow> li_pgwire le (pg_host listen) (sa_port listen))"

definition gateway_serve ::
    "listen_env \<Rightarrow> ('d, 'b) df_ops \<Rightarrow> ('d \<Rightarrow> string option) \<Rightarrow> ('r, 'c, 'k) AppState \<Rightarrow> SocketAddr \<Rightarrow> (string + unit) option" where
  "gateway_serve le df setup_pg_catalog state listen = pg_serve le df setup_pg_catalog state listen"

datatype Method = GET | POST

definition stream_routes :: "(string \<times> Method) list" where
  "stream_routes = [(''/ws'', GET)]"

definition ingest_health :: StatusCode where
  "ingest_health = StatusOk"

definition ingest_routes ::
    "(string \<Rightarrow> string + S3NotificationEnvelope) \<Rightarrow> HttpState
       \<Rightarrow> (string \<times> Method \<times> (string + string \<Rightarrow> Mailbox \<Rightarrow> StatusCode \<times> Mailbox)) list" where
  "ingest_routes de st =
     [(''/ingest/events'', POST, ingest_events de st), (''/ingest/health'', GET, \<lambda>body mb. (ingest_health, mb))]"

definition http_serve :: "listen_env \<Rightarrow> SocketAddr \<Rightarrow> (string + unit) option" where
  "http_serve le listen = (case li_bind le listen of Inl e \<Rightarrow> Some (Inl e) | Inr _ \<Rightarrow> li_axum le listen)"

fun task_result ::
    "listen_env \<Rightarrow> ('d, 'b) df_ops \<Rightarrow> ('d \<Rightarrow> string option) \<Rightarrow> ('r, 'c, 'k) AppState \<Rightarrow> ServerTask \<Rightarrow> (string + unit) option" where
  "task_result le df setup st (ServeIlp a) = ilp_serve le st a"
| "task_result le df setup st (ServePg a) = gateway_serve le df setup st a"
| "task_result le df setup st (ServeStream a) = http_serve le a"
| "task_result le df setup st (ServeIngest hs a) = http_serve le a"

section \<open>The process\<close>

text \<open>
  The combinator \<open>try_join_all\<close> of the \<open>futures\<close> crate, with which \<open>run\<close> waits, as its documentation describes it: polled with what
  the tasks have come to, it fails with the first failure, in order, and succeeds when all tasks have.
\<close>

fun try_join_all :: "(string + unit) option list \<Rightarrow> (string + unit) option" where
  "try_join_all [] = Some (Inr ())"
| "try_join_all (Some (Inl e) # rs) = Some (Inl e)"
| "try_join_all (Some (Inr _) # rs) = try_join_all rs"
| "try_join_all (None # rs) = (case try_join_all rs of Some (Inl e) \<Rightarrow> Some (Inl e) | _ \<Rightarrow> None)"

text \<open>\<open>run\<close> once the components are started: it waits for the listeners, and ends with the first failure.\<close>

definition run_router ::
    "listen_env \<Rightarrow> ('d, 'b) df_ops \<Rightarrow> ('d \<Rightarrow> string option) \<Rightarrow> string + ('r, 'c, 'k) Server \<Rightarrow> (string + unit) option" where
  "run_router le df setup started =
     (case started of
        Inl e \<Rightarrow> Some (Inl e)
      | Inr sv \<Rightarrow> try_join_all (map (task_result le df setup (sv_state sv)) (sv_tasks sv)))"

definition cli_config :: "string option \<Rightarrow> string" where
  "cli_config arg = (case arg of Some p \<Rightarrow> p | None \<Rightarrow> ''config/quest-router.toml'')"

definition main_router :: "string + unit \<Rightarrow> (string \<Rightarrow> (string + unit) option) \<Rightarrow> string option \<Rightarrow> (string + unit) option" where
  "main_router logging run arg = (case logging of Inl e \<Rightarrow> Some (Inl e) | Inr _ \<Rightarrow> run (cli_config arg))"

section \<open>Lemmas\<close>

lemma try_join_all_failed:
  "(\<exists>e. try_join_all rs = Some (Inl e)) \<longleftrightarrow> (\<exists>e. Some (Inl e) \<in> set rs)"
  by (induction rs rule: try_join_all.induct) (auto split: option.splits sum.splits)

lemma try_join_all_error: "try_join_all rs = Some (Inl e) \<Longrightarrow> Some (Inl e) \<in> set rs"
  by (induction rs rule: try_join_all.induct) (auto split: option.splits sum.splits)

lemma try_join_all_done: "try_join_all rs = Some (Inr x) \<longleftrightarrow> (\<forall>r \<in> set rs. r = Some (Inr ()))"
  by (induction rs rule: try_join_all.induct) (auto split: option.splits sum.splits)

lemma try_join_all_serving: "try_join_all rs = None \<longleftrightarrow> (\<forall>r \<in> set rs. \<forall>e. r \<noteq> Some (Inl e)) \<and> None \<in> set rs"
  by (induction rs rule: try_join_all.induct) (auto simp: try_join_all_done split: option.splits sum.splits dest: try_join_all_error)

lemma accept_loop_result:
  "il_result s = None \<Longrightarrow>
     il_result (accept_loop sockets s) = (case filter isl sockets of [] \<Rightarrow> None | socket # _ \<Rightarrow> Some (projl socket))"
proof (induction sockets arbitrary: s)
  case (Cons socket sockets)
  show ?case
  proof (cases socket)
    case (Inr reads)
    with Cons show ?thesis by (simp add: ilp_accept_def)
  qed (use Cons.prems in \<open>simp add: ilp_accept_def\<close>)
qed simp

lemma ilp_serve_accept_failure:
  assumes "Inl e \<in> set (li_accepts le)"
  shows "\<exists>e'. ilp_serve le st a = Some (Inl e')"
proof -
  have "filter isl (li_accepts le) \<noteq> []" using assms by (force simp: filter_empty_conv)
  then show ?thesis
    by (auto simp: ilp_serve_def ilp_bind_def accept_loop_result neq_Nil_conv split: sum.splits)
qed

lemma started_tasks:
  assumes "server_run env path = Inr sv"
  shows "ServeIlp (lc_ilp (cfg_listen (as_config (sv_state sv)))) \<in> set (sv_tasks sv)"
    and "ServePg (lc_pg (cfg_listen (as_config (sv_state sv)))) \<in> set (sv_tasks sv)"
    and "from_file (se_load env) path = Inr (as_config (sv_state sv))"
  using assms by (auto simp: server_run_def Let_def split: sum.splits dest: started_app(2))

text \<open>Listeners that serve, and a configuration with federated queries switched off.\<close>

definition demo_listen :: listen_env where
  "demo_listen = \<lparr> li_bind = (\<lambda>_. Inr ()), li_accepts = [], li_axum = (\<lambda>_. None), li_pgwire = (\<lambda>_ _. None) \<rparr>"

definition unfederated :: Config where
  "unfederated = (demo_config [demo_shard 0] 1)\<lparr>cfg_routing :=
     (cfg_routing (demo_config [demo_shard 0] 1))\<lparr>rc_federated_enabled := False\<rparr>\<rparr>"

lemma demo_started:
  "(server_run demo_server_env ''router.toml'' :: string + (VNode list, nat \<times> StreamTick list, nat) Server) =
     Inr (projr (server_run demo_server_env ''router.toml''))"
  by (simp add: server_run_def demo_server_env_def from_file_def app_new_def start_ingest_def stream_tasks_def Let_def
      demo_config_def default_stream_def default_ingest_def)

section \<open>Properties\<close>

text \<open>
  C39. The listeners stand and fall together. The process ends with an error exactly when one of its listeners has
  failed, with the error of one that has, and it is still serving exactly when none has failed and not all have
  ended. In particular one failed \<open>accept\<close> of the ILP listener ends the SQL, stream and ingest listeners too. The waiting
  itself is that of the \<open>futures\<close> crate, as documented.
\<close>

theorem one_failed_listener_ends_the_process:
  assumes "(server_run env path :: string + ('r, 'c, 'k) Server) = Inr sv"
  shows "((\<exists>e. run_router le df setup (server_run env path :: string + ('r, 'c, 'k) Server) = Some (Inl e)) \<longleftrightarrow>
      (\<exists>t \<in> set (sv_tasks sv). \<exists>e. task_result le df setup (sv_state sv) t = Some (Inl e)))
    \<and> (\<forall>e. run_router le df setup (server_run env path :: string + ('r, 'c, 'k) Server) = Some (Inl e) \<longrightarrow>
        (\<exists>t \<in> set (sv_tasks sv). task_result le df setup (sv_state sv) t = Some (Inl e)))
    \<and> (run_router le df setup (server_run env path :: string + ('r, 'c, 'k) Server) = None \<longleftrightarrow>
        (\<forall>t \<in> set (sv_tasks sv). \<forall>e. task_result le df setup (sv_state sv) t \<noteq> Some (Inl e))
      \<and> (\<exists>t \<in> set (sv_tasks sv). task_result le df setup (sv_state sv) t = None))
    \<and> ((\<exists>e. Inl e \<in> set (li_accepts le)) \<longrightarrow>
        (\<exists>e. run_router le df setup (server_run env path :: string + ('r, 'c, 'k) Server) = Some (Inl e)))"
proof -
  let ?run = "run_router le df setup (server_run env path :: string + ('r, 'c, 'k) Server)"
  have run: "?run = try_join_all (map (task_result le df setup (sv_state sv)) (sv_tasks sv))"
    by (simp add: run_router_def assms)
  have iff: "(\<exists>e. ?run = Some (Inl e)) \<longleftrightarrow> (\<exists>t \<in> set (sv_tasks sv). \<exists>e. task_result le df setup (sv_state sv) t = Some (Inl e))"
    unfolding run try_join_all_failed by (auto simp: image_iff eq_commute [of "Some (Inl _)"])
  moreover have "\<exists>t \<in> set (sv_tasks sv). task_result le df setup (sv_state sv) t = Some (Inl e)" if "?run = Some (Inl e)" for e
    using try_join_all_error [OF that [unfolded run]] by (auto simp: image_iff eq_commute [of "Some (Inl _)"])
  moreover have "?run = None \<longleftrightarrow> (\<forall>t \<in> set (sv_tasks sv). \<forall>e. task_result le df setup (sv_state sv) t \<noteq> Some (Inl e))
      \<and> (\<exists>t \<in> set (sv_tasks sv). task_result le df setup (sv_state sv) t = None)"
    unfolding run try_join_all_serving by (auto simp: image_iff eq_commute [of None])
  moreover have "\<exists>e. ?run = Some (Inl e)" if "\<exists>e. Inl e \<in> set (li_accepts le)"
  proof -
    from that ilp_serve_accept_failure obtain e where
      "task_result le df setup (sv_state sv) (ServeIlp (lc_ilp (cfg_listen (as_config (sv_state sv))))) = Some (Inl e)"
      by fastforce
    with iff started_tasks(1) [OF assms] show ?thesis by blast
  qed
  ultimately show ?thesis by blast
qed

theorem one_failed_listener_ends_the_process_witness:
  "\<exists>e. run_router (demo_listen\<lparr>li_accepts := [Inr [], Inl ''Too many open files'']\<rparr>) demo_df (\<lambda>_. None)
     (server_run demo_server_env ''router.toml'' :: string + (VNode list, nat \<times> StreamTick list, nat) Server) = Some (Inl e)"
  using one_failed_listener_ends_the_process [OF demo_started, of "demo_listen\<lparr>li_accepts := [Inr [], Inl ''Too many open files'']\<rparr>"]
  by auto

text \<open>
  Switching federated queries off stops the router. A configuration with \<open>routing.federated_enabled = false\<close> is
  accepted and every component starts, but the SQL listener refuses to serve, which ends the whole process, ILP
  writes included; with an ILP listener that has not failed this is the error reported.
\<close>

theorem disabled_federation_ends_the_process:
  assumes "(server_run env path :: string + ('r, 'c, 'k) Server) = Inr sv" and "from_file (se_load env) path = Inr config"
    and "\<not> rc_federated_enabled (cfg_routing config)"
  shows "(\<exists>e. run_router le df setup (server_run env path :: string + ('r, 'c, 'k) Server) = Some (Inl e))
    \<and> (ilp_serve le (sv_state sv) (lc_ilp (cfg_listen config)) = None \<longrightarrow>
        run_router le df setup (server_run env path :: string + ('r, 'c, 'k) Server) =
          Some (Inl ''federated queries are disabled; enable routing.federated_enabled''))"
proof -
  from started_tasks(3) [OF assms(1)] assms(2) have config: "as_config (sv_state sv) = config" by simp
  with assms(3) have pg: "gateway_serve le df setup (sv_state sv) a =
      Some (Inl ''federated queries are disabled; enable routing.federated_enabled'')" for a
    by (simp add: gateway_serve_def pg_serve_def build_session_context_def)
  from assms(1) obtain tasks where "sv_tasks sv = [ServeIlp (lc_ilp (cfg_listen config)), ServePg (lc_pg (cfg_listen config))] @ tasks"
    using config by (auto simp: server_run_def Let_def split: sum.splits)
  then have run: "run_router le df setup (server_run env path :: string + ('r, 'c, 'k) Server) =
      try_join_all (ilp_serve le (sv_state sv) (lc_ilp (cfg_listen config))
        # Some (Inl ''federated queries are disabled; enable routing.federated_enabled'')
        # map (task_result le df setup (sv_state sv)) tasks)"
    by (simp add: run_router_def assms(1) pg)
  then have "\<exists>e. run_router le df setup (server_run env path :: string + ('r, 'c, 'k) Server) = Some (Inl e)"
    by (simp only: try_join_all_failed) auto
  with run show ?thesis by simp
qed

theorem disabled_federation_ends_the_process_witness:
  "run_router demo_listen demo_df (\<lambda>_. None)
     (server_run (demo_server_env\<lparr>se_load := \<lambda>_. Inr unfederated\<rparr>) ''router.toml'' :: string + (VNode list, nat \<times> StreamTick list, nat) Server)
   = Some (Inl ''federated queries are disabled; enable routing.federated_enabled'')"
proof -
  let ?env = "demo_server_env\<lparr>se_load := \<lambda>_. Inr unfederated\<rparr>"
  have started: "(server_run ?env ''router.toml'' :: string + (VNode list, nat \<times> StreamTick list, nat) Server) =
      Inr (projr (server_run ?env ''router.toml''))"
    by (simp add: server_run_def demo_server_env_def unfederated_def from_file_def app_new_def start_ingest_def stream_tasks_def
        Let_def demo_config_def default_stream_def default_ingest_def)
  have config: "from_file (se_load ?env) ''router.toml'' = Inr unfederated"
    by (simp add: from_file_def unfederated_def demo_config_def default_stream_def default_ingest_def)
  have "ilp_serve demo_listen st a = None" for st :: "(VNode list, nat \<times> StreamTick list, nat) AppState" and a
    by (simp add: ilp_serve_def ilp_bind_def demo_listen_def)
  with disabled_federation_ends_the_process [OF started config, of demo_listen demo_df "\<lambda>_. None"] show ?thesis
    by (simp add: unfederated_def)
qed

end
