(* ===== verification/Pg_Tasks.thy ===== *)
theory Pg_Tasks
  imports Pg_Frontend "HOL-Library.Multiset"
begin

text \<open>
  \<open>query_shard\<close> of \<open>federated/arrow.rs\<close> taken apart at the points where the task that runs it can be overtaken by
  others: waiting for the permit, looking into the idle list, connecting, asking the shard, putting the
  connection back and freeing the permit, with a second round after a broken connection. A task between two of
  these points is a value; what it holds of the pool is a \<open>Handle\<close> of \<open>Pg_Pool\<close>.
\<close>

type_synonym QueryResult = "PgWireError + ClientResponse list"

datatype 'k QueryStage =
    WantPermit
  | TryIdle
  | Dialling
  | Asking "'k PooledClient"
  | Dropping "'k PooledClient" "QueryResult option"
  | Unlocking "QueryResult option"
  | Finished QueryResult

record 'k ShardTask =
  tk_shard :: u32
  tk_sql :: string
  tk_again :: bool
  tk_stage :: "'k QueryStage"

definition task_start :: "u32 \<Rightarrow> string \<Rightarrow> 'k ShardTask" where
  "task_start i sql = \<lparr> tk_shard = i, tk_sql = sql, tk_again = False, tk_stage = WantPermit \<rparr>"

lemma task_start_simps [simp]:
  "tk_shard (task_start i sql) = i" "tk_sql (task_start i sql) = sql" "\<not> tk_again (task_start i sql)"
  "tk_stage (task_start i sql) = WantPermit"
  by (simp_all add: task_start_def)

definition pool_failed :: "u32 \<Rightarrow> PoolError \<Rightarrow> QueryResult" where
  "pool_failed i e = Inl (fed_to_pgwire (ShardQuery i (pool_message e)))"

definition after_reply :: "('g, 'k) fed_env \<Rightarrow> bool \<Rightarrow> 'k PooledClient \<Rightarrow> QueryResult \<Rightarrow> 'k QueryStage" where
  "after_reply env again pc reply =
     (case reply of
        Inr responses \<Rightarrow> Dropping pc (Some (Inr responses))
      | Inl e \<Rightarrow>
          if again then Dropping pc (Some (Inl e))
          else if is_missing_table_error (fe_show env) e then Dropping pc (Some (Inr []))
          else if is_connection_error (fe_show env) e then Dropping (invalidate pc) None
          else Dropping pc (Some (Inl e)))"

definition task_step ::
    "('g, 'k) fed_env \<Rightarrow> 'k ShardPgPool \<Rightarrow> 'k ShardTask \<Rightarrow> ('k ShardTask \<times> 'k ShardPgPool) option" where
  "task_step env pool t =
     (let i = tk_shard t in
      case tk_stage t of
        WantPermit \<Rightarrow>
          (case acquire_permit pool i of
             Inl e \<Rightarrow> Some (t\<lparr>tk_stage := Finished (pool_failed i e)\<rparr>, pool)
           | Inr None \<Rightarrow> None
           | Inr (Some pool') \<Rightarrow> Some (t\<lparr>tk_stage := TryIdle\<rparr>, pool'))
      | TryIdle \<Rightarrow>
          (case pop_idle pool i of
             (Some client, pool') \<Rightarrow> Some (t\<lparr>tk_stage := Asking (pooled i client)\<rparr>, pool')
           | (None, pool') \<Rightarrow> Some (t\<lparr>tk_stage := Dialling\<rparr>, pool'))
      | Dialling \<Rightarrow>
          (case connect (fe_parse_conn env) (fe_dial env) pool i of
             Inr client \<Rightarrow> Some (t\<lparr>tk_stage := Asking (pooled i client)\<rparr>, pool)
           | Inl e \<Rightarrow> Some (t\<lparr>tk_stage := Finished (pool_failed i e)\<rparr>, release_permit pool i))
      | Asking pc \<Rightarrow>
          Some (t\<lparr>tk_stage := after_reply env (tk_again t) pc (query_shard_client env pc (tk_sql t))\<rparr>, pool)
      | Dropping pc r \<Rightarrow> Some (t\<lparr>tk_stage := Unlocking r\<rparr>, drop_client pool pc)
      | Unlocking (Some r) \<Rightarrow> Some (t\<lparr>tk_stage := Finished r\<rparr>, release_permit pool i)
      | Unlocking None \<Rightarrow> Some (t\<lparr>tk_stage := WantPermit, tk_again := True\<rparr>, release_permit pool i)
      | Finished r \<Rightarrow> None)"

definition task_answer :: "'k ShardTask \<Rightarrow> QueryResult option" where
  "task_answer t = (case tk_stage t of Finished r \<Rightarrow> Some r | _ \<Rightarrow> None)"

section \<open>Running a task without interruption\<close>

fun stage_rank :: "'k QueryStage \<Rightarrow> nat" where
  "stage_rank (Finished r) = 0"
| "stage_rank (Unlocking r) = 1"
| "stage_rank (Dropping pc r) = 2"
| "stage_rank (Asking pc) = 3"
| "stage_rank Dialling = 4"
| "stage_rank TryIdle = 5"
| "stage_rank WantPermit = 6"

fun will_retry :: "'k QueryStage \<Rightarrow> bool" where
  "will_retry (Unlocking r) = (r = None)"
| "will_retry (Dropping pc r) = (r = None)"
| "will_retry _ = False"

text \<open>
  A round takes at most six steps and a task has at most two rounds; only the first can end in a retry.
\<close>

definition task_rank :: "'k ShardTask \<Rightarrow> nat" where
  "task_rank t = stage_rank (tk_stage t) + (if tk_again t then (if will_retry (tk_stage t) then 7 else 0) else 7)"

lemma task_step_rank: "task_step env pool t = Some (t', pool') \<Longrightarrow> task_rank t' < task_rank t"
  by (auto simp: task_step_def task_rank_def after_reply_def Let_def
      split: QueryStage.splits sum.splits option.splits prod.splits if_splits)

function run_task :: "('g, 'k) fed_env \<Rightarrow> 'k ShardPgPool \<Rightarrow> 'k ShardTask \<Rightarrow> 'k ShardTask \<times> 'k ShardPgPool" where
  "run_task env pool t =
     (case task_step env pool t of None \<Rightarrow> (t, pool) | Some (t', pool') \<Rightarrow> run_task env pool' t')"
  by pat_completeness auto
termination by (relation "measure (\<lambda>(env, pool, t). task_rank t)") (auto dest: task_step_rank)

declare run_task.simps [simp del]

lemma run_task_None: "task_step env pool t = None \<Longrightarrow> run_task env pool t = (t, pool)"
  by (subst run_task.simps) simp

lemma run_task_Some: "task_step env pool t = Some (t', pool') \<Longrightarrow> run_task env pool t = run_task env pool' t'"
  by (subst run_task.simps) simp

abbreviation at_stage :: "'k ShardTask \<Rightarrow> 'k QueryStage \<Rightarrow> 'k ShardTask" where
  "at_stage t stg \<equiv> t\<lparr>tk_stage := stg\<rparr>"

lemma again_at_stage: "at_stage t stg\<lparr>tk_again := b\<rparr> = at_stage (t\<lparr>tk_again := b\<rparr>) stg"
  by simp

lemma run_finished: "run_task env pool (at_stage t (Finished r)) = (at_stage t (Finished r), pool)"
  by (rule run_task_None) (simp add: task_step_def)

lemma run_acquire:
  "run_task env pool (at_stage t WantPermit) =
     (case acquire (fe_parse_conn env) (fe_dial env) pool (tk_shard t) of
        (Inl e, pool') \<Rightarrow> (at_stage t (Finished (pool_failed (tk_shard t) e)), pool')
      | (Inr None, pool') \<Rightarrow> (at_stage t WantPermit, pool')
      | (Inr (Some pc), pool') \<Rightarrow> run_task env pool' (at_stage t (Asking pc)))"
proof (cases "acquire_permit pool (tk_shard t)")
  case (Inl e)
  then show ?thesis by (simp add: acquire_def run_finished run_task_Some [of _ _ _ "at_stage t (Finished (pool_failed (tk_shard t) e))" pool] task_step_def)
next
  case (Inr p)
  show ?thesis
  proof (cases p)
    case None
    with Inr show ?thesis by (simp add: acquire_def run_task_None task_step_def)
  next
    case (Some pool1)
    with Inr have a: "run_task env pool (at_stage t WantPermit) = run_task env pool1 (at_stage t TryIdle)"
      by (intro run_task_Some) (simp add: task_step_def)
    obtain c pool2 where pop: "pop_idle pool1 (tk_shard t) = (c, pool2)" by (cases "pop_idle pool1 (tk_shard t)")
    show ?thesis
    proof (cases c)
      case (Some k)
      with pop have "run_task env pool1 (at_stage t TryIdle) = run_task env pool2 (at_stage t (Asking (pooled (tk_shard t) k)))"
        by (intro run_task_Some) (simp add: task_step_def)
      with a Inr \<open>p = Some pool1\<close> pop Some show ?thesis by (simp add: acquire_def)
    next
      case None
      with pop have b: "run_task env pool1 (at_stage t TryIdle) = run_task env pool2 (at_stage t Dialling)"
        by (intro run_task_Some) (simp add: task_step_def)
      have "run_task env pool2 (at_stage t Dialling) =
          (case connect (fe_parse_conn env) (fe_dial env) pool2 (tk_shard t) of
             Inr k \<Rightarrow> run_task env pool2 (at_stage t (Asking (pooled (tk_shard t) k)))
           | Inl e \<Rightarrow> run_task env (release_permit pool2 (tk_shard t)) (at_stage t (Finished (pool_failed (tk_shard t) e))))"
        by (cases "connect (fe_parse_conn env) (fe_dial env) pool2 (tk_shard t)")
          (simp_all add: run_task.simps [of env pool2 "at_stage t Dialling"] task_step_def Let_def)
      with a b Inr \<open>p = Some pool1\<close> pop None show ?thesis by (auto simp: acquire_def run_finished split: sum.splits)
    qed
  qed
qed

lemma run_drop:
  assumes "pc_shard_id pc = tk_shard t"
  shows "run_task env pool (at_stage t (Dropping pc r)) =
    (case r of
       Some r' \<Rightarrow> (at_stage t (Finished r'), give_back pool pc)
     | None \<Rightarrow> run_task env (give_back pool pc) (t\<lparr>tk_stage := WantPermit, tk_again := True\<rparr>))"
proof -
  have "run_task env pool (at_stage t (Dropping pc r)) = run_task env (drop_client pool pc) (at_stage t (Unlocking r))"
    by (rule run_task_Some) (simp add: task_step_def)
  moreover have "run_task env (drop_client pool pc) (at_stage t (Unlocking r)) =
      (case r of Some r' \<Rightarrow> run_task env (give_back pool pc) (at_stage t (Finished r'))
       | None \<Rightarrow> run_task env (give_back pool pc) (t\<lparr>tk_stage := WantPermit, tk_again := True\<rparr>))"
    using assms by (cases r) (simp_all add: run_task.simps [of env "drop_client pool pc"] task_step_def give_back_def)
  ultimately show ?thesis by (cases r) (simp_all add: run_finished)
qed

lemma run_ask:
  "run_task env pool (at_stage t (Asking pc)) =
     run_task env pool (at_stage t (after_reply env (tk_again t) pc (query_shard_client env pc (tk_sql t))))"
  by (rule run_task_Some) (simp add: task_step_def)

lemma run_asked:
  assumes "pc_shard_id pc = tk_shard t"
  shows "run_task env pool (at_stage t (Asking pc)) =
    (case query_shard_client env pc (tk_sql t) of
       Inr responses \<Rightarrow> (at_stage t (Finished (Inr responses)), give_back pool pc)
     | Inl e \<Rightarrow>
         if tk_again t then (at_stage t (Finished (Inl e)), give_back pool pc)
         else if is_missing_table_error (fe_show env) e then (at_stage t (Finished (Inr [])), give_back pool pc)
         else if is_connection_error (fe_show env) e
           then run_task env (give_back pool (invalidate pc)) (t\<lparr>tk_stage := WantPermit, tk_again := True\<rparr>)
         else (at_stage t (Finished (Inl e)), give_back pool pc))"
  using assms by (simp add: run_ask after_reply_def run_drop split: sum.splits)

lemma acquired_shard: "acquire pc dl pool i = (Inr (Some c), p) \<Longrightarrow> pc_shard_id c = i"
  by (auto simp: acquire_def pooled_def split: sum.splits option.splits prod.splits)

section \<open>Tasks and the pool\<close>

fun stage_handles :: "u32 \<Rightarrow> 'k QueryStage \<Rightarrow> 'k Handle list" where
  "stage_handles i TryIdle = [Permitted i]"
| "stage_handles i Dialling = [Connecting i]"
| "stage_handles i (Asking pc) = [Out pc]"
| "stage_handles i (Dropping pc r) = [Out pc]"
| "stage_handles i (Unlocking r) = [Dropped i]"
| "stage_handles i _ = []"

definition task_handles :: "'k ShardTask \<Rightarrow> 'k Handle list" where
  "task_handles t = stage_handles (tk_shard t) (tk_stage t)"

text \<open>A task at its connection has one of its shard; it is kept unless the task has declared it broken.\<close>

fun stage_ok :: "u32 \<Rightarrow> 'k QueryStage \<Rightarrow> bool" where
  "stage_ok i (Asking pc) = (pc_shard_id pc = i \<and> pc_return_to_pool pc \<and> pc_client pc \<noteq> None)"
| "stage_ok i (Dropping pc r) = (pc_shard_id pc = i \<and> pc_return_to_pool pc = (pc_client pc \<noteq> None))"
| "stage_ok i _ = True"

definition task_ok :: "'k ShardTask \<Rightarrow> bool" where
  "task_ok t = stage_ok (tk_shard t) (tk_stage t)"

lemma task_start_ok [simp]: "task_ok (task_start i sql)" "task_handles (task_start i sql) = []"
  by (simp_all add: task_start_def task_ok_def task_handles_def)

lemma task_step_frame:
  "task_step env pool t = Some (t', pool') \<Longrightarrow> tk_shard t' = tk_shard t \<and> tk_sql t' = tk_sql t"
  by (auto simp: task_step_def Let_def split: QueryStage.splits sum.splits option.splits prod.splits)

lemma after_reply_ok: "stage_ok i (Asking pc) \<Longrightarrow> stage_ok i (after_reply env again pc reply)"
  by (auto simp: after_reply_def split: sum.splits)

lemma task_step_ok: "task_step env pool t = Some (t', pool') \<Longrightarrow> task_ok t \<Longrightarrow> task_ok t'"
  by (auto simp: task_step_def Let_def task_ok_def after_reply_ok split: QueryStage.splits sum.splits option.splits prod.splits)

lemma after_reply_handles:
  "stage_handles i (after_reply env again pc reply) = [Out pc] \<or> stage_handles i (after_reply env again pc reply) = [Out (invalidate pc)]"
  by (auto simp: after_reply_def split: sum.splits)

text \<open>What the pool system of \<open>Pg_Pool\<close> sees of a step of a task: nothing, or one of its own steps.\<close>

definition pool_moves :: "(string \<Rightarrow> string + 'g) \<Rightarrow> 'k pool_system \<Rightarrow> 'k pool_system \<Rightarrow> bool" where
  "pool_moves parse_conn s s' \<longleftrightarrow>
     fst s' = fst s \<and> mset (snd s') = mset (snd s) \<or> (\<exists>hs. pool_step parse_conn s (fst s', hs) \<and> mset hs = mset (snd s'))"

lemma pool_movesI: "pool_step parse_conn s (pool', hs) \<Longrightarrow> mset hs = mset hs' \<Longrightarrow> pool_moves parse_conn s (pool', hs')"
  by (auto simp: pool_moves_def)

lemma length_filter_mset: "mset hs = mset hs' \<Longrightarrow> length (filter P hs) = length (filter P hs')"
  by (metis mset_filter size_mset)

lemma pool_inv_mset: "mset hs = mset hs' \<Longrightarrow> pool_inv (pool, hs) \<longleftrightarrow> pool_inv (pool, hs')"
  unfolding pool_inv_def shard_ok_def holders_def connections_def
  by (simp add: length_filter_mset [of hs hs'] cong: option.case_cong)

lemma pool_moves_inv:
  assumes "pool_moves parse_conn (pool, hs) (pool', hs')" and "pool_inv (pool, hs)"
  shows "pool_inv (pool', hs')"
  using assms(1)[unfolded pool_moves_def fst_conv snd_conv]
proof
  assume "pool' = pool \<and> mset hs' = mset hs"
  with assms(2) pool_inv_mset [of hs' hs pool] show ?thesis by simp
next
  assume "\<exists>xs. pool_step parse_conn (pool, hs) (pool', xs) \<and> mset xs = mset hs'"
  then obtain xs where "pool_step parse_conn (pool, hs) (pool', xs)" "mset xs = mset hs'" by blast
  with pool_step_inv assms(2) pool_inv_mset [of xs hs' pool'] show ?thesis by blast
qed

lemma task_step_moves:
  assumes "task_step env pool t = Some (t', pool')" and "task_ok t"
  shows "pool_moves (fe_parse_conn env) (pool, xs @ task_handles t @ ys) (pool', xs @ task_handles t' @ ys)"
proof (cases "tk_stage t")
  case WantPermit
  show ?thesis
  proof (cases "acquire_permit pool (tk_shard t)")
    case (Inl e)
    with assms(1) WantPermit show ?thesis by (auto simp: task_step_def task_handles_def pool_moves_def)
  next
    case (Inr p)
    with assms(1) WantPermit have p: "p = Some pool'" "t' = at_stage t TryIdle"
      by (auto simp: task_step_def split: option.splits)
    with Inr WantPermit show ?thesis
      by (intro pool_movesI [where hs = "Permitted (tk_shard t) # xs @ ys"]) (auto simp: task_handles_def intro: pool_step.permit)
  qed
next
  case TryIdle
  obtain c p where pop: "pop_idle pool (tk_shard t) = (c, p)" by (cases "pop_idle pool (tk_shard t)")
  with assms(1) TryIdle have "pool' = p" "tk_shard t' = tk_shard t"
    "tk_stage t' = (case c of Some k \<Rightarrow> Asking (pooled (tk_shard t) k) | None \<Rightarrow> Dialling)"
    by (auto simp: task_step_def split: option.splits)
  with TryIdle pop show ?thesis
    by (intro pool_movesI [where hs = "xs @ task_handles t' @ ys"])
      (auto simp: task_handles_def split: option.splits intro: pool_step.pop_some pool_step.pop_none)
next
  case Dialling
  show ?thesis
  proof (cases "connect (fe_parse_conn env) (fe_dial env) pool (tk_shard t)")
    case (Inl e)
    with assms(1) Dialling show ?thesis
      by (intro pool_movesI [where hs = "xs @ ys"]) (auto simp: task_step_def Let_def task_handles_def intro: pool_step.connect_failed)
  next
    case (Inr k)
    with assms(1) Dialling show ?thesis
      by (intro pool_movesI [where hs = "xs @ Out (pooled (tk_shard t) k) # ys"])
        (auto simp: task_step_def Let_def task_handles_def intro: pool_step.connected)
  qed
next
  case (Asking pc)
  let ?stage = "after_reply env (tk_again t) pc (query_shard_client env pc (tk_sql t))"
  from assms(1) Asking have "pool' = pool" "t' = at_stage t ?stage" by (auto simp: task_step_def)
  moreover have "pool_moves (fe_parse_conn env) (pool, xs @ Out pc # ys) (pool, xs @ Out (invalidate pc) # ys)"
    by (rule pool_movesI, rule pool_step.invalidated) simp
  ultimately show ?thesis
    using Asking after_reply_handles [of "tk_shard t" env "tk_again t" pc "query_shard_client env pc (tk_sql t)"]
    by (auto simp: task_handles_def pool_moves_def)
next
  case (Dropping pc r)
  with assms have "pool' = drop_client pool pc" "t' = at_stage t (Unlocking r)" "tk_shard t = pc_shard_id pc"
    by (auto simp: task_step_def task_ok_def)
  moreover have "pool_moves (fe_parse_conn env) (pool, xs @ Out pc # ys) (drop_client pool pc, xs @ Dropped (pc_shard_id pc) # ys)"
    by (rule pool_movesI, rule pool_step.dropped) simp
  ultimately show ?thesis using Dropping by (simp add: task_handles_def)
next
  case (Unlocking r)
  with assms(1) show ?thesis
    by (intro pool_movesI [where hs = "xs @ ys"])
      (auto simp: task_step_def Let_def task_handles_def split: option.splits intro: pool_step.permit_back)
next
  case (Finished r)
  with assms(1) show ?thesis by (simp add: task_step_def)
qed

lemma task_step_inv:
  assumes "task_step env pool t = Some (t', pool')" and "task_ok t" and "pool_inv (pool, xs @ task_handles t @ ys)"
  shows "pool_inv (pool', xs @ task_handles t' @ ys)"
  using task_step_moves [OF assms(1,2), of xs ys] assms(3) by (rule pool_moves_inv)

lemma mset_split_at:
  assumes "mset zs = mset (xs @ h # ys)"
  shows "\<exists>us vs. zs = us @ h # vs \<and> mset us + mset vs = mset xs + mset ys"
proof -
  from assms have "h \<in> set zs" by (metis in_set_conv_decomp mset_eq_setD)
  then obtain us vs where "zs = us @ h # vs" by (auto simp: in_set_conv_decomp)
  with assms show ?thesis by auto
qed

lemma pool_step_mset:
  assumes "pool_step parse_conn s s'" and "mset zs = mset (snd s)"
  shows "\<exists>hs. pool_step parse_conn (fst s, zs) (fst s', hs) \<and> mset hs = mset (snd s')"
  using assms
proof (induction rule: pool_step.induct)
  case (permit pool i pool' hs)
  then show ?case by (intro exI [of _ "Permitted i # zs"]) (auto intro: pool_step.permit)
next
  case (pop_some pool i client pool' xs ys)
  with mset_split_at [of zs xs "Permitted i" ys] obtain us vs where "zs = us @ Permitted i # vs" "mset us + mset vs = mset xs + mset ys" by auto
  with pop_some show ?case by (intro exI [of _ "us @ Out (pooled i client) # vs"]) (auto intro: pool_step.pop_some)
next
  case (pop_none pool i pool' xs ys)
  with mset_split_at [of zs xs "Permitted i" ys] obtain us vs where "zs = us @ Permitted i # vs" "mset us + mset vs = mset xs + mset ys" by auto
  with pop_none show ?case by (intro exI [of _ "us @ Connecting i # vs"]) (auto intro: pool_step.pop_none)
next
  case (connected dial pool i client xs ys)
  with mset_split_at [of zs xs "Connecting i" ys] obtain us vs where "zs = us @ Connecting i # vs" "mset us + mset vs = mset xs + mset ys" by auto
  with connected show ?case by (intro exI [of _ "us @ Out (pooled i client) # vs"]) (auto intro: pool_step.connected)
next
  case (connect_failed dial pool i e xs ys)
  with mset_split_at [of zs xs "Connecting i" ys] obtain us vs where "zs = us @ Connecting i # vs" "mset us + mset vs = mset xs + mset ys" by auto
  with connect_failed show ?case by (intro exI [of _ "us @ vs"]) (auto intro: pool_step.connect_failed)
next
  case (invalidated pool xs pc ys)
  with mset_split_at [of zs xs "Out pc" ys] obtain us vs where "zs = us @ Out pc # vs" "mset us + mset vs = mset xs + mset ys" by auto
  then show ?case by (intro exI [of _ "us @ Out (invalidate pc) # vs"]) (auto intro: pool_step.invalidated)
next
  case (dropped pool xs pc ys)
  with mset_split_at [of zs xs "Out pc" ys] obtain us vs where "zs = us @ Out pc # vs" "mset us + mset vs = mset xs + mset ys" by auto
  then show ?case by (intro exI [of _ "us @ Dropped (pc_shard_id pc) # vs"]) (auto intro: pool_step.dropped)
next
  case (permit_back pool xs i ys)
  with mset_split_at [of zs xs "Dropped i" ys] obtain us vs where "zs = us @ Dropped i # vs" "mset us + mset vs = mset xs + mset ys" by auto
  then show ?case by (intro exI [of _ "us @ vs"]) (auto intro: pool_step.permit_back)
qed

text \<open>Tasks that start in a state of the pool system end a step in one.\<close>

lemma pool_moves_reachable:
  assumes "pool_moves parse_conn (pool, hs) (pool', hs')"
    and "pool_reachable parse_conn shards auth n (pool, zs)" and "mset zs = mset hs"
  shows "\<exists>zs'. pool_reachable parse_conn shards auth n (pool', zs') \<and> mset zs' = mset hs'"
  using assms(1)[unfolded pool_moves_def fst_conv snd_conv]
proof
  assume "pool' = pool \<and> mset hs' = mset hs"
  with assms(2,3) show ?thesis by auto
next
  assume "\<exists>xs. pool_step parse_conn (pool, hs) (pool', xs) \<and> mset xs = mset hs'"
  then obtain xs where "pool_step parse_conn (pool, hs) (pool', xs)" "mset xs = mset hs'" by blast
  with pool_step_mset [of parse_conn "(pool, hs)" "(pool', xs)" zs] assms(2,3) show ?thesis
    by (auto intro: pool_reachable.step)
qed

section \<open>A task alone is query_shard\<close>

text \<open>
  Run without interruption, a task for a query on a shard does what \<open>query_shard\<close> does: it ends with the same
  result and the same pool, or stops where \<open>query_shard\<close> waits for a permit. It takes at most 13 steps.
\<close>

theorem tasks_run_query_shard:
  assumes "run_task env pool (task_start i sql) = (t, pool')"
  shows "query_shard env pool i sql = (task_answer t, pool')"
proof -
  have start: "task_start i sql = at_stage (task_start i sql) WantPermit" by (simp add: task_start_def)
  obtain a p where acq: "acquire (fe_parse_conn env) (fe_dial env) pool i = (a, p)"
    by (cases "acquire (fe_parse_conn env) (fe_dial env) pool i")
  have run: "(t, pool') = (case a of
       Inl e \<Rightarrow> (at_stage (task_start i sql) (Finished (pool_failed i e)), p)
     | Inr None \<Rightarrow> (at_stage (task_start i sql) WantPermit, p)
     | Inr (Some pc) \<Rightarrow> run_task env p (at_stage (task_start i sql) (Asking pc)))"
    using assms run_acquire [of env pool "task_start i sql"] by (simp add: acq flip: start split: sum.splits option.splits)
  show ?thesis
  proof (cases a)
    case (Inl e)
    with run acq show ?thesis by (auto simp: query_shard_def task_answer_def pool_failed_def)
  next
    case (Inr r)
    show ?thesis
    proof (cases r)
      case None
      with Inr run acq show ?thesis by (auto simp: query_shard_def task_answer_def)
    next
      case (Some pc)
      with acq Inr acquired_shard have pc: "pc_shard_id pc = i" by blast
      have second: "(case run_task env p2 (at_stage (task_start i sql\<lparr>tk_again := True\<rparr>) WantPermit) of (t2, p3) \<Rightarrow> (task_answer t2, p3)) =
          (case acquire (fe_parse_conn env) (fe_dial env) p2 i of
             (Inl e2, p3) \<Rightarrow> (Some (pool_failed i e2), p3)
           | (Inr None, p3) \<Rightarrow> (None, p3)
           | (Inr (Some pc2), p3) \<Rightarrow> (Some (query_shard_client env pc2 sql), give_back p3 pc2))" for p2
        using run_acquire [of env p2 "task_start i sql\<lparr>tk_again := True\<rparr>"]
        by (auto simp: run_asked task_answer_def dest!: acquired_shard split: prod.splits sum.splits option.splits)
      have "query_shard env pool i sql =
          (case run_task env p (at_stage (task_start i sql) (Asking pc)) of (t2, p3) \<Rightarrow> (task_answer t2, p3))"
        using acq Inr Some second [of "give_back p (invalidate pc)"] pc
        by (auto simp: run_asked again_at_stage query_shard_def task_answer_def pool_failed_def
            split: sum.splits prod.splits if_splits)
      with run Inr Some show ?thesis by (metis case_prod_conv old.sum.simps(6) option.simps(5))
    qed
  qed
qed

lemma task_start_rank: "task_rank (task_start i sql) = 13"
  by (simp add: task_start_def task_rank_def)

end
