(* ===== verification/Pg_Server.thy ===== *)
theory Pg_Server
  imports Pg_Tasks Step_System
begin

text \<open>
  All SQL sessions of the endpoint at once. The sessions share the connection pool and the published snapshot; each
  handles one request after the other, and is taken apart where its handler suspends: the steps of a query on a
  shard (\<open>Pg_Tasks\<close>), connecting the sticky backend of a passthrough statement, and asking it. A request that is
  left to the query engine may make it scan tables; every scan queries the configured shards one by one and is a
  task of its own. Health reports change the snapshot between any two steps, and every attempt to connect and
  every question to a shard has its own outcome.

  For the properties a session records the state of the application in which its current request arrived and what
  was to be done (\<open>sq_now\<close>), what it asked of which connection (\<open>sq_sent\<close>) and how its requests ended (\<open>sq_log\<close>);
  the server records to which shard each connection was opened (\<open>sv_opened\<close>).
\<close>

datatype SqlRequest = TextQuery string | StatementQuery Statement | PreparedQuery Statement ParamValues

datatype Intake = Refused PgWireError | PassOn | Route string "string list option"

datatype 'k SqlPhase =
    SqlReady
  | Querying "'k ShardTask"
  | Relaying u32 string
  | RelayAsking u32 'k string
  | Scanning "'k ShardTask" "u32 list" "FieldInfo list option" "DataRow list"
  | ScanDone "string + (FieldInfo list option \<times> DataRow list)"
  | InEngine
  | SqlGone

record ('r, 'c, 'k) SqlConn =
  sq_session :: "'k PgSession"
  sq_phase :: "'k SqlPhase"
  sq_now :: "('r, 'c, 'k) AppState \<times> Intake"
  sq_sent :: "(u32 \<times> 'k \<times> string \<times> QueryResult) list"
  sq_log :: "(('r, 'c, 'k) AppState \<times> Intake \<times> HookOutcome) list"

section \<open>One session\<close>

text \<open>
  What the handlers do before they first suspend: \<open>intake\<close> is how each of the three begins, \<open>route_request\<close> the check
  of the tables, which all of them make next, and \<open>handle_routed_sql\<close> up to its first \<open>await\<close>.
\<close>

fun intake :: "('r, 'g, 'k, 'd, 'b) pg_env \<Rightarrow> SqlRequest \<Rightarrow> 'k PgSession \<Rightarrow> Intake \<times> 'k PgSession" where
  "intake env (TextQuery query) ses = (if has_questdb_extension query then Route query None else PassOn, ses)"
| "intake env (StatementQuery statement) ses =
     (if is_write_statement statement then Refused read_only_err
      else Route (sp_show_statement (pe_sp env) statement) None, ses)"
| "intake env (PreparedQuery statement params) ses =
     (if is_write_statement statement then (Refused read_only_err, ses)
      else case take_dialect_sql ses of
        (stored, ses1) \<Rightarrow>
          (Route (case stored of Some s \<Rightarrow> s | None \<Rightarrow> sp_show_statement (pe_sp env) statement) (Some (params_to_strings params)),
           ses1))"

definition route_request ::
    "('r, 'g, 'k, 'd, 'b) pg_env \<Rightarrow> string \<Rightarrow> string list option \<Rightarrow> ('r, 'c, 'k) AppState \<Rightarrow> 'k PgSession
       \<Rightarrow> HookOutcome + 'k SqlPhase" where
  "route_request env sql params st ses =
     (case ensure_datafusion_tables env st sql of
        Some err \<Rightarrow> Inl (Answer (Inl err))
      | None \<Rightarrow>
          (case try_resolve_hook_route env st sql params of
             None \<Rightarrow> Inl Delegate
           | Some (Inl (Unsupported msg)) \<Rightarrow>
               Inl (Answer (Inl (if contains_sub msg ''only read queries'' then read_only_err else routing_err (Unsupported msg))))
           | Some (Inl e) \<Rightarrow> Inl (Answer (Inl (routing_err e)))
           | Some (Inr PassthroughRoute) \<Rightarrow> Inr (Relaying (resolve_shard_id st (ps_current_shard ses)) sql)
           | Some (Inr (Single shard)) \<Rightarrow> Inr (Querying (task_start (sc_id shard) (backend_sql sql params)))
           | Some (Inr (Federated p)) \<Rightarrow> Inl Delegate))"

definition sql_finish :: "HookOutcome \<Rightarrow> ('r, 'c, 'k) SqlConn \<Rightarrow> ('r, 'c, 'k) SqlConn" where
  "sql_finish out c = c\<lparr>sq_phase := (if out = Delegate then InEngine else SqlReady),
     sq_log := sq_log c @ [(fst (sq_now c), snd (sq_now c), out)]\<rparr>"

definition sql_arrive ::
    "('r, 'g, 'k, 'd, 'b) pg_env \<Rightarrow> ('r, 'c, 'k) AppState \<Rightarrow> SqlRequest \<Rightarrow> ('r, 'c, 'k) SqlConn \<Rightarrow> ('r, 'c, 'k) SqlConn" where
  "sql_arrive env st req c =
     (case intake env req (sq_session c) of
        (r, ses) \<Rightarrow>
          (let c1 = c\<lparr>sq_session := ses, sq_now := (st, r)\<rparr>
           in case r of
                Refused e \<Rightarrow> sql_finish (Answer (Inl e)) c1
              | PassOn \<Rightarrow> sql_finish Delegate c1
              | Route sql params \<Rightarrow>
                  (case route_request env sql params st ses of
                     Inl out \<Rightarrow> sql_finish out c1
                   | Inr phase \<Rightarrow> c1\<lparr>sq_phase := phase\<rparr>)))"

definition backend_answer :: "('g, 'k) fed_env \<Rightarrow> QueryResult \<Rightarrow> PgWireError + Response" where
  "backend_answer env reply =
     (case reply of
        Inl e \<Rightarrow> Inl (wire_err (fe_show env e))
      | Inr responses \<Rightarrow> first_response (client_to_server responses))"

definition task_exchange :: "('g, 'k) fed_env \<Rightarrow> 'k ShardTask \<Rightarrow> (u32 \<times> 'k \<times> string \<times> QueryResult) list" where
  "task_exchange env t =
     (case tk_stage t of
        Asking pc \<Rightarrow>
          (case client_mut pc of
             Inr k \<Rightarrow> [(tk_shard t, k, tk_sql t, fe_ask env k (tk_sql t))]
           | Inl e \<Rightarrow> [])
      | _ \<Rightarrow> [])"

definition scan_next :: "'k ShardTask \<Rightarrow> u32 list \<Rightarrow> FieldInfo list option \<Rightarrow> DataRow list \<Rightarrow> ClientResponse list \<Rightarrow> 'k SqlPhase" where
  "scan_next t is pg_fields rows responses =
     (case (case extract_query_rows responses of
              None \<Rightarrow> (pg_fields, rows)
            | Some (f, rs) \<Rightarrow> (case pg_fields of None \<Rightarrow> Some f | Some g \<Rightarrow> Some g, rows @ rs)) of
        (fields', rows') \<Rightarrow>
          (case is of
             [] \<Rightarrow> ScanDone (Inr (fields', rows'))
           | i # is' \<Rightarrow> Scanning (task_start i (tk_sql t)) is' fields' rows'))"

definition sql_conn_step ::
    "('r, 'g, 'k, 'd, 'b) pg_env \<Rightarrow> ('r, 'c, 'k) AppState \<Rightarrow> ('r, 'c, 'k) SqlConn
       \<Rightarrow> (('r, 'c, 'k) SqlConn \<times> ('r, 'c, 'k) AppState) option" where
  "sql_conn_step env st c =
     (case sq_phase c of
        Querying t \<Rightarrow>
          (case task_answer t of
             Some r \<Rightarrow> Some (sql_finish (Answer (backend_answer (pe_fed env) r)) c, st)
           | None \<Rightarrow>
               (case task_step (pe_fed env) (as_pg_pool st) t of
                  None \<Rightarrow> None
                | Some (t', pool') \<Rightarrow>
                    Some (c\<lparr>sq_phase := Querying t', sq_sent := sq_sent c @ task_exchange (pe_fed env) t\<rparr>, st\<lparr>as_pg_pool := pool'\<rparr>)))
      | Relaying i sql \<Rightarrow>
          (case connect_backend (pe_fed env) st i ((sq_session c)\<lparr>ps_current_shard := Some i\<rparr>) of
             (Inl e, ses) \<Rightarrow> Some (sql_finish (Answer (Inl e)) (c\<lparr>sq_session := ses\<rparr>), st)
           | (Inr client, ses) \<Rightarrow> Some (c\<lparr>sq_session := ses, sq_phase := RelayAsking i client sql\<rparr>, st))
      | RelayAsking i client sql \<Rightarrow>
          (let reply = fe_ask (pe_fed env) client sql
           in Some (sql_finish (Answer (backend_answer (pe_fed env) reply)) (c\<lparr>sq_sent := sq_sent c @ [(i, client, sql, reply)]\<rparr>), st))
      | Scanning t is pg_fields rows \<Rightarrow>
          (case task_answer t of
             Some (Inl e) \<Rightarrow> Some (c\<lparr>sq_phase := ScanDone (Inl (fe_show (pe_fed env) e))\<rparr>, st)
           | Some (Inr responses) \<Rightarrow> Some (c\<lparr>sq_phase := scan_next t is pg_fields rows responses\<rparr>, st)
           | None \<Rightarrow>
               (case task_step (pe_fed env) (as_pg_pool st) t of
                  None \<Rightarrow> None
                | Some (t', pool') \<Rightarrow>
                    Some (c\<lparr>sq_phase := Scanning t' is pg_fields rows, sq_sent := sq_sent c @ task_exchange (pe_fed env) t\<rparr>,
                      st\<lparr>as_pg_pool := pool'\<rparr>)))
      | _ \<Rightarrow> None)"

section \<open>The server\<close>

record ('r, 'c, 'k) SqlServer =
  sv_app :: "('r, 'c, 'k) AppState"
  sv_conns :: "('r, 'c, 'k) SqlConn list"
  sv_opened :: "'k \<rightharpoonup> u32"

definition sql_conn_start :: "('r, 'c, 'k) AppState \<Rightarrow> ('r, 'c, 'k) SqlConn" where
  "sql_conn_start st =
     \<lparr> sq_session = conn_state_new, sq_phase = SqlReady, sq_now = (st, PassOn), sq_sent = [], sq_log = [] \<rparr>"

definition scan_start :: "('r, 'c, 'k) AppState \<Rightarrow> string \<Rightarrow> ('r, 'c, 'k) SqlConn" where
  "scan_start st sql = (sql_conn_start st)\<lparr>sq_phase :=
     (case pool_shard_ids (as_pg_pool st) of
        [] \<Rightarrow> ScanDone (Inr (None, []))
      | i # is \<Rightarrow> Scanning (task_start i sql) is None [])\<rparr>"

definition with_net ::
    "('r, 'g, 'k, 'd, 'b) pg_env \<Rightarrow> ('g \<Rightarrow> string + 'k) \<Rightarrow> ('k \<Rightarrow> string \<Rightarrow> QueryResult) \<Rightarrow> ('r, 'g, 'k, 'd, 'b) pg_env" where
  "with_net env dial ask = env\<lparr>pe_fed := (pe_fed env)\<lparr>fe_dial := dial, fe_ask := ask\<rparr>\<rparr>"

text \<open>The connection that a step opens, if it opens one.\<close>

definition task_opens :: "('g, 'k) fed_env \<Rightarrow> 'k ShardPgPool \<Rightarrow> 'k ShardTask \<Rightarrow> (u32 \<times> 'k) option" where
  "task_opens env pool t =
     (case tk_stage t of
        Dialling \<Rightarrow>
          (case connect (fe_parse_conn env) (fe_dial env) pool (tk_shard t) of
             Inr k \<Rightarrow> Some (tk_shard t, k)
           | Inl e \<Rightarrow> None)
      | _ \<Rightarrow> None)"

definition opens :: "('r, 'g, 'k, 'd, 'b) pg_env \<Rightarrow> ('r, 'c, 'k) AppState \<Rightarrow> ('r, 'c, 'k) SqlConn \<Rightarrow> (u32 \<times> 'k) option" where
  "opens env st c =
     (case sq_phase c of
        Querying t \<Rightarrow> task_opens (pe_fed env) (as_pg_pool st) t
      | Scanning t is f rows \<Rightarrow> task_opens (pe_fed env) (as_pg_pool st) t
      | Relaying i sql \<Rightarrow>
          (if ps_backends (sq_session c) i \<noteq> None then None
           else case connect_backend (pe_fed env) st i ((sq_session c)\<lparr>ps_current_shard := Some i\<rparr>) of
             (Inr k, ses) \<Rightarrow> Some (i, k)
           | (Inl e, ses) \<Rightarrow> None)
      | _ \<Rightarrow> None)"

definition fresh :: "('k \<rightharpoonup> u32) \<Rightarrow> (u32 \<times> 'k) option \<Rightarrow> bool" where
  "fresh opened new = (case new of None \<Rightarrow> True | Some (i, k) \<Rightarrow> opened k = None)"

definition note_opened :: "('k \<rightharpoonup> u32) \<Rightarrow> (u32 \<times> 'k) option \<Rightarrow> 'k \<rightharpoonup> u32" where
  "note_opened opened new = (case new of None \<Rightarrow> opened | Some (i, k) \<Rightarrow> opened(k \<mapsto> i))"

inductive serve_step ::
    "('r, 'g, 'k, 'd, 'b) pg_env \<Rightarrow> ('r, 'c, 'k) SqlServer \<Rightarrow> ('r, 'c, 'k) SqlServer \<Rightarrow> bool" for env where
  served: "i < length (sv_conns s) \<Longrightarrow> sql_conn_step (with_net env dial ask) (sv_app s) (sv_conns s ! i) = Some (c', st') \<Longrightarrow>
     opens (with_net env dial ask) (sv_app s) (sv_conns s ! i) = new \<Longrightarrow> fresh (sv_opened s) new \<Longrightarrow>
     serve_step env s (s\<lparr>sv_conns := (sv_conns s)[i := c'], sv_app := st', sv_opened := note_opened (sv_opened s) new\<rparr>)"

inductive server_step ::
    "('r, 'g, 'k, 'd, 'b) pg_env \<Rightarrow> ('r, 'c, 'k) SqlServer \<Rightarrow> ('r, 'c, 'k) SqlServer \<Rightarrow> bool" for env where
  serving: "serve_step env s s' \<Longrightarrow> server_step env s s'"
| joined: "server_step env s (s\<lparr>sv_conns := sv_conns s @ [sql_conn_start (sv_app s)]\<rparr>)"
| arrived: "i < length (sv_conns s) \<Longrightarrow> sq_phase (sv_conns s ! i) = SqlReady \<Longrightarrow>
     server_step env s (s\<lparr>sv_conns := (sv_conns s)[i := sql_arrive env (sv_app s) req (sv_conns s ! i)]\<rparr>)"
| prepared: "i < length (sv_conns s) \<Longrightarrow> sq_phase (sv_conns s ! i) = SqlReady \<Longrightarrow> c = sv_conns s ! i \<Longrightarrow>
     server_step env s (s\<lparr>sv_conns := (sv_conns s)[i :=
        c\<lparr>sq_session := snd (dialect_parse_sql (pe_sp env) sql (sq_session c))\<rparr>]\<rparr>)"
| engine_scans: "i < length (sv_conns s) \<Longrightarrow> sq_phase (sv_conns s ! i) = InEngine \<Longrightarrow>
     server_step env s (s\<lparr>sv_conns := sv_conns s @ [scan_start (sv_app s) (scan_sql table schema limit)]\<rparr>)"
| engine_ends: "i < length (sv_conns s) \<Longrightarrow> sq_phase (sv_conns s ! i) = InEngine \<Longrightarrow>
     server_step env s (s\<lparr>sv_conns := (sv_conns s)[i := (sv_conns s ! i)\<lparr>sq_phase := SqlReady\<rparr>]\<rparr>)"
| client_left: "i < length (sv_conns s) \<Longrightarrow> sq_phase (sv_conns s ! i) = SqlReady \<Longrightarrow>
     server_step env s (s\<lparr>sv_conns := (sv_conns s)[i := (sv_conns s ! i)\<lparr>sq_phase := SqlGone, sq_session := conn_state_new\<rparr>]\<rparr>)"
| reported: "server_step env s (s\<lparr>sv_app := (sv_app s)\<lparr>as_metadata := md,
     as_query_router := (as_query_router (sv_app s))\<lparr>qr_metadata := md\<rparr>, as_stream := stream'\<rparr>\<rparr>)"

text \<open>The endpoint before its first session.\<close>

definition sql_server_start :: "('r, 'c, 'k) AppState \<Rightarrow> ('r, 'c, 'k) SqlServer" where
  "sql_server_start st = \<lparr> sv_app = st, sv_conns = [], sv_opened = Map.empty \<rparr>"

section \<open>A session alone\<close>

text \<open>At most 14 steps for a query on a shard, and as many for every shard of a scan.\<close>

fun phase_rank :: "'k SqlPhase \<Rightarrow> nat" where
  "phase_rank (Querying t) = task_rank t + 1"
| "phase_rank (Relaying i sql) = 2"
| "phase_rank (RelayAsking i client sql) = 1"
| "phase_rank (Scanning t is f rows) = task_rank t + 14 * length is + 1"
| "phase_rank _ = 0"

lemma sql_finish_simps [simp]:
  "phase_rank (sq_phase (sql_finish out c)) = 0" "sq_session (sql_finish out c) = sq_session c"
  "sq_sent (sql_finish out c) = sq_sent c" "sq_now (sql_finish out c) = sq_now c"
  "sq_log (sql_finish out c) = sq_log c @ [(fst (sq_now c), snd (sq_now c), out)]"
  by (simp_all add: sql_finish_def)

lemma scan_next_rank: "phase_rank (scan_next t is f rows responses) \<le> 14 * length is"
  by (auto simp: scan_next_def task_start_rank split: option.splits list.splits prod.splits)

lemma sql_conn_step_rank:
  assumes "sql_conn_step env st c = Some (c', st')"
  shows "phase_rank (sq_phase c') < phase_rank (sq_phase c)"
proof (cases "sq_phase c")
  case (Querying t)
  with assms show ?thesis by (auto simp: sql_conn_step_def split: option.splits dest: task_step_rank)
next
  case (Relaying i sql)
  with assms show ?thesis by (auto simp: sql_conn_step_def split: prod.splits sum.splits)
next
  case (RelayAsking i client sql)
  with assms show ?thesis by (auto simp: sql_conn_step_def Let_def)
next
  case (Scanning t js f rows)
  with assms scan_next_rank [of t js f rows] show ?thesis
    by (auto simp: sql_conn_step_def le_imp_less_Suc trans_le_add2 split: option.splits sum.splits dest: task_step_rank)
qed (use assms in \<open>simp_all add: sql_conn_step_def\<close>)

function run_conn ::
    "('r, 'g, 'k, 'd, 'b) pg_env \<Rightarrow> ('r, 'c, 'k) AppState \<Rightarrow> ('r, 'c, 'k) SqlConn \<Rightarrow> ('r, 'c, 'k) SqlConn \<times> ('r, 'c, 'k) AppState" where
  "run_conn env st c =
     (case sql_conn_step env st c of None \<Rightarrow> (c, st) | Some (c', st') \<Rightarrow> run_conn env st' c')"
  by pat_completeness auto
termination by (relation "measure (\<lambda>(env, st, c). phase_rank (sq_phase c))") (auto dest: sql_conn_step_rank)

declare run_conn.simps [simp del]

lemma run_conn_None: "sql_conn_step env st c = None \<Longrightarrow> run_conn env st c = (c, st)"
  by (subst run_conn.simps) simp

lemma run_conn_Some: "sql_conn_step env st c = Some (c', st') \<Longrightarrow> run_conn env st c = run_conn env st' c'"
  by (subst run_conn.simps) simp

lemma run_conn_finished [simp]: "run_conn env st (sql_finish out c) = (sql_finish out c, st)"
  by (rule run_conn_None) (simp add: sql_conn_step_def sql_finish_def)

lemma task_step_result: "task_step env pool t = Some x \<Longrightarrow> task_answer t = None"
  by (auto simp: task_step_def task_answer_def split: QueryStage.splits)

lemma same_sent: "c\<lparr>sq_sent := sq_sent c\<rparr> = c"
  by (cases c) simp

lemma task_stuck: "task_step env pool t = None \<longleftrightarrow> task_answer t \<noteq> None \<or> tk_stage t = WantPermit \<and> acquire_permit pool (tk_shard t) = Inr None"
  by (auto simp: task_step_def task_answer_def Let_def split: QueryStage.splits sum.splits option.splits prod.splits)

lemma run_task_stuck: "run_task env pool t = (t', pool') \<Longrightarrow> task_step env pool' t' = None"
proof (induction env pool t rule: run_task.induct)
  case (1 env pool t)
  then show ?case by (cases "task_step env pool t") (auto simp: run_task_None run_task_Some)
qed

text \<open>A phase that carries a task runs the task to the end.\<close>

lemma run_task_phase:
  fixes c :: "('r, 'c, 'k) SqlConn" and env :: "('r, 'g, 'k, 'd, 'b) pg_env"
  assumes step: "\<And>(c :: ('r, 'c, 'k) SqlConn) st t. sq_phase c = P t \<Longrightarrow> task_answer t = None \<Longrightarrow> sql_conn_step env st c =
      map_option (\<lambda>(t', pool'). (c\<lparr>sq_phase := P t', sq_sent := sq_sent c @ task_exchange (pe_fed env) t\<rparr>, st\<lparr>as_pg_pool := pool'\<rparr>))
        (task_step (pe_fed env) (as_pg_pool st) t)"
    and "sq_phase c = P t" and "run_task (pe_fed env) (as_pg_pool st) t = (t', pool')"
  shows "\<exists>sent. run_conn env st c = run_conn env (st\<lparr>as_pg_pool := pool'\<rparr>) (c\<lparr>sq_phase := P t', sq_sent := sent\<rparr>)"
  using assms(2,3)
proof (induction "pe_fed env" "as_pg_pool st" t arbitrary: st c rule: run_task.induct)
  case (1 t)
  show ?case
  proof (cases "task_step (pe_fed env) (as_pg_pool st) t")
    case None
    with 1(3) have t: "t' = t" "pool' = as_pg_pool st" by (simp_all add: run_task_None)
    have "c = c\<lparr>sq_phase := P t, sq_sent := sq_sent c\<rparr>" using 1(2) by (cases c) simp
    moreover have "st = st\<lparr>as_pg_pool := as_pg_pool st\<rparr>" by (cases st) simp
    ultimately show ?thesis using t by metis
  next
    case (Some x)
    obtain t1 p1 where x: "x = (t1, p1)" by (cases x)
    let ?c = "c\<lparr>sq_phase := P t1, sq_sent := sq_sent c @ task_exchange (pe_fed env) t\<rparr>" and ?st = "st\<lparr>as_pg_pool := p1\<rparr>"
    from step [OF 1(2) task_step_result [OF Some], of st] Some x have s: "run_conn env st c = run_conn env ?st ?c"
      by (intro run_conn_Some) simp
    from 1(3) Some x have r: "run_task (pe_fed env) p1 t1 = (t', pool')" by (simp add: run_task_Some)
    from 1(1) [OF Some, of t1 ?st ?c] x r
    obtain sent where "run_conn env ?st ?c = run_conn env (?st\<lparr>as_pg_pool := pool'\<rparr>) (?c\<lparr>sq_phase := P t', sq_sent := sent\<rparr>)" by auto
    then show ?thesis unfolding s by (intro exI [of _ sent]) simp
  qed
qed

lemma querying_step:
  "sq_phase c = Querying t \<Longrightarrow> task_answer t = None \<Longrightarrow> sql_conn_step env st c =
      map_option (\<lambda>(t', pool'). (c\<lparr>sq_phase := Querying t', sq_sent := sq_sent c @ task_exchange (pe_fed env) t\<rparr>, st\<lparr>as_pg_pool := pool'\<rparr>))
        (task_step (pe_fed env) (as_pg_pool st) t)"
  by (simp add: sql_conn_step_def split: option.splits)

lemma scanning_step:
  "sq_phase c = Scanning t is f rows \<Longrightarrow> task_answer t = None \<Longrightarrow> sql_conn_step env st c =
      map_option (\<lambda>(t', pool'). (c\<lparr>sq_phase := Scanning t' is f rows, sq_sent := sq_sent c @ task_exchange (pe_fed env) t\<rparr>,
        st\<lparr>as_pg_pool := pool'\<rparr>)) (task_step (pe_fed env) (as_pg_pool st) t)"
  by (simp add: sql_conn_step_def split: option.splits)

lemma run_querying:
  assumes "sq_phase c = Querying t" and "run_task (pe_fed env) (as_pg_pool st) t = (t', pool')"
  shows "\<exists>sent. run_conn env st c =
    (case task_answer t' of
       Some r \<Rightarrow> (sql_finish (Answer (backend_answer (pe_fed env) r)) (c\<lparr>sq_sent := sent\<rparr>), st\<lparr>as_pg_pool := pool'\<rparr>)
     | None \<Rightarrow> (c\<lparr>sq_phase := Querying t', sq_sent := sent\<rparr>, st\<lparr>as_pg_pool := pool'\<rparr>))"
proof -
  let ?st = "st\<lparr>as_pg_pool := pool'\<rparr>"
  obtain sent where s: "run_conn env st c = run_conn env ?st (c\<lparr>sq_phase := Querying t', sq_sent := sent\<rparr>)"
    using run_task_phase [of Querying env, OF querying_step assms] by blast
  have "run_conn env ?st (c\<lparr>sq_phase := Querying t', sq_sent := sent\<rparr>) =
      (case task_answer t' of
         Some r \<Rightarrow> run_conn env ?st (sql_finish (Answer (backend_answer (pe_fed env) r)) (c\<lparr>sq_sent := sent\<rparr>))
       | None \<Rightarrow> (c\<lparr>sq_phase := Querying t', sq_sent := sent\<rparr>, ?st))"
    using run_task_stuck [OF assms(2)]
    by (subst run_conn.simps) (simp add: sql_conn_step_def sql_finish_def split: option.splits)
  with s show ?thesis by (intro exI [of _ sent]) (simp split: option.splits)
qed

lemma run_scan_done: "sq_phase c = ScanDone x \<Longrightarrow> run_conn env st c = (c, st)"
  by (rule run_conn_None) (simp add: sql_conn_step_def)

lemma sent_before_phase: "c\<lparr>sq_phase := ph, sq_sent := sent\<rparr> = c\<lparr>sq_sent := sent, sq_phase := ph\<rparr>"
  by simp

lemma run_task_frame: "run_task env pool t = (t', pool') \<Longrightarrow> tk_sql t' = tk_sql t"
proof (induction env pool t rule: run_task.induct)
  case (1 env pool t)
  then show ?case by (cases "task_step env pool t") (auto simp: run_task_None run_task_Some dest: task_step_frame)
qed

lemma run_scan_shard:
  assumes "sq_phase c = Scanning (task_start i sql) is f rows"
    and "query_shard (pe_fed env) (as_pg_pool st) i sql = (r, pool')"
  shows "\<exists>t sent. tk_sql t = sql \<and> (r = None \<longrightarrow> tk_stage t = WantPermit) \<and> run_conn env st c =
    (case r of
       None \<Rightarrow> (c\<lparr>sq_phase := Scanning t is f rows, sq_sent := sent\<rparr>, st\<lparr>as_pg_pool := pool'\<rparr>)
     | Some (Inl e) \<Rightarrow> (c\<lparr>sq_phase := ScanDone (Inl (fe_show (pe_fed env) e)), sq_sent := sent\<rparr>, st\<lparr>as_pg_pool := pool'\<rparr>)
     | Some (Inr responses) \<Rightarrow>
         run_conn env (st\<lparr>as_pg_pool := pool'\<rparr>) (c\<lparr>sq_phase := scan_next t is f rows responses, sq_sent := sent\<rparr>))"
proof -
  obtain t p where t: "run_task (pe_fed env) (as_pg_pool st) (task_start i sql) = (t, p)"
    by (cases "run_task (pe_fed env) (as_pg_pool st) (task_start i sql)")
  from tasks_run_query_shard [OF t] assms(2) have q: "r = task_answer t" "pool' = p" by simp_all
  obtain sent where s: "run_conn env st c = run_conn env (st\<lparr>as_pg_pool := p\<rparr>) (c\<lparr>sq_phase := Scanning t is f rows, sq_sent := sent\<rparr>)"
    using run_task_phase [of "\<lambda>t. Scanning t is f rows" env, OF scanning_step assms(1) t] by blast
  have stuck: "task_step (pe_fed env) p t = None" by (rule run_task_stuck [OF t])
  then have "r = None \<longrightarrow> tk_stage t = WantPermit" using q by (auto simp: task_stuck)
  moreover have "tk_sql t = sql" using run_task_frame [OF t] by simp
  moreover have "run_conn env st c =
    (case r of
       None \<Rightarrow> (c\<lparr>sq_phase := Scanning t is f rows, sq_sent := sent\<rparr>, st\<lparr>as_pg_pool := pool'\<rparr>)
     | Some (Inl e) \<Rightarrow> (c\<lparr>sq_phase := ScanDone (Inl (fe_show (pe_fed env) e)), sq_sent := sent\<rparr>, st\<lparr>as_pg_pool := pool'\<rparr>)
     | Some (Inr responses) \<Rightarrow>
         run_conn env (st\<lparr>as_pg_pool := pool'\<rparr>) (c\<lparr>sq_phase := scan_next t is f rows responses, sq_sent := sent\<rparr>))"
    using stuck q unfolding s sent_before_phase
    by (subst run_conn.simps) (auto simp: sql_conn_step_def run_scan_done split: option.splits sum.splits)
  ultimately show ?thesis by blast
qed

text \<open>A scan alone is the loop over the shards of the table provider.\<close>

lemma run_scanning:
  assumes "sq_phase c = Scanning (task_start i sql) is f rows"
    and "fetch_loop (pe_fed env) sql (i # is) f rows (as_pg_pool st) = (r, pool')"
  shows "\<exists>c'. run_conn env st c = (c', st\<lparr>as_pg_pool := pool'\<rparr>) \<and> sq_session c' = sq_session c
    \<and> (case r of Some x \<Rightarrow> sq_phase c' = ScanDone x
       | None \<Rightarrow> (\<exists>t js g rs. sq_phase c' = Scanning t js g rs \<and> tk_stage t = WantPermit))"
  using assms
proof (induction "is" arbitrary: i f rows c st)
  case Nil
  obtain x p where q: "query_shard (pe_fed env) (as_pg_pool st) i sql = (x, p)"
    by (cases "query_shard (pe_fed env) (as_pg_pool st) i sql")
  from run_scan_shard [OF Nil(1) q] obtain t sent where "tk_sql t = sql" "x = None \<longrightarrow> tk_stage t = WantPermit"
    and run: "run_conn env st c = (case x of
       None \<Rightarrow> (c\<lparr>sq_phase := Scanning t [] f rows, sq_sent := sent\<rparr>, st\<lparr>as_pg_pool := p\<rparr>)
     | Some (Inl e) \<Rightarrow> (c\<lparr>sq_phase := ScanDone (Inl (fe_show (pe_fed env) e)), sq_sent := sent\<rparr>, st\<lparr>as_pg_pool := p\<rparr>)
     | Some (Inr responses) \<Rightarrow>
         run_conn env (st\<lparr>as_pg_pool := p\<rparr>) (c\<lparr>sq_phase := scan_next t [] f rows responses, sq_sent := sent\<rparr>))" by blast
  then show ?case
    using Nil(2) q
    by (auto simp: scan_next_def run_conn_None sql_conn_step_def split: option.splits sum.splits prod.splits)
next
  case (Cons j js)
  obtain x p where q: "query_shard (pe_fed env) (as_pg_pool st) i sql = (x, p)"
    by (cases "query_shard (pe_fed env) (as_pg_pool st) i sql")
  from run_scan_shard [OF Cons(2) q] obtain t sent where t: "tk_sql t = sql" "x = None \<longrightarrow> tk_stage t = WantPermit"
    and run: "run_conn env st c = (case x of
       None \<Rightarrow> (c\<lparr>sq_phase := Scanning t (j # js) f rows, sq_sent := sent\<rparr>, st\<lparr>as_pg_pool := p\<rparr>)
     | Some (Inl e) \<Rightarrow> (c\<lparr>sq_phase := ScanDone (Inl (fe_show (pe_fed env) e)), sq_sent := sent\<rparr>, st\<lparr>as_pg_pool := p\<rparr>)
     | Some (Inr responses) \<Rightarrow>
         run_conn env (st\<lparr>as_pg_pool := p\<rparr>) (c\<lparr>sq_phase := scan_next t (j # js) f rows responses, sq_sent := sent\<rparr>))" by blast
  show ?case
  proof (cases "\<exists>responses. x = Some (Inr responses)")
    case False
    with run t q Cons(3) show ?thesis by (auto split: option.splits sum.splits)
  next
    case True
    then obtain responses where x: "x = Some (Inr responses)" by blast
    obtain g rs where acc: "(case extract_query_rows responses of
              None \<Rightarrow> (f, rows)
            | Some (h, ds) \<Rightarrow> (case f of None \<Rightarrow> Some h | Some g \<Rightarrow> Some g, rows @ ds)) = (g, rs)" by force
    then have nxt: "scan_next t (j # js) f rows responses = Scanning (task_start j sql) js g rs"
      using t by (simp add: scan_next_def)
    from Cons(3) q x acc have "fetch_loop (pe_fed env) sql (j # js) g rs p = (r, pool')"
      by (auto split: option.splits)
    with Cons(1) [of "c\<lparr>sq_phase := scan_next t (j # js) f rows responses, sq_sent := sent\<rparr>" j g rs "st\<lparr>as_pg_pool := p\<rparr>"] nxt run x
    show ?thesis by simp
  qed
qed

section \<open>Requests and their handlers\<close>

fun handle_request ::
    "('r, 'g, 'k, 'd, 'b) pg_env \<Rightarrow> SqlRequest \<Rightarrow> ('r, 'c, 'k) AppState \<Rightarrow> 'k PgSession
       \<Rightarrow> HookOutcome \<times> ('r, 'c, 'k) AppState \<times> 'k PgSession" where
  "handle_request env (TextQuery query) st ses = simple_do_query env query st ses"
| "handle_request env (StatementQuery statement) st ses = handle_simple_query env statement st ses"
| "handle_request env (PreparedQuery statement params) st ses = handle_extended_query env statement params st ses"

lemma handle_request_intake:
  "handle_request env req st ses =
     (case intake env req ses of
        (Refused e, ses') \<Rightarrow> (Answer (Inl e), st, ses')
      | (PassOn, ses') \<Rightarrow> (Delegate, st, ses')
      | (Route sql params, ses') \<Rightarrow> handle_raw_sql env sql params st ses')"
  by (cases req) (auto simp: simple_do_query_def handle_simple_query_def handle_extended_query_def handle_raw_sql_def Let_def
      split: prod.splits option.splits)

lemma handle_raw_route:
  "handle_raw_sql env sql params st ses =
     (case route_request env sql params st ses of
        Inl out \<Rightarrow> (out, st, ses)
      | Inr (Relaying i sql') \<Rightarrow> (case relay_passthrough (pe_fed env) st sql ses of (r, ses') \<Rightarrow> (Answer r, st, ses'))
      | Inr (Querying t) \<Rightarrow>
          (case query_shard (pe_fed env) (as_pg_pool st) (tk_shard t) (tk_sql t) of
             (None, pool') \<Rightarrow> (Waiting, st\<lparr>as_pg_pool := pool'\<rparr>, ses)
           | (Some r, pool') \<Rightarrow> (Answer (backend_answer (pe_fed env) r), st\<lparr>as_pg_pool := pool'\<rparr>, ses))
      | Inr phase \<Rightarrow> (Delegate, st, ses))"
  by (auto simp: handle_raw_sql_def handle_routed_sql_def route_request_def query_shard_pool_def backend_answer_def
      split: option.splits sum.splits prod.splits RoutingError.splits ResolvedRoute.splits)

lemma route_request_phase:
  "route_request env sql params st ses = Inr phase \<Longrightarrow>
     (phase = Relaying (resolve_shard_id st (ps_current_shard ses)) sql
        \<and> app_resolve_route (pe_ring env) (pe_sp env) st sql params = Inr PassthroughRoute)
   \<or> (\<exists>shard. phase = Querying (task_start (sc_id shard) (backend_sql sql params))
        \<and> app_resolve_route (pe_ring env) (pe_sp env) st sql params = Inr (Single shard))"
  by (auto simp: route_request_def try_resolve_hook_route_def
      split: option.splits sum.splits RoutingError.splits ResolvedRoute.splits if_splits)

lemma route_request_out:
  "route_request env sql params st ses = Inl out \<Longrightarrow> out \<noteq> Waiting \<and> (\<forall>r. out \<noteq> Answer (Inr r))"
  by (auto simp: route_request_def split: option.splits sum.splits RoutingError.splits ResolvedRoute.splits)

lemma run_relaying:
  assumes "sq_phase c = Relaying (resolve_shard_id st (ps_current_shard (sq_session c))) sql"
    and "relay_passthrough (pe_fed env) st sql (sq_session c) = (r, ses')"
  shows "\<exists>sent. run_conn env st c = (sql_finish (Answer r) (c\<lparr>sq_session := ses', sq_sent := sent\<rparr>), st)"
proof -
  let ?i = "resolve_shard_id st (ps_current_shard (sq_session c))"
  obtain k ses1 where conn: "connect_backend (pe_fed env) st ?i ((sq_session c)\<lparr>ps_current_shard := Some ?i\<rparr>) = (k, ses1)"
    by (cases "connect_backend (pe_fed env) st ?i ((sq_session c)\<lparr>ps_current_shard := Some ?i\<rparr>)")
  show ?thesis
  proof (cases k)
    case (Inl e)
    with assms conn have "run_conn env st c = run_conn env st (sql_finish (Answer r) (c\<lparr>sq_session := ses'\<rparr>))"
      by (intro run_conn_Some) (simp add: sql_conn_step_def relay_passthrough_def Let_def)
    then show ?thesis using same_sent [of "c\<lparr>sq_session := ses'\<rparr>"] by (intro exI [of _ "sq_sent c"]) simp
  next
    case (Inr client)
    let ?c = "c\<lparr>sq_session := ses1, sq_phase := RelayAsking ?i client sql\<rparr>"
    let ?sent = "sq_sent c @ [(?i, client, sql, fe_ask (pe_fed env) client sql)]"
    from Inr assms(1) conn have "run_conn env st c = run_conn env st ?c"
      by (intro run_conn_Some) (simp add: sql_conn_step_def)
    also have "\<dots> = run_conn env st (sql_finish (Answer (backend_answer (pe_fed env) (fe_ask (pe_fed env) client sql))) (?c\<lparr>sq_sent := ?sent\<rparr>))"
      by (intro run_conn_Some) (simp add: sql_conn_step_def Let_def)
    also have "\<dots> = (sql_finish (Answer (backend_answer (pe_fed env) (fe_ask (pe_fed env) client sql))) (?c\<lparr>sq_sent := ?sent\<rparr>), st)"
      by (rule run_conn_finished)
    finally have run: "run_conn env st c = \<dots>" .
    from assms(2) conn Inr have "r = backend_answer (pe_fed env) (fe_ask (pe_fed env) client sql)" "ses' = ses1"
      by (auto simp: relay_passthrough_def Let_def backend_answer_def split: sum.splits)
    with run show ?thesis by (intro exI [of _ ?sent]) (simp add: sql_finish_def)
  qed
qed

section \<open>Specification vocabulary\<close>

fun phase_task :: "'k SqlPhase \<Rightarrow> 'k ShardTask option" where
  "phase_task (Querying t) = Some t"
| "phase_task (Scanning t is f rows) = Some t"
| "phase_task _ = None"

definition task_borrows :: "'k ShardTask \<Rightarrow> 'k option" where
  "task_borrows t = (case tk_stage t of Asking pc \<Rightarrow> pc_client pc | Dropping pc r \<Rightarrow> pc_client pc | _ \<Rightarrow> None)"

text \<open>How often a connection is in use at a shard: idle in the pool, borrowed by a task, or kept by a session.\<close>

definition task_uses :: "'k ShardTask option \<Rightarrow> u32 \<Rightarrow> 'k \<Rightarrow> nat" where
  "task_uses x i k = (case x of Some t \<Rightarrow> if tk_shard t = i \<and> task_borrows t = Some k then 1 else 0 | None \<Rightarrow> 0)"

definition conn_uses :: "('r, 'c, 'k) SqlConn \<Rightarrow> u32 \<Rightarrow> 'k \<Rightarrow> nat" where
  "conn_uses c i k = task_uses (phase_task (sq_phase c)) i k + (if ps_backends (sq_session c) i = Some k then 1 else 0)"

definition idle_uses :: "'k ShardPgPool \<Rightarrow> u32 \<Rightarrow> 'k \<Rightarrow> nat" where
  "idle_uses pool i k = count_list (idle_of pool i) k"

definition uses :: "('r, 'c, 'k) SqlServer \<Rightarrow> u32 \<Rightarrow> 'k \<Rightarrow> nat" where
  "uses s i k = idle_uses (as_pg_pool (sv_app s)) i k + sum_list (map (\<lambda>c. conn_uses c i k) (sv_conns s))"

definition conn_handles :: "('r, 'c, 'k) SqlConn \<Rightarrow> 'k Handle list" where
  "conn_handles c = (case phase_task (sq_phase c) of Some t \<Rightarrow> task_handles t | None \<Rightarrow> [])"

definition server_handles :: "('r, 'c, 'k) SqlServer \<Rightarrow> 'k Handle list" where
  "server_handles s = concat (map conn_handles (sv_conns s))"

definition conn_ok :: "('r, 'c, 'k) SqlConn \<Rightarrow> bool" where
  "conn_ok c \<longleftrightarrow> (case phase_task (sq_phase c) of Some t \<Rightarrow> task_ok t | None \<Rightarrow> True)
     \<and> (case sq_phase c of RelayAsking i client sql \<Rightarrow> ps_backends (sq_session c) i = Some client | _ \<Rightarrow> True)"

text \<open>What the task of a routed query has as its result so far.\<close>

fun stage_reply :: "'k QueryStage \<Rightarrow> QueryResult option" where
  "stage_reply (Dropping pc r) = r"
| "stage_reply (Unlocking r) = r"
| "stage_reply (Finished r) = Some r"
| "stage_reply _ = None"

text \<open>
  Where the answers of a session come from. A request that resolved to a single shard, in the state in which it
  arrived, and was answered with a response got the first response of a reply to its text from that shard.
\<close>

definition answered_by_shard ::
    "('r, 'g, 'k, 'd, 'b) pg_env \<Rightarrow> (u32 \<times> 'k \<times> string \<times> QueryResult) list
       \<Rightarrow> ('r, 'c, 'k) AppState \<times> Intake \<times> HookOutcome \<Rightarrow> bool" where
  "answered_by_shard env sent entry \<longleftrightarrow>
     (\<forall>st sql params shard r. entry = (st, Route sql params, Answer (Inr r)) \<and>
        app_resolve_route (pe_ring env) (pe_sp env) st sql params = Inr (Single shard) \<longrightarrow>
        (\<exists>k x xs. (sc_id shard, k, backend_sql sql params, Inr (x # xs)) \<in> set sent \<and> r = to_server_response x))"

definition phase_origin :: "('r, 'g, 'k, 'd, 'b) pg_env \<Rightarrow> ('r, 'c, 'k) SqlConn \<Rightarrow> bool" where
  "phase_origin env c \<longleftrightarrow>
     (case sq_phase c of
        Querying t \<Rightarrow>
          (\<exists>st sql params shard. sq_now c = (st, Route sql params)
            \<and> app_resolve_route (pe_ring env) (pe_sp env) st sql params = Inr (Single shard)
            \<and> tk_shard t = sc_id shard \<and> tk_sql t = backend_sql sql params)
          \<and> (\<forall>x xs. stage_reply (tk_stage t) = Some (Inr (x # xs)) \<longrightarrow>
               (\<exists>k. (tk_shard t, k, tk_sql t, Inr (x # xs)) \<in> set (sq_sent c)))
      | Relaying i sql \<Rightarrow>
          (\<exists>st sql' params. sq_now c = (st, Route sql' params)
            \<and> app_resolve_route (pe_ring env) (pe_sp env) st sql' params = Inr PassthroughRoute)
      | RelayAsking i client sql \<Rightarrow>
          (\<exists>st sql' params. sq_now c = (st, Route sql' params)
            \<and> app_resolve_route (pe_ring env) (pe_sp env) st sql' params = Inr PassthroughRoute)
      | _ \<Rightarrow> True)"

definition sessions_ok :: "('r, 'g, 'k, 'd, 'b) pg_env \<Rightarrow> ('r, 'c, 'k) SqlServer \<Rightarrow> bool" where
  "sessions_ok env s \<longleftrightarrow> (\<forall>c \<in> set (sv_conns s). conn_ok c \<and> phase_origin env c
     \<and> (\<forall>entry \<in> set (sq_log c). answered_by_shard env (sq_sent c) entry)
     \<and> (\<forall>(i, k, sql, r) \<in> set (sq_sent c). sv_opened s k = Some i))"

definition unshared :: "('r, 'c, 'k) SqlServer \<Rightarrow> bool" where
  "unshared s \<longleftrightarrow> (\<forall>i k. uses s i k \<le> (if sv_opened s k = Some i then 1 else 0))"

definition sql_inv :: "('r, 'g, 'k, 'd, 'b) pg_env \<Rightarrow> ('r, 'c, 'k) SqlServer \<Rightarrow> bool" where
  "sql_inv env s \<longleftrightarrow> unshared s \<and> sessions_ok env s"

section \<open>Lemmas\<close>

subsection \<open>Connections\<close>

lemma count_butlast: "xs \<noteq> [] \<Longrightarrow> count_list (butlast xs) k + (if last xs = k then 1 else 0) = count_list xs k"
  by (induction xs rule: rev_induct) auto

lemma pop_idle_uses:
  "pop_idle pool i = (c, pool') \<Longrightarrow>
     idle_uses pool' j k + (if j = i \<and> c = Some k then 1 else 0) = idle_uses pool j k"
  using count_butlast [of "idle_of pool i" k]
  by (auto simp: pop_idle_def idle_uses_def idle_of_def split: option.splits if_splits)

lemma acquire_permit_idle: "acquire_permit pool i = Inr (Some pool') \<Longrightarrow> idle_uses pool' j k = idle_uses pool j k"
  by (auto simp: idle_uses_def idle_of_def dest!: acquire_permit_SomeD)

lemma release_permit_idle [simp]: "idle_uses (release_permit pool i) j k = idle_uses pool j k"
  by (simp add: idle_uses_def)

lemma drop_client_uses:
  "pc_return_to_pool pc = (pc_client pc \<noteq> None) \<Longrightarrow>
     idle_uses (drop_client pool pc) j k \<le> idle_uses pool j k + (if pc_shard_id pc = j \<and> pc_client pc = Some k then 1 else 0)"
  by (auto simp: drop_client_def release_def Let_def idle_uses_def idle_of_def split: option.splits)

lemma after_reply_borrows:
  "task_borrows (t\<lparr>tk_stage := after_reply env again pc reply\<rparr>) = Some k \<Longrightarrow> pc_client pc = Some k"
  by (auto simp: after_reply_def task_borrows_def split: sum.splits if_splits)

lemma task_step_uses:
  assumes "task_step env pool t = Some (t', pool')" and "task_ok t"
  shows "idle_uses pool' i k + task_uses (Some t') i k \<le>
    idle_uses pool i k + task_uses (Some t) i k + (if task_opens env pool t = Some (i, k) then 1 else 0)"
proof (cases "tk_stage t")
  case WantPermit
  with assms show ?thesis
    by (auto simp: task_step_def Let_def task_uses_def task_borrows_def acquire_permit_idle split: sum.splits option.splits)
next
  case TryIdle
  obtain c p where pop: "pop_idle pool (tk_shard t) = (c, p)" by (cases "pop_idle pool (tk_shard t)")
  with TryIdle assms(1) pop_idle_uses [OF pop, of i k] show ?thesis
    by (auto simp: task_step_def Let_def task_uses_def task_borrows_def split: option.splits if_splits)
next
  case Dialling
  with assms(1) show ?thesis
    by (auto simp: task_step_def Let_def task_uses_def task_borrows_def task_opens_def split: sum.splits)
next
  case (Asking pc)
  with assms(1) show ?thesis
    using after_reply_borrows [of env "tk_again t" pc "query_shard_client env pc (tk_sql t)" t k]
    by (auto simp: task_step_def Let_def task_uses_def task_borrows_def [of t])
next
  case (Dropping pc r)
  with assms drop_client_uses [of pc pool i k] show ?thesis
    by (auto simp: task_step_def Let_def task_uses_def task_borrows_def task_ok_def split: if_splits)
next
  case (Unlocking r)
  with assms(1) show ?thesis
    by (auto simp: task_step_def Let_def task_uses_def task_borrows_def split: option.splits)
next
  case (Finished r)
  with assms(1) show ?thesis by (simp add: task_step_def)
qed

lemma task_uses_idle [simp]:
  "task_uses None i k = 0" "task_uses (Some (task_start j sql)) i k = 0"
  by (simp_all add: task_uses_def task_borrows_def)

lemma finished_uses: "task_answer t = Some r \<Longrightarrow> task_uses (Some t) i k = 0"
  by (auto simp: task_uses_def task_borrows_def task_answer_def split: QueryStage.splits)

lemma sql_finish_task [simp]: "phase_task (sq_phase (sql_finish out c)) = None"
  by (simp add: sql_finish_def)

lemma scan_next_task: "phase_task (scan_next t is f rows rs) = None \<or> (\<exists>j. phase_task (scan_next t is f rows rs) = Some (task_start j (tk_sql t)))"
  by (auto simp: scan_next_def split: option.splits list.splits prod.splits)

lemma connect_backend_backends:
  assumes "connect_backend env st i ses = (r, ses')"
  shows "ps_backends ses' = (case r of Inr k \<Rightarrow> (ps_backends ses)(i \<mapsto> k) | Inl e \<Rightarrow> ps_backends ses)"
    and "ps_backends ses i = Some k \<Longrightarrow> r = Inr k"
  using assms by (auto simp: connect_backend_def fun_upd_idem split: option.splits sum.splits)

lemma sql_conn_step_uses:
  assumes "sql_conn_step env st c = Some (c', st')" and "conn_ok c"
  shows "idle_uses (as_pg_pool st') i k + conn_uses c' i k \<le>
    idle_uses (as_pg_pool st) i k + conn_uses c i k + (if opens env st c = Some (i, k) then 1 else 0)"
proof (cases "sq_phase c")
  case (Querying t)
  show ?thesis
  proof (cases "task_answer t")
    case None
    with assms Querying obtain t' pool' where t: "task_step (pe_fed env) (as_pg_pool st) t = Some (t', pool')"
      and c: "sq_phase c' = Querying t'" "sq_session c' = sq_session c" "as_pg_pool st' = pool'"
      by (auto simp: querying_step)
    have "task_ok t" using assms(2) Querying by (simp add: conn_ok_def)
    from task_step_uses [OF t this, of i k] c Querying show ?thesis
      by (auto simp: conn_uses_def opens_def split: if_splits)
  next
    case (Some r)
    with assms(1) Querying show ?thesis by (auto simp: sql_conn_step_def conn_uses_def finished_uses)
  qed
next
  case (Scanning t js f rows)
  show ?thesis
  proof (cases "task_answer t")
    case None
    with assms Scanning obtain t' pool' where t: "task_step (pe_fed env) (as_pg_pool st) t = Some (t', pool')"
      and c: "sq_phase c' = Scanning t' js f rows" "sq_session c' = sq_session c" "as_pg_pool st' = pool'"
      by (auto simp: scanning_step)
    have "task_ok t" using assms(2) Scanning by (simp add: conn_ok_def)
    from task_step_uses [OF t this, of i k] c Scanning show ?thesis
      by (auto simp: conn_uses_def opens_def split: if_splits)
  next
    case (Some r)
    have "task_uses (phase_task (scan_next t js f rows rs)) i k = 0" for rs
      using scan_next_task [of t js f rows rs] by auto
    with Some assms(1) Scanning show ?thesis
      by (auto simp: sql_conn_step_def conn_uses_def finished_uses split: sum.splits)
  qed
next
  case (Relaying j sql)
  obtain r ses where conn: "connect_backend (pe_fed env) st j ((sq_session c)\<lparr>ps_current_shard := Some j\<rparr>) = (r, ses)"
    by (cases "connect_backend (pe_fed env) st j ((sq_session c)\<lparr>ps_current_shard := Some j\<rparr>)")
  note same = connect_backend_backends(2) [OF conn] and b = connect_backend_backends(1) [OF conn]
  show ?thesis
  proof (cases r)
    case (Inl e)
    with assms(1) Relaying conn b show ?thesis by (auto simp: sql_conn_step_def conn_uses_def)
  next
    case (Inr client)
    with assms(1) Relaying conn have c: "c' = c\<lparr>sq_session := ses, sq_phase := RelayAsking j client sql\<rparr>" "st' = st"
      by (auto simp: sql_conn_step_def)
    show ?thesis
    proof (cases "ps_backends (sq_session c) j")
      case None
      with Relaying conn Inr have "opens env st c = Some (j, client)" by (simp add: opens_def)
      with c b Inr Relaying show ?thesis by (simp add: conn_uses_def)
    next
      case (Some client')
      with same Inr have "client' = client" by simp
      with b Inr Some have "ps_backends ses = ps_backends (sq_session c)" by (simp add: fun_upd_idem)
      with c Relaying show ?thesis by (simp add: conn_uses_def)
    qed
  qed
next
  case (RelayAsking j client sql)
  with assms(1) show ?thesis by (auto simp: sql_conn_step_def conn_uses_def Let_def)
qed (use assms in \<open>simp_all add: sql_conn_step_def\<close>)

lemma sql_conn_step_ok:
  assumes "sql_conn_step env st c = Some (c', st')" and "conn_ok c"
  shows "conn_ok c'"
proof (cases "sq_phase c")
  case (Querying t)
  with assms show ?thesis
    by (auto simp: sql_conn_step_def conn_ok_def sql_finish_def dest: task_step_ok split: option.splits)
next
  case (Scanning t js f rows)
  have n: "conn_ok (c\<lparr>sq_phase := scan_next t js f rows rs\<rparr>)" for rs
    by (auto simp: conn_ok_def scan_next_def split: option.splits list.splits prod.splits)
  show ?thesis
  proof (cases "task_answer t")
    case None
    with assms Scanning show ?thesis by (auto simp: scanning_step conn_ok_def dest: task_step_ok)
  next
    case (Some r)
    with assms(1) Scanning n show ?thesis
      by (cases r) (auto simp: sql_conn_step_def conn_ok_def [of "c\<lparr>sq_phase := ScanDone x\<rparr>" for x])
  qed
next
  case (Relaying j sql)
  with assms show ?thesis
    by (auto simp: sql_conn_step_def conn_ok_def sql_finish_def dest: connect_backend_Inr split: prod.splits sum.splits)
next
  case (RelayAsking j client sql)
  with assms show ?thesis by (auto simp: sql_conn_step_def conn_ok_def sql_finish_def Let_def)
qed (use assms in \<open>simp_all add: sql_conn_step_def\<close>)

lemma task_exchange_borrows:
  "(i, k, sql, r) \<in> set (task_exchange env t) \<Longrightarrow> i = tk_shard t \<and> task_borrows t = Some k"
  by (auto simp: task_exchange_def task_borrows_def client_mut_def split: QueryStage.splits sum.splits option.splits)

lemma sql_conn_step_sent:
  assumes "sql_conn_step env st c = Some (c', st')" and "conn_ok c"
  shows "\<exists>new. sq_sent c' = sq_sent c @ new \<and> (\<forall>(i, k, sql, r) \<in> set new. 1 \<le> conn_uses c i k)"
proof (cases "sq_phase c")
  case (Querying t)
  with assms(1) show ?thesis
    by (auto simp: sql_conn_step_def conn_uses_def task_uses_def dest!: task_exchange_borrows split: option.splits)
next
  case (Scanning t js f rows)
  with assms(1) show ?thesis
    by (auto simp: sql_conn_step_def conn_uses_def task_uses_def dest!: task_exchange_borrows split: option.splits sum.splits)
next
  case (Relaying j sql)
  with assms(1) show ?thesis by (auto simp: sql_conn_step_def split: prod.splits sum.splits)
next
  case (RelayAsking j client sql)
  with assms show ?thesis by (auto simp: sql_conn_step_def conn_ok_def conn_uses_def Let_def)
qed (use assms in \<open>simp_all add: sql_conn_step_def\<close>)

subsection \<open>Answers\<close>

lemma answered_mono:
  assumes "answered_by_shard env sent entry" and "set sent \<subseteq> set sent'"
  shows "answered_by_shard env sent' entry"
  unfolding answered_by_shard_def
proof (intro allI impI)
  fix st sql params shard r
  assume "entry = (st, Route sql params, Answer (Inr r))
    \<and> app_resolve_route (pe_ring env) (pe_sp env) st sql params = Inr (Single shard)"
  from assms(1)[unfolded answered_by_shard_def, rule_format, OF this] assms(2)
  show "\<exists>k x xs. (sc_id shard, k, backend_sql sql params, Inr (x # xs)) \<in> set sent' \<and> r = to_server_response x" by blast
qed

lemma with_net_simps [simp]:
  "pe_ring (with_net env dial ask) = pe_ring env" "pe_sp (with_net env dial ask) = pe_sp env"
  "phase_origin (with_net env dial ask) c = phase_origin env c"
  "answered_by_shard (with_net env dial ask) sent entry = answered_by_shard env sent entry"
  by (simp_all add: with_net_def phase_origin_def answered_by_shard_def cong: SqlPhase.case_cong)

lemma task_step_reply:
  assumes "task_step env pool t = Some (t', pool')" and "stage_reply (tk_stage t') = Some (Inr (x # xs))"
  shows "stage_reply (tk_stage t) = Some (Inr (x # xs)) \<or> (\<exists>k. (tk_shard t, k, tk_sql t, Inr (x # xs)) \<in> set (task_exchange env t))"
proof (cases "tk_stage t")
  case (Asking pc)
  from assms Asking have "query_shard_client env pc (tk_sql t) = Inr (x # xs)"
    by (auto simp: task_step_def after_reply_def split: sum.splits if_splits)
  with Asking show ?thesis
    by (auto simp: query_shard_client_def task_exchange_def split: sum.splits)
next
  case (Unlocking r)
  with assms show ?thesis by (cases r) (auto simp: task_step_def Let_def)
qed (use assms in \<open>auto simp: task_step_def Let_def pool_failed_def split: sum.splits option.splits prod.splits\<close>)

lemma backend_answer_Inr: "backend_answer env r = Inr y \<longleftrightarrow> (\<exists>x xs. r = Inr (x # xs) \<and> y = to_server_response x)"
  by (cases r) (auto simp: backend_answer_def first_response_Inr)

lemma task_result_reply: "task_answer t = Some r \<Longrightarrow> stage_reply (tk_stage t) = Some r"
  by (auto simp: task_answer_def split: QueryStage.splits)

lemma sql_conn_step_origin:
  assumes "sql_conn_step env st c = Some (c', st')" and "phase_origin env c"
    and "\<forall>entry \<in> set (sq_log c). answered_by_shard env (sq_sent c) entry"
  shows "phase_origin env c' \<and> (\<forall>entry \<in> set (sq_log c'). answered_by_shard env (sq_sent c') entry)"
proof (cases "sq_phase c")
  case (Querying t)
  from assms(2) Querying obtain st0 sql params shard where now: "sq_now c = (st0, Route sql params)"
    and route: "app_resolve_route (pe_ring env) (pe_sp env) st0 sql params = Inr (Single shard)"
    and t: "tk_shard t = sc_id shard" "tk_sql t = backend_sql sql params"
    and reply: "\<And>x xs. stage_reply (tk_stage t) = Some (Inr (x # xs)) \<Longrightarrow>
               (\<exists>k. (tk_shard t, k, tk_sql t, Inr (x # xs)) \<in> set (sq_sent c))"
    by (auto simp: phase_origin_def)
  show ?thesis
  proof (cases "task_answer t")
    case None
    with assms(1) Querying obtain t' pool' where step: "task_step (pe_fed env) (as_pg_pool st) t = Some (t', pool')"
      and c: "c' = c\<lparr>sq_phase := Querying t', sq_sent := sq_sent c @ task_exchange (pe_fed env) t\<rparr>"
      by (auto simp: querying_step)
    note f = task_step_frame [OF step]
    have "\<exists>k. (tk_shard t', k, tk_sql t', Inr (x # xs)) \<in> set (sq_sent c')"
      if "stage_reply (tk_stage t') = Some (Inr (x # xs))" for x xs
      using task_step_reply [OF step that] reply [of x xs] f c by auto
    with c now route t f have "phase_origin env c'" by (simp add: phase_origin_def)
    moreover have "set (sq_sent c) \<subseteq> set (sq_sent c')" "sq_log c' = sq_log c" using c by auto
    ultimately show ?thesis using assms(3) answered_mono by metis
  next
    case (Some r)
    with assms(1) Querying have c: "c' = sql_finish (Answer (backend_answer (pe_fed env) r)) c" by (simp add: sql_conn_step_def)
    have "answered_by_shard env (sq_sent c) (st0, Route sql params, Answer (backend_answer (pe_fed env) r))"
      using reply task_result_reply [OF Some] route t
      by (fastforce simp: answered_by_shard_def backend_answer_Inr)
    with c now assms(3) show ?thesis by (simp add: phase_origin_def sql_finish_def)
  qed
next
  case (Scanning t js f rows)
  have n: "phase_origin env (c\<lparr>sq_phase := scan_next t js f rows rs\<rparr>)" for rs
    by (auto simp: phase_origin_def scan_next_def split: option.splits list.splits prod.splits)
  show ?thesis
  proof (cases "task_answer t")
    case None
    with assms(1) Scanning obtain t' where
      c: "c' = c\<lparr>sq_phase := Scanning t' js f rows, sq_sent := sq_sent c @ task_exchange (pe_fed env) t\<rparr>"
      by (auto simp: scanning_step)
    then have "set (sq_sent c) \<subseteq> set (sq_sent c')" "sq_log c' = sq_log c" "phase_origin env c'" by (auto simp: phase_origin_def)
    with assms(3) answered_mono show ?thesis by metis
  next
    case (Some r)
    with assms Scanning n show ?thesis
      by (cases r) (auto simp: sql_conn_step_def phase_origin_def [of env "c\<lparr>sq_phase := ScanDone x\<rparr>" for x])
  qed
next
  case (Relaying j sql)
  obtain r ses where conn: "connect_backend (pe_fed env) st j ((sq_session c)\<lparr>ps_current_shard := Some j\<rparr>) = (r, ses)"
    by (cases "connect_backend (pe_fed env) st j ((sq_session c)\<lparr>ps_current_shard := Some j\<rparr>)")
  with assms Relaying show ?thesis
    by (cases r) (auto simp: sql_conn_step_def phase_origin_def sql_finish_def answered_by_shard_def [of env "sq_sent c" "(a, b, Answer (Inl e))" for a b e])
next
  case (RelayAsking j client sql)
  from assms(2) RelayAsking obtain st0 sql' params where now: "sq_now c = (st0, Route sql' params)"
    and route: "app_resolve_route (pe_ring env) (pe_sp env) st0 sql' params = Inr PassthroughRoute"
    by (auto simp: phase_origin_def)
  let ?c = "c\<lparr>sq_sent := sq_sent c @ [(j, client, sql, fe_ask (pe_fed env) client sql)]\<rparr>"
  from assms(1) RelayAsking have c: "c' = sql_finish (Answer (backend_answer (pe_fed env) (fe_ask (pe_fed env) client sql))) ?c"
    by (simp add: sql_conn_step_def Let_def)
  have "answered_by_shard env sent (st0, Route sql' params, out)" for sent out
    using route by (simp add: answered_by_shard_def)
  moreover have "\<forall>entry \<in> set (sq_log c). answered_by_shard env (sq_sent ?c) entry"
    using assms(3) by (auto intro: answered_mono)
  ultimately show ?thesis unfolding c using now by (simp add: phase_origin_def sql_finish_def)
qed (use assms in \<open>simp_all add: sql_conn_step_def\<close>)

lemma sql_arrive_origin:
  assumes "sq_phase c = SqlReady"
    and "\<forall>entry \<in> set (sq_log c). answered_by_shard env (sq_sent c) entry"
  shows "phase_origin env (sql_arrive env st req c) \<and> sq_sent (sql_arrive env st req c) = sq_sent c
    \<and> (\<forall>entry \<in> set (sq_log (sql_arrive env st req c)). answered_by_shard env (sq_sent c) entry)"
proof -
  obtain r ses where i: "intake env req (sq_session c) = (r, ses)" by (cases "intake env req (sq_session c)")
  show ?thesis
  proof (cases r)
    case (Route sql params)
    show ?thesis
    proof (cases "route_request env sql params st ses")
      case (Inl out)
      with route_request_out [OF Inl] i Route assms show ?thesis
        by (auto simp: sql_arrive_def sql_finish_def phase_origin_def answered_by_shard_def)
    next
      case (Inr ph)
      with route_request_phase [OF Inr] i Route assms show ?thesis
        by (auto simp: sql_arrive_def phase_origin_def)
    qed
  qed (use i assms in \<open>auto simp: sql_arrive_def sql_finish_def phase_origin_def answered_by_shard_def\<close>)
qed

subsection \<open>The invariant of the server\<close>

lemma uses_update:
  assumes "n < length (sv_conns s)"
  shows "uses (s\<lparr>sv_conns := (sv_conns s)[n := c'], sv_app := st', sv_opened := op\<rparr>) i k + conn_uses (sv_conns s ! n) i k
      + idle_uses (as_pg_pool (sv_app s)) i k =
    uses s i k + conn_uses c' i k + idle_uses (as_pg_pool st') i k"
proof -
  let ?f = "\<lambda>c. conn_uses c i k"
  have "?f (sv_conns s ! n) \<le> sum_list (map ?f (sv_conns s))"
    using assms by (intro member_le_sum_list) auto
  moreover have "sum_list (map ?f ((sv_conns s)[n := c'])) = sum_list (map ?f (sv_conns s)) + ?f c' - ?f (sv_conns s ! n)"
    using sum_list_update [of n "map ?f (sv_conns s)" "?f c'"] assms unfolding map_update by simp
  ultimately have "sum_list (map ?f ((sv_conns s)[n := c'])) + ?f (sv_conns s ! n) = sum_list (map ?f (sv_conns s)) + ?f c'"
    by linarith
  moreover have "sv_conns (s\<lparr>sv_conns := (sv_conns s)[n := c'], sv_app := st', sv_opened := op\<rparr>) = (sv_conns s)[n := c']"
    "sv_app (s\<lparr>sv_conns := (sv_conns s)[n := c'], sv_app := st', sv_opened := op\<rparr>) = st'" by simp_all
  ultimately show ?thesis unfolding uses_def by simp
qed

lemma conn_uses_le: "c \<in> set (sv_conns s) \<Longrightarrow> conn_uses c i k \<le> uses s i k"
  unfolding uses_def by (rule trans_le_add2, rule member_le_sum_list) auto

lemma note_opened_mono: "fresh opened new \<Longrightarrow> opened k = Some i \<Longrightarrow> note_opened opened new k = Some i"
  by (auto simp: fresh_def note_opened_def split: option.splits)

lemma unsharedD: "unshared s \<Longrightarrow> uses s i k \<le> (if sv_opened s k = Some i then 1 else 0)"
  unfolding unshared_def by blast

lemma used_opened:
  assumes "unshared s" and "c \<in> set (sv_conns s)" and "1 \<le> conn_uses c i k"
  shows "sv_opened s k = Some i"
  using unsharedD [OF assms(1), of i k] conn_uses_le [OF assms(2), of i k] assms(3) by (cases "sv_opened s k = Some i") auto

lemma serve_step_inv:
  assumes "serve_step env s s'" and "sql_inv env s"
  shows "sql_inv env s'"
  using assms(1)
proof cases
  case (served n dial ask c' st' new)
  let ?c = "sv_conns s ! n" and ?env = "with_net env dial ask"
  have mem: "?c \<in> set (sv_conns s)" using served(2) by simp
  from assms(2) have un: "unshared s" and ses: "sessions_ok env s" by (simp_all add: sql_inv_def)
  from ses mem have c: "conn_ok ?c" "phase_origin env ?c" "\<forall>entry \<in> set (sq_log ?c). answered_by_shard env (sq_sent ?c) entry"
    and sent: "\<forall>(i, k, sql, r) \<in> set (sq_sent ?c). sv_opened s k = Some i"
    by (auto simp: sessions_ok_def)
  have "uses s' i k \<le> (if sv_opened s' k = Some i then 1 else 0)" for i k
  proof -
    from sql_conn_step_uses [OF served(3) c(1), of i k] uses_update [OF served(2), where c' = c' and st' = st' and op = "note_opened (sv_opened s) new" and i = i and k = k]
    have le: "uses s' i k \<le> uses s i k + (if new = Some (i, k) then 1 else 0)"
      unfolding served(1,4) by linarith
    have old: "uses s i k \<le> (if sv_opened s k = Some i then 1 else 0)" using un by (simp add: unshared_def)
    show ?thesis
    proof (cases "new = Some (i, k)")
      case True
      with served(5) old le show ?thesis by (simp add: served(1) fresh_def note_opened_def)
    next
      case False
      with le old note_opened_mono [OF served(5), of k i] show ?thesis by (simp add: served(1) split: if_splits)
    qed
  qed
  then have "unshared s'" by (simp add: unshared_def)
  moreover have "sessions_ok env s'"
    unfolding sessions_ok_def
  proof
    fix x assume "x \<in> set (sv_conns s')"
    then consider "x \<in> set (sv_conns s)" | "x = c'" by (auto simp: served(1) dest: set_update_subset_insert [THEN subsetD])
    then show "conn_ok x \<and> phase_origin env x \<and> (\<forall>entry \<in> set (sq_log x). answered_by_shard env (sq_sent x) entry)
        \<and> (\<forall>(i, k, sql, r) \<in> set (sq_sent x). sv_opened s' k = Some i)"
    proof cases
      case 1
      with ses note_opened_mono [OF served(5)] show ?thesis by (fastforce simp: sessions_ok_def served(1))
    next
      case 2
      obtain ex where ex: "sq_sent c' = sq_sent ?c @ ex" "\<forall>(i, k, sql, r) \<in> set ex. 1 \<le> conn_uses ?c i k"
        using sql_conn_step_sent [OF served(3) c(1)] by blast
      from ex(2) used_opened [OF un mem] have "\<forall>(i, k, sql, r) \<in> set ex. sv_opened s k = Some i" by blast
      with ex(1) sent note_opened_mono [OF served(5)] have "\<forall>(i, k, sql, r) \<in> set (sq_sent c'). sv_opened s' k = Some i"
        by (fastforce simp: served(1))
      with 2 sql_conn_step_ok [OF served(3) c(1)] sql_conn_step_origin [OF served(3)] c(2,3) show ?thesis by simp
    qed
  qed
  ultimately show ?thesis by (simp add: sql_inv_def)
qed

text \<open>A change of one session that uses no more connections and sends nothing.\<close>

lemma conn_change_inv:
  assumes "sql_inv env s" and "n < length (sv_conns s)" and "\<And>i k. conn_uses c' i k \<le> conn_uses (sv_conns s ! n) i k"
    and "conn_ok c'" and "phase_origin env c'" and "sq_sent c' = sq_sent (sv_conns s ! n)"
    and "\<forall>entry \<in> set (sq_log c'). answered_by_shard env (sq_sent c') entry"
  shows "sql_inv env (s\<lparr>sv_conns := (sv_conns s)[n := c']\<rparr>)"
proof -
  let ?s = "s\<lparr>sv_conns := (sv_conns s)[n := c']\<rparr>"
  have same: "s\<lparr>sv_conns := (sv_conns s)[n := c'], sv_app := sv_app s, sv_opened := sv_opened s\<rparr> = ?s" by (cases s) simp
  have le: "uses ?s i k \<le> uses s i k" for i k
    using uses_update [OF assms(2), where c' = c' and st' = "sv_app s" and op = "sv_opened s" and i = i and k = k] assms(3) [of i k]
    unfolding same by linarith
  have "unshared s" using assms(1) by (simp add: sql_inv_def)
  have "uses ?s i k \<le> (if sv_opened ?s k = Some i then 1 else 0)" for i k
    using le [of i k] unsharedD [OF \<open>unshared s\<close>, of i k] by (simp split: if_splits)
  then have "unshared ?s" unfolding unshared_def by blast
  moreover have "\<forall>(i, k, sql, r) \<in> set (sq_sent (sv_conns s ! n)). sv_opened s k = Some i"
    using assms(1) nth_mem [OF assms(2)] unfolding sql_inv_def sessions_ok_def by blast
  then have "sessions_ok env ?s"
    using assms by (auto simp: sql_inv_def sessions_ok_def dest!: set_update_subset_insert [THEN subsetD])
  ultimately show ?thesis by (simp add: sql_inv_def)
qed

lemma conn_added_inv:
  assumes "sql_inv env s" and "\<And>i k. conn_uses c' i k = 0" and "conn_ok c'" and "phase_origin env c'"
    and "sq_sent c' = []" and "sq_log c' = []"
  shows "sql_inv env (s\<lparr>sv_conns := sv_conns s @ [c']\<rparr>)"
  using assms by (auto simp: sql_inv_def unshared_def uses_def sessions_ok_def)

lemma intake_backends: "intake env req ses = (r, ses') \<Longrightarrow> ps_backends ses' = ps_backends ses"
  by (cases req) (auto simp: take_dialect_sql_def split: option.splits if_splits)

lemma sql_arrive_uses:
  assumes "sq_phase c = SqlReady"
  shows "conn_uses (sql_arrive env st req c) i k = conn_uses c i k" and "conn_ok (sql_arrive env st req c)"
proof -
  obtain r ses where i: "intake env req (sq_session c) = (r, ses)" by (cases "intake env req (sq_session c)")
  show "conn_uses (sql_arrive env st req c) i k = conn_uses c i k" and "conn_ok (sql_arrive env st req c)"
    using i intake_backends [OF i] assms
    by (auto simp: sql_arrive_def Let_def conn_uses_def conn_ok_def sql_finish_def dest!: route_request_phase split: Intake.splits sum.splits)
qed

lemma server_step_inv: "server_step env s s' \<Longrightarrow> sql_inv env s \<Longrightarrow> sql_inv env s'"
proof (induction rule: server_step.induct)
  case (serving s s')
  then show ?case by (rule serve_step_inv)
next
  case (joined s)
  then show ?case by (intro conn_added_inv) (simp_all add: sql_conn_start_def conn_uses_def conn_state_new_def conn_ok_def phase_origin_def)
next
  case (arrived i s req)
  then have "\<forall>entry \<in> set (sq_log (sv_conns s ! i)). answered_by_shard env (sq_sent (sv_conns s ! i)) entry"
    by (auto simp: sql_inv_def sessions_ok_def)
  with arrived sql_arrive_origin [of "sv_conns s ! i" env "sv_app s" req] show ?case
    by (intro conn_change_inv) (simp_all add: sql_arrive_uses)
next
  case (prepared i s c sql)
  then have "c \<in> set (sv_conns s)" by simp
  with prepared have "\<forall>entry \<in> set (sq_log c). answered_by_shard env (sq_sent c) entry"
    by (auto simp: sql_inv_def sessions_ok_def)
  moreover have "ps_backends (snd (dialect_parse_sql (pe_sp env) sql (sq_session c))) = ps_backends (sq_session c)"
    by (auto simp: dialect_parse_sql_def Let_def split: sum.splits list.splits)
  ultimately show ?case using prepared by (intro conn_change_inv) (simp_all add: conn_uses_def conn_ok_def phase_origin_def)
next
  case (engine_scans i s table schema limit)
  then show ?case
    by (intro conn_added_inv)
      (simp_all add: scan_start_def sql_conn_start_def conn_uses_def conn_state_new_def conn_ok_def phase_origin_def split: list.splits)
next
  case (engine_ends i s)
  then have "\<forall>entry \<in> set (sq_log (sv_conns s ! i)). answered_by_shard env (sq_sent (sv_conns s ! i)) entry"
    by (auto simp: sql_inv_def sessions_ok_def)
  with engine_ends show ?case by (intro conn_change_inv) (simp_all add: conn_uses_def conn_ok_def phase_origin_def)
next
  case (client_left i s)
  then have "\<forall>entry \<in> set (sq_log (sv_conns s ! i)). answered_by_shard env (sq_sent (sv_conns s ! i)) entry"
    by (auto simp: sql_inv_def sessions_ok_def)
  with client_left show ?case
    by (intro conn_change_inv) (simp_all add: conn_uses_def conn_ok_def phase_origin_def conn_state_new_def)
next
  case (reported s md stream')
  then show ?case by (simp add: sql_inv_def unshared_def uses_def sessions_ok_def)
qed

interpretation sql_sys: step_system "server_step env" "sql_inv env" for env
  by unfold_locales (rule server_step_inv)

subsection \<open>The pool\<close>

lemma pool_moves_refl [simp]: "pool_moves parse_conn (pool, hs) (pool, hs)"
  by (simp add: pool_moves_def)

lemma finished_handles: "task_answer t = Some r \<Longrightarrow> task_handles t = []"
  by (auto simp: task_answer_def task_handles_def split: QueryStage.splits)

lemma conn_handles_none [simp]: "phase_task (sq_phase c) = None \<Longrightarrow> conn_handles c = []"
  by (simp add: conn_handles_def)

lemma scan_next_handles [simp]: "conn_handles (c\<lparr>sq_phase := scan_next t is f rows rs\<rparr>) = []"
  using scan_next_task [of t "is" f rows rs] by (auto simp: conn_handles_def)

lemma sql_conn_step_moves:
  assumes "sql_conn_step env st c = Some (c', st')" and "conn_ok c"
  shows "pool_moves (fe_parse_conn (pe_fed env)) (as_pg_pool st, xs @ conn_handles c @ ys) (as_pg_pool st', xs @ conn_handles c' @ ys)"
proof (cases "phase_task (sq_phase c)")
  case None
  with assms(1) have "conn_handles c' = []" "as_pg_pool st' = as_pg_pool st"
    by (cases "sq_phase c"; auto simp: sql_conn_step_def conn_handles_def Let_def split: sum.splits prod.splits)+
  with None show ?thesis by simp
next
  case (Some t)
  with assms(2) have ok: "task_ok t" by (simp add: conn_ok_def)
  have h: "conn_handles c = task_handles t" using Some by (simp add: conn_handles_def)
  show ?thesis
  proof (cases "task_answer t")
    case None
    with assms(1) Some obtain t' where t: "task_step (pe_fed env) (as_pg_pool st) t = Some (t', as_pg_pool st')"
      and "phase_task (sq_phase c') = Some t'"
      by (cases "sq_phase c") (auto simp: querying_step scanning_step)
    with task_step_moves [OF t ok, of xs ys] h show ?thesis by (simp add: conn_handles_def)
  next
    case r: (Some r)
    with assms(1) Some have "conn_handles c' = []" "as_pg_pool st' = as_pg_pool st"
      by (cases "sq_phase c"; auto simp: sql_conn_step_def split: sum.splits)+
    with h finished_handles [OF r] show ?thesis by simp
  qed
qed

lemma handles_update:
  assumes "n < length (sv_conns s)"
  obtains xs ys where "server_handles s = xs @ conn_handles (sv_conns s ! n) @ ys"
    and "\<And>c' st' op. server_handles (s\<lparr>sv_conns := (sv_conns s)[n := c'], sv_app := st', sv_opened := op\<rparr>) = xs @ conn_handles c' @ ys"
    and "\<And>c'. server_handles (s\<lparr>sv_conns := (sv_conns s)[n := c']\<rparr>) = xs @ conn_handles c' @ ys"
proof -
  let ?xs = "concat (map conn_handles (take n (sv_conns s)))" and ?ys = "concat (map conn_handles (drop (Suc n) (sv_conns s)))"
  have "server_handles s = ?xs @ conn_handles (sv_conns s ! n) @ ?ys"
    unfolding server_handles_def by (subst id_take_nth_drop [OF assms]) simp
  moreover have "concat (map conn_handles ((sv_conns s)[n := c'])) = ?xs @ conn_handles c' @ ?ys" for c'
    by (subst upd_conv_take_nth_drop [OF assms]) simp
  ultimately show thesis using that [of ?xs ?ys] by (simp add: server_handles_def)
qed

lemma handles_same:
  assumes "n < length (sv_conns s)" and "conn_handles (sv_conns s ! n) = []" and "conn_handles c' = []"
  shows "server_handles (s\<lparr>sv_conns := (sv_conns s)[n := c']\<rparr>) = server_handles s"
  using handles_update [OF assms(1)] assms(2,3) by metis

lemma serve_step_moves:
  assumes "serve_step env s s'" and "sql_inv env s"
  shows "pool_moves (fe_parse_conn (pe_fed env)) (as_pg_pool (sv_app s), server_handles s) (as_pg_pool (sv_app s'), server_handles s')"
  using assms(1)
proof cases
  case (served n dial ask c' st' new)
  obtain xs ys where h: "server_handles s = xs @ conn_handles (sv_conns s ! n) @ ys" "server_handles s' = xs @ conn_handles c' @ ys"
    using handles_update [OF served(2)] unfolding served(1) by metis
  from assms(2) served(2) have "conn_ok (sv_conns s ! n)" by (simp add: sql_inv_def sessions_ok_def)
  from sql_conn_step_moves [OF served(3) this, of xs ys] h show ?thesis by (simp add: served(1) with_net_def)
qed

lemma arrive_handles: "sq_phase c = SqlReady \<Longrightarrow> conn_handles (sql_arrive env st req c) = []"
  by (auto simp: sql_arrive_def Let_def conn_handles_def sql_finish_def dest!: route_request_phase
      split: prod.splits Intake.splits sum.splits)

lemma server_step_moves:
  assumes "server_step env s s'" and "sql_inv env s"
  shows "pool_moves (fe_parse_conn (pe_fed env)) (as_pg_pool (sv_app s), server_handles s) (as_pg_pool (sv_app s'), server_handles s')"
proof (cases "serve_step env s s'")
  case True
  then show ?thesis using assms(2) by (rule serve_step_moves)
next
  case False
  have "as_pg_pool (sv_app s') = as_pg_pool (sv_app s) \<and> server_handles s' = server_handles s"
    using assms(1) False
  proof (induction rule: server_step.induct)
    case (arrived i s req)
    from handles_same [OF arrived(1) _ arrive_handles [OF arrived(2)]] arrived(2) show ?case by simp
  next
    case (prepared i s c sql)
    then show ?case by (simp add: handles_same)
  next
    case (engine_ends i s)
    then show ?case by (simp add: handles_same)
  next
    case (client_left i s)
    then show ?case by (simp add: handles_same)
  qed (auto simp: server_handles_def sql_conn_start_def scan_start_def conn_handles_def split: list.splits)
  then show ?thesis by simp
qed

lemma sql_start_inv: "as_pg_pool st = pool_new shards auth n \<Longrightarrow> sql_inv env (sql_server_start st)"
  by (simp add: sql_inv_def unshared_def uses_def sessions_ok_def sql_server_start_def idle_uses_def idle_of_def pool_new_def)

text \<open>The states of the server, seen as states of the pool system.\<close>

lemma server_pool_reachable:
  assumes "rtranclp (server_step env) (sql_server_start st) s" and "as_pg_pool st = pool_new shards auth n"
  shows "\<exists>hs. pool_reachable (fe_parse_conn (pe_fed env)) shards auth n (as_pg_pool (sv_app s), hs) \<and> mset hs = mset (server_handles s)"
  using assms(1)
proof (induction rule: rtranclp_induct)
  case base
  then show ?case
    using assms(2) by (intro exI [of _ "[]"]) (auto simp: sql_server_start_def server_handles_def intro: pool_reachable.start)
next
  case (step s s')
  have "sql_inv env s" using sql_sys.reachable_inv [OF step(1) sql_start_inv [OF assms(2)]] .
  from server_step_moves [OF step(2) this] step(3) show ?case using pool_moves_reachable by blast
qed

lemma server_pool_inv:
  assumes "rtranclp (server_step env) (sql_server_start st) s" and "as_pg_pool st = pool_new shards auth n"
  shows "pool_inv (as_pg_pool (sv_app s), server_handles s)" and "pp_max_per_shard (as_pg_pool (sv_app s)) = max n 1"
    and "dom (pp_permits (as_pg_pool (sv_app s))) = sc_id ` set shards"
proof -
  obtain hs where hs: "pool_reachable (fe_parse_conn (pe_fed env)) shards auth n (as_pg_pool (sv_app s), hs)"
    "mset hs = mset (server_handles s)" using server_pool_reachable [OF assms] by blast
  from pool_reachable_inv [OF hs(1)] pool_inv_mset [OF hs(2)] show "pool_inv (as_pg_pool (sv_app s), server_handles s)" by simp
  from pool_reachable_config [OF hs(1)] show "pp_max_per_shard (as_pg_pool (sv_app s)) = max n 1"
    "dom (pp_permits (as_pg_pool (sv_app s))) = sc_id ` set shards" by simp_all
qed

subsection \<open>Progress\<close>

fun busy :: "'k SqlPhase \<Rightarrow> bool" where
  "busy (Querying t) = True"
| "busy (Relaying i sql) = True"
| "busy (RelayAsking i client sql) = True"
| "busy (Scanning t is f rows) = True"
| "busy _ = False"

lemma busy_rank: "busy ph \<longleftrightarrow> 0 < phase_rank ph"
  by (cases ph) simp_all

lemma sql_conn_stuck:
  assumes "busy (sq_phase c)" and "sql_conn_step env st c = None"
  shows "\<exists>t. phase_task (sq_phase c) = Some t \<and> tk_stage t = WantPermit \<and> acquire_permit (as_pg_pool st) (tk_shard t) = Inr None"
proof (cases "phase_task (sq_phase c)")
  case None
  with assms show ?thesis by (cases "sq_phase c") (auto simp: sql_conn_step_def Let_def split: sum.splits prod.splits)
next
  case (Some t)
  with assms have "task_answer t = None" "task_step (pe_fed env) (as_pg_pool st) t = None"
    by (cases "sq_phase c"; auto simp: sql_conn_step_def split: option.splits sum.splits)+
  with Some show ?thesis by (auto simp: task_stuck)
qed

text \<open>With a network that answers every attempt to connect with an error, no step opens a connection.\<close>

lemma failing_net_opens: "opens (with_net env (\<lambda>_. Inl e) ask) st c = None"
  by (auto simp: opens_def task_opens_def connect_def with_net_def connect_backend_def
      split: SqlPhase.splits QueryStage.splits option.splits sum.splits prod.splits)

lemma some_session_steps:
  assumes "pool_inv (as_pg_pool (sv_app s), server_handles s)" and "0 < pp_max_per_shard (as_pg_pool (sv_app s))"
    and "c \<in> set (sv_conns s)" and "busy (sq_phase c)"
  shows "\<exists>s'. serve_step env s s'"
proof (rule ccontr)
  assume none: "\<not> (\<exists>s'. serve_step env s s')"
  let ?env = "with_net env (\<lambda>_. Inl []) (\<lambda>_ _. Inr [])"
  have stuck: "sql_conn_step ?env (sv_app s) x = None" if "x \<in> set (sv_conns s)" for x
  proof (rule ccontr)
    assume "sql_conn_step ?env (sv_app s) x \<noteq> None"
    then obtain c' st' where "sql_conn_step ?env (sv_app s) x = Some (c', st')" by force
    moreover obtain n where "n < length (sv_conns s)" "sv_conns s ! n = x" using \<open>x \<in> set (sv_conns s)\<close> by (auto simp: in_set_conv_nth)
    ultimately have "serve_step env s (s\<lparr>sv_conns := (sv_conns s)[n := c'], sv_app := st', sv_opened := note_opened (sv_opened s) None\<rparr>)"
      by (intro served [where dial = "\<lambda>_. Inl []" and ask = "\<lambda>_ _. Inr []"]) (simp_all add: failing_net_opens fresh_def)
    with none show False by blast
  qed
  from sql_conn_stuck [OF assms(4) stuck [OF assms(3)]] obtain t where "phase_task (sq_phase c) = Some t"
    "acquire_permit (as_pg_pool (sv_app s)) (tk_shard t) = Inr None" by blast
  then have "pp_permits (as_pg_pool (sv_app s)) (tk_shard t) = Some 0"
    by (auto simp: acquire_permit_def split: option.splits nat.splits)
  moreover have "shard_ok (as_pg_pool (sv_app s)) (server_handles s) (tk_shard t)"
    using assms(1) unfolding pool_inv_def by simp
  ultimately have "0 < holders (tk_shard t) (server_handles s)" using assms(2) by (simp add: shard_ok_def)
  then obtain h where "h \<in> set (server_handles s)" by (auto simp: holders_def filter_empty_conv)
  then obtain x where x: "x \<in> set (sv_conns s)" "conn_handles x \<noteq> []" by (fastforce simp: server_handles_def)
  then obtain t2 where t2: "phase_task (sq_phase x) = Some t2" "task_handles t2 \<noteq> []"
    by (auto simp: conn_handles_def split: option.splits)
  then have "busy (sq_phase x)" by (cases "sq_phase x") auto
  from sql_conn_stuck [OF this stuck [OF x(1)]] t2 show False by (auto simp: task_handles_def)
qed

definition server_rank :: "('r, 'c, 'k) SqlServer \<Rightarrow> nat" where
  "server_rank s = sum_list (map (\<lambda>c. phase_rank (sq_phase c)) (sv_conns s))"

lemma serve_step_rank:
  assumes "serve_step env s s'"
  shows "server_rank s' < server_rank s"
  using assms
proof cases
  case (served n dial ask c' st' new)
  let ?f = "\<lambda>c. phase_rank (sq_phase c)"
  have "?f (sv_conns s ! n) \<le> sum_list (map ?f (sv_conns s))"
    using served(2) by (intro member_le_sum_list) auto
  moreover have "sum_list (map ?f ((sv_conns s)[n := c'])) = sum_list (map ?f (sv_conns s)) + ?f c' - ?f (sv_conns s ! n)"
    using sum_list_update [of n "map ?f (sv_conns s)" "?f c'"] served(2) unfolding map_update by simp
  ultimately show ?thesis using sql_conn_step_rank [OF served(3)] by (simp add: served(1) server_rank_def)
qed

subsection \<open>An instance for the witnesses\<close>

definition demo_sql_app :: "(VNode list, nat \<times> StreamTick list, nat) AppState" where
  "demo_sql_app = demo_fed_app\<lparr>as_pg_pool := pool_new [demo_shard 0, demo_shard 1] default_pg_auth 1\<rparr>"

text \<open>One client sends a query that the engine scans a table for; the scan has taken its first permit.\<close>

definition demo_taken :: "nat ShardPgPool" where
  "demo_taken = (as_pg_pool demo_sql_app)\<lparr>pp_permits := (pp_permits (as_pg_pool demo_sql_app))(0 \<mapsto> 0)\<rparr>"

lemma demo_scan:
  obtains s c1 c2 where "sq_phase c2 = Scanning (at_stage (task_start 0 (scan_sql ''t'' [] None)) TryIdle) [1] None []"
    "sq_sent c2 = []" "sv_app s = demo_sql_app\<lparr>as_pg_pool := demo_taken\<rparr>" and "rtranclp (server_step demo_pg_env) (sql_server_start demo_sql_app) s" "sv_conns s = [c1, c2]"
    "server_handles s = [Permitted 0]" "busy (sq_phase c2)" "sv_opened s = Map.empty"
proof -
  let ?st = "demo_sql_app" and ?step = "server_step demo_pg_env"
  let ?c0 = "sql_conn_start ?st" and ?c1 = "sql_arrive demo_pg_env ?st (TextQuery ''q'') (sql_conn_start ?st)"
  let ?q = "scan_sql ''t'' [] None" and ?s0 = "sql_server_start demo_sql_app"
  let ?s1 = "?s0\<lparr>sv_conns := [?c0]\<rparr>" and ?s2 = "?s0\<lparr>sv_conns := [?c1]\<rparr>" and ?s3 = "?s0\<lparr>sv_conns := [?c1, scan_start ?st ?q]\<rparr>"
  have ext: "\<not> has_questdb_extension ''q''" by code_simp
  have pool: "pp_permits (as_pg_pool ?st) 0 = Some 1" "pool_shard_ids (as_pg_pool ?st) = [0, 1]"
    by (simp_all add: demo_sql_app_def pool_new_def pool_shard_ids_def demo_shard_def insert_commute)
  have "?step ?s0 ?s1" using server_step.joined [of demo_pg_env ?s0] by (simp add: sql_server_start_def)
  moreover have "?step ?s1 ?s2"
    using server_step.arrived [of 0 ?s1 demo_pg_env "TextQuery ''q''"] by (simp add: sql_server_start_def sql_conn_start_def)
  moreover have "?step ?s2 ?s3"
    using server_step.engine_scans [of 0 ?s2 demo_pg_env "''t''" "[]" None] ext
    by (simp add: sql_server_start_def sql_arrive_def sql_finish_def)
  ultimately have r3: "rtranclp ?step ?s0 ?s3" by (meson rtranclp.rtrancl_into_rtrancl rtranclp.rtrancl_refl)
  let ?pool = "(as_pg_pool ?st)\<lparr>pp_permits := (pp_permits (as_pg_pool ?st))(0 \<mapsto> 0)\<rparr>"
  let ?c2 = "(scan_start ?st ?q)\<lparr>sq_phase := Scanning (at_stage (task_start 0 ?q) TryIdle) [1] None [], sq_sent := []\<rparr>"
  let ?s4 = "?s3\<lparr>sv_conns := [?c1, ?c2], sv_app := ?st\<lparr>as_pg_pool := ?pool\<rparr>, sv_opened := Map.empty\<rparr>"
  have ph: "sq_phase (scan_start ?st ?q) = Scanning (task_start 0 ?q) [1] None []" "sq_sent (scan_start ?st ?q) = []"
    using pool(2) by (simp_all add: scan_start_def sql_conn_start_def)
  have "sql_conn_step (with_net demo_pg_env dial ask) ?st (scan_start ?st ?q) = Some (?c2, ?st\<lparr>as_pg_pool := ?pool\<rparr>)" for dial ask
    using ph pool(1) scanning_step [OF ph(1), of "with_net demo_pg_env dial ask" ?st]
    by (simp add: task_answer_def task_step_def acquire_permit_def task_exchange_def)
  then have "serve_step demo_pg_env ?s3 ?s4"
    using serve_step.served [of 1 ?s3 demo_pg_env "\<lambda>_. Inl []" "\<lambda>_ _. Inr []" ?c2 "?st\<lparr>as_pg_pool := ?pool\<rparr>" None]
    by (simp add: sql_server_start_def failing_net_opens fresh_def note_opened_def)
  with r3 have r4: "rtranclp ?step ?s0 ?s4" by (meson rtranclp.rtrancl_into_rtrancl server_step.serving)
  have "sq_phase ?c1 = InEngine" using ext by (simp add: sql_arrive_def sql_finish_def)
  then have "server_handles ?s4 = [Permitted 0]" by (simp add: server_handles_def conn_handles_def task_handles_def)
  with that [of ?c2 ?s4, OF _ _ _ r4] show thesis by (simp add: demo_taken_def)
qed

lemma serve_second:
  assumes "rtranclp (server_step env) s0 s" and "sv_conns s = [c1, c2]"
    and "sql_conn_step (with_net env dial ask) (sv_app s) c2 = Some (c', st')"
    and "fresh (sv_opened s) (opens (with_net env dial ask) (sv_app s) c2)"
  shows "\<exists>s'. rtranclp (server_step env) s0 s' \<and> sv_app s' = st' \<and> sv_conns s' = [c1, c']
    \<and> sv_opened s' = note_opened (sv_opened s) (opens (with_net env dial ask) (sv_app s) c2)"
proof -
  have "serve_step env s (s\<lparr>sv_conns := (sv_conns s)[1 := c'], sv_app := st',
      sv_opened := note_opened (sv_opened s) (opens (with_net env dial ask) (sv_app s) c2)\<rparr>)"
    by (rule served [where dial = dial and ask = ask]) (use assms in simp_all)
  from rtranclp.rtrancl_into_rtrancl [OF assms(1) server_step.serving [OF this]] assms(2)
  show ?thesis by (intro exI conjI) (assumption, simp_all)
qed

text \<open>The scan of \<open>demo_scan\<close>, until it has asked its first shard.\<close>

lemma demo_sent:
  obtains s c r where "rtranclp (server_step demo_pg_env) (sql_server_start demo_sql_app) s" "c \<in> set (sv_conns s)"
    "(0, 7, scan_sql ''t'' [] None, r) \<in> set (sq_sent c)"
proof -
  let ?q = "scan_sql ''t'' [] None" and ?st = "demo_sql_app\<lparr>as_pg_pool := demo_taken\<rparr>"
  let ?env = "with_net demo_pg_env (\<lambda>_. Inr 7) (\<lambda>_ _. Inr [])"
  obtain s c1 c2 where c2: "sq_phase c2 = Scanning (at_stage (task_start 0 ?q) TryIdle) [1] None []" "sq_sent c2 = []"
    and s: "sv_app s = ?st" "rtranclp (server_step demo_pg_env) (sql_server_start demo_sql_app) s" "sv_conns s = [c1, c2]"
    and op: "sv_opened s = Map.empty" by (rule demo_scan)
  have "char_of (56 :: nat) = CHR ''8''" "char_of (49 :: nat) = CHR ''1''" "char_of (50 :: nat) = CHR ''2''" by code_simp+
  then have "nat_to_string 8812 = ''8812''" by (simp add: nat_to_string.simps)
  then have "host_port (Endpoint ''h:8812'') = Inr (''h'', 8812)" using host_port_render [of "''h''" 8812] by simp
  then have conn: "connect (\<lambda>_. Inr ()) (\<lambda>_. Inr 7) demo_taken 0 = Inr 7"
    by (simp add: connect_def demo_taken_def demo_sql_app_def pool_new_def demo_shard_def backend_pg_config_def)
  have pop: "pop_idle demo_taken 0 = (None, demo_taken)" by (simp add: pop_idle_def demo_taken_def demo_sql_app_def pool_new_def)
  let ?ph = "\<lambda>stg. Scanning (at_stage (task_start 0 ?q) stg) [1] None []"
  let ?c3 = "c2\<lparr>sq_phase := ?ph Dialling, sq_sent := []\<rparr>"
  let ?c4 = "c2\<lparr>sq_phase := ?ph (Asking (pooled 0 7)), sq_sent := []\<rparr>"
  let ?c5 = "c2\<lparr>sq_phase := ?ph (Dropping (pooled 0 7) (Some (Inr []))), sq_sent := [(0, 7, ?q, Inr [])]\<rparr>"
  have st: "?st\<lparr>as_pg_pool := demo_taken\<rparr> = ?st" by simp
  have fed: "fe_parse_conn (pe_fed ?env) = (\<lambda>_. Inr ())" "fe_dial (pe_fed ?env) = (\<lambda>_. Inr 7)" "fe_ask (pe_fed ?env) = (\<lambda>_ _. Inr [])"
    by (simp_all add: with_net_def demo_pg_env_def demo_fed_env_def)
  have "sql_conn_step ?env ?st c2 = Some (?c3, ?st)"
    using c2 pop scanning_step [OF c2(1), of ?env ?st] by (simp add: task_answer_def task_step_def task_exchange_def)
  moreover have "opens ?env ?st c2 = None" using c2(1) by (simp add: opens_def task_opens_def)
  ultimately obtain s3 where s3: "rtranclp (server_step demo_pg_env) (sql_server_start demo_sql_app) s3" "sv_app s3 = ?st"
    "sv_conns s3 = [c1, ?c3]" "sv_opened s3 = Map.empty"
    using serve_second [OF s(2,3), of "\<lambda>_. Inr 7" "\<lambda>_ _. Inr []" ?c3 ?st] s(1) op
    by (simp add: fresh_def note_opened_def) blast
  have "sql_conn_step ?env ?st ?c3 = Some (?c4, ?st)"
    using fed conn scanning_step [of ?c3 "at_stage (task_start 0 ?q) Dialling" "[1]" None "[]" ?env ?st]
    by (simp add: task_answer_def task_step_def task_exchange_def)
  moreover have "opens ?env ?st ?c3 = Some (0, 7)" using fed conn by (simp add: opens_def task_opens_def)
  ultimately obtain s4 where s4: "rtranclp (server_step demo_pg_env) (sql_server_start demo_sql_app) s4" "sv_app s4 = ?st"
    "sv_conns s4 = [c1, ?c4]"
    using serve_second [OF s3(1,3), of "\<lambda>_. Inr 7" "\<lambda>_ _. Inr []" ?c4 ?st] s3(2,4)
    by (simp add: fresh_def) blast
  have "sql_conn_step ?env ?st ?c4 = Some (?c5, ?st)"
    using fed scanning_step [of ?c4 "at_stage (task_start 0 ?q) (Asking (pooled 0 7))" "[1]" None "[]" ?env ?st]
    by (simp add: task_answer_def task_step_def task_exchange_def after_reply_def query_shard_client_def)
  moreover have "opens ?env ?st ?c4 = None" by (simp add: opens_def task_opens_def)
  ultimately obtain s5 where s5: "rtranclp (server_step demo_pg_env) (sql_server_start demo_sql_app) s5" "sv_conns s5 = [c1, ?c5]"
    using serve_second [OF s4(1,3), of "\<lambda>_. Inr 7" "\<lambda>_ _. Inr []" ?c5 ?st] s4(2)
    by (simp add: fresh_def) blast
  show thesis by (rule that [OF s5(1), of ?c5 "Inr []"]) (simp_all add: s5(2))
qed

section \<open>Properties\<close>

text \<open>
  C4. Sessions share the pool and nothing else. In every state that any interleaving of sessions, scans, health
  reports and failures of the network can reach from the start: a connection is in at most one place - idle in
  the pool, borrowed by one task, or kept by one session - and that place belongs to the shard it was opened to;
  everything a session asked of a shard was asked on a connection opened to that shard; and a request that
  resolved to one shard when it arrived and was answered with a response got the first response that shard gave
  to the request's own text.
\<close>

theorem sql_sessions_share_no_connection:
  assumes "rtranclp (server_step env) (sql_server_start st) s" and "as_pg_pool st = pool_new shards auth n"
  shows "(\<forall>i k. uses s i k \<le> (if sv_opened s k = Some i then 1 else 0))
    \<and> (\<forall>c \<in> set (sv_conns s).
         (\<forall>(i, k, sql, r) \<in> set (sq_sent c). sv_opened s k = Some i)
       \<and> (\<forall>(st0, req, out) \<in> set (sq_log c). \<forall>sql params shard r.
            req = Route sql params \<and> out = Answer (Inr r)
            \<and> app_resolve_route (pe_ring env) (pe_sp env) st0 sql params = Inr (Single shard) \<longrightarrow>
              (\<exists>k x xs. (sc_id shard, k, backend_sql sql params, Inr (x # xs)) \<in> set (sq_sent c) \<and> r = to_server_response x)))"
proof -
  have "sql_inv env s" using sql_sys.reachable_inv [OF assms(1) sql_start_inv [OF assms(2)]] .
  then have "unshared s" and c: "\<forall>c \<in> set (sv_conns s). (\<forall>entry \<in> set (sq_log c). answered_by_shard env (sq_sent c) entry)
     \<and> (\<forall>(i, k, sql, r) \<in> set (sq_sent c). sv_opened s k = Some i)"
    by (auto simp: sql_inv_def sessions_ok_def)
  from c have "\<forall>c \<in> set (sv_conns s). \<forall>(st0, req, out) \<in> set (sq_log c). \<forall>sql params shard r.
      req = Route sql params \<and> out = Answer (Inr r)
      \<and> app_resolve_route (pe_ring env) (pe_sp env) st0 sql params = Inr (Single shard) \<longrightarrow>
        (\<exists>k x xs. (sc_id shard, k, backend_sql sql params, Inr (x # xs)) \<in> set (sq_sent c) \<and> r = to_server_response x)"
    unfolding answered_by_shard_def by blast
  with c unsharedD [OF \<open>unshared s\<close>] show ?thesis by blast
qed

theorem sql_sessions_share_no_connection_witness:
  "\<exists>s c r. rtranclp (server_step demo_pg_env) (sql_server_start demo_sql_app) s \<and> c \<in> set (sv_conns s)
     \<and> (0, 7, scan_sql ''t'' [] None, r) \<in> set (sq_sent c) \<and> sv_opened s 7 = Some 0 \<and> uses s 0 7 \<le> 1 \<and> uses s 1 7 = 0"
proof -
  obtain s c r where s: "rtranclp (server_step demo_pg_env) (sql_server_start demo_sql_app) s" "c \<in> set (sv_conns s)"
    "(0, 7, scan_sql ''t'' [] None, r) \<in> set (sq_sent c)" by (rule demo_sent)
  have "as_pg_pool demo_sql_app = pool_new [demo_shard 0, demo_shard 1] default_pg_auth 1" by (simp add: demo_sql_app_def)
  note shared = sql_sessions_share_no_connection [OF s(1) this]
  from shared s(2,3) have opened: "sv_opened s 7 = Some 0" by fastforce
  moreover from shared have "uses s i 7 \<le> (if sv_opened s 7 = Some i then 1 else 0)" for i by blast
  from this [of 0] this [of 1] opened have "uses s 0 7 \<le> 1 \<and> uses s 1 7 = 0" by simp
  ultimately show ?thesis using s by blast
qed

text \<open>
  C19. The server uses the pool as the pool system of \<open>Pg_Pool\<close> allows: whatever state it reaches, the pool with
  the permits and connections its tasks hold is a state of that system. So the permits of every configured shard
  are conserved, and the connections to it that are idle, being opened or borrowed never exceed the pool size.
\<close>

theorem server_refines_pool:
  assumes "rtranclp (server_step env) (sql_server_start st) s" and "as_pg_pool st = pool_new shards auth n"
  shows "\<exists>hs. mset hs = mset (server_handles s)
    \<and> pool_reachable (fe_parse_conn (pe_fed env)) shards auth n (as_pg_pool (sv_app s), hs)
    \<and> (\<forall>i. length (idle_of (as_pg_pool (sv_app s)) i) + connections i hs \<le> max n 1)
    \<and> (\<forall>i \<in> sc_id ` set shards. pp_permits (as_pg_pool (sv_app s)) i = Some (max n 1 - holders i hs))"
proof -
  obtain hs where hs: "pool_reachable (fe_parse_conn (pe_fed env)) shards auth n (as_pg_pool (sv_app s), hs)"
    "mset hs = mset (server_handles s)" using server_pool_reachable [OF assms] by blast
  have ok: "shard_ok (as_pg_pool (sv_app s)) hs i" for i using pool_reachable_inv [OF hs(1)] by (simp add: pool_inv_def)
  have conf: "pp_max_per_shard (as_pg_pool (sv_app s)) = max n 1" "dom (pp_permits (as_pg_pool (sv_app s))) = sc_id ` set shards"
    using pool_reachable_config [OF hs(1)] by simp_all
  have "length (idle_of (as_pg_pool (sv_app s)) i) + connections i hs \<le> max n 1" for i
    using ok [of i] conf(1) by (simp add: shard_ok_def)
  moreover have "pp_permits (as_pg_pool (sv_app s)) i = Some (max n 1 - holders i hs)" if "i \<in> sc_id ` set shards" for i
  proof -
    from that conf(2) obtain free where free: "pp_permits (as_pg_pool (sv_app s)) i = Some free" by blast
    with ok [of i] conf(1) have "max n 1 = free + holders i hs" by (simp add: shard_ok_def)
    with free show ?thesis by simp
  qed
  ultimately show ?thesis using hs by blast
qed

theorem server_refines_pool_witness:
  "\<exists>(s :: (VNode list, nat \<times> StreamTick list, nat) SqlServer) hs. server_handles s = [Permitted 0] \<and> mset hs = {#Permitted 0#}
     \<and> pool_reachable (\<lambda>_. Inr ()) [demo_shard 0, demo_shard 1] default_pg_auth 1 (as_pg_pool (sv_app s), hs)"
proof -
  obtain s c1 c2 where s: "rtranclp (server_step demo_pg_env) (sql_server_start demo_sql_app) s"
    "server_handles s = [Permitted 0]" by (rule demo_scan)
  have "as_pg_pool demo_sql_app = pool_new [demo_shard 0, demo_shard 1] default_pg_auth 1" by (simp add: demo_sql_app_def)
  from server_refines_pool [OF s(1) this] s(2) show ?thesis
    by (intro exI [of _ s]) (auto simp: demo_pg_env_def demo_fed_env_def)
qed

text \<open>
  C8. No request waits for ever. In every reachable state in which a session or a scan is busy, one of them can take a
  step; every run of such steps without a new request is finite, at most as long as the sum of what each still
  has to do; so all of them can be brought to an end, and there is no deadlock on the permits of the pool.
\<close>

theorem no_request_waits_for_ever:
  assumes "rtranclp (server_step env) (sql_server_start st) s" and "as_pg_pool st = pool_new shards auth n"
  shows "((\<exists>c \<in> set (sv_conns s). busy (sq_phase c)) \<longrightarrow> (\<exists>s'. serve_step env s s'))
    \<and> (\<forall>m s'. (serve_step env ^^ m) s s' \<longrightarrow> m \<le> server_rank s)
    \<and> (\<exists>s'. rtranclp (serve_step env) s s' \<and> (\<forall>c \<in> set (sv_conns s'). \<not> busy (sq_phase c)))"
proof (intro conjI)
  have live: "\<exists>s''. serve_step env s' s''"
    if "rtranclp (server_step env) (sql_server_start st) s'" "c \<in> set (sv_conns s')" "busy (sq_phase c)" for s' c
    using server_pool_inv [OF that(1) assms(2)] that(2,3) by (intro some_session_steps) auto
  then show "(\<exists>c \<in> set (sv_conns s). busy (sq_phase c)) \<longrightarrow> (\<exists>s'. serve_step env s s')" using assms(1) by blast
  have "(serve_step env ^^ m) s s' \<Longrightarrow> m + server_rank s' \<le> server_rank s" for m s'
  proof (induction m arbitrary: s')
    case (Suc m)
    then obtain s1 where "(serve_step env ^^ m) s s1" "serve_step env s1 s'" by auto
    with Suc.IH serve_step_rank show ?case by fastforce
  qed simp
  then show "\<forall>m s'. (serve_step env ^^ m) s s' \<longrightarrow> m \<le> server_rank s" using add_leD1 by blast
  show "\<exists>s'. rtranclp (serve_step env) s s' \<and> (\<forall>c \<in> set (sv_conns s'). \<not> busy (sq_phase c))"
    using assms(1)
  proof (induction "server_rank s" arbitrary: s rule: less_induct)
    case less
    show ?case
    proof (cases "\<exists>c \<in> set (sv_conns s). busy (sq_phase c)")
      case True
      with live less(2) obtain s1 where s1: "serve_step env s s1" by blast
      with less(2) have "rtranclp (server_step env) (sql_server_start st) s1"
        by (meson rtranclp.rtrancl_into_rtrancl server_step.serving)
      from less(1) [OF serve_step_rank [OF s1] this] s1 show ?thesis by (meson converse_rtranclp_into_rtranclp)
    qed blast
  qed
qed

theorem no_request_waits_for_ever_witness:
  "\<exists>s c s'. rtranclp (server_step demo_pg_env) (sql_server_start demo_sql_app) s \<and> c \<in> set (sv_conns s) \<and> busy (sq_phase c)
     \<and> rtranclp (serve_step demo_pg_env) s s' \<and> (\<forall>c \<in> set (sv_conns s'). \<not> busy (sq_phase c))"
proof -
  obtain s c1 c2 where s: "rtranclp (server_step demo_pg_env) (sql_server_start demo_sql_app) s"
    "sv_conns s = [c1, c2]" "busy (sq_phase c2)" by (rule demo_scan)
  have "as_pg_pool demo_sql_app = pool_new [demo_shard 0, demo_shard 1] default_pg_auth 1" by (simp add: demo_sql_app_def)
  from no_request_waits_for_ever [OF s(1) this] s show ?thesis by (metis list.set_intros(1) list.set_intros(2))
qed

text \<open>
  C20. A session alone does what the handlers do. For a request to a ready session, taking its steps until there is
  none left gives the outcome, the application state and the session of \<open>simple_do_query\<close>,
  \<open>handle_simple_query\<close> or \<open>handle_extended_query\<close>; where the handler waits for a permit, the steps stop in
  the same state with the request unanswered.
\<close>

theorem session_steps_are_the_handlers:
  assumes "handle_request env req st (sq_session c) = (out, st', ses')" and "sq_phase c = SqlReady"
    and "run_conn env st (sql_arrive env st req c) = (c', st'')"
  shows "st'' = st' \<and> sq_session c' = ses'
    \<and> (if out = Waiting then sq_log c' = sq_log c \<and> busy (sq_phase c') \<and> sql_conn_step env st' c' = None
       else sq_log c' = sq_log c @ [(st, fst (intake env req (sq_session c)), out)]
         \<and> sq_phase c' = (if out = Delegate then InEngine else SqlReady))"
proof -
  obtain r ses1 where i: "intake env req (sq_session c) = (r, ses1)" by (cases "intake env req (sq_session c)")
  let ?c = "c\<lparr>sq_session := ses1, sq_now := (st, r)\<rparr>"
  have done_case: ?thesis
    if "sql_arrive env st req c = sql_finish out ?c" "out \<noteq> Waiting" "st' = st" "ses' = ses1"
  proof -
    have "(c', st'') = (sql_finish out ?c, st)"
      using assms(3)[symmetric] unfolding that(1) run_conn_finished .
    with that i show ?thesis by (simp add: sql_finish_def)
  qed
  show ?thesis
  proof (cases r)
    case (Refused e)
    with i assms(1) show ?thesis by (intro done_case) (auto simp: handle_request_intake sql_arrive_def)
  next
    case PassOn
    with i assms(1) show ?thesis by (intro done_case) (auto simp: handle_request_intake sql_arrive_def)
  next
    case (Route sql params)
    with i assms(1) have raw: "handle_raw_sql env sql params st ses1 = (out, st', ses')" by (simp add: handle_request_intake)
    show ?thesis
    proof (cases "route_request env sql params st ses1")
      case (Inl x)
      with raw route_request_out [OF Inl] i Route show ?thesis
        by (intro done_case) (auto simp: handle_raw_route sql_arrive_def)
    next
      case (Inr ph)
      with i Route have arr: "sql_arrive env st req c = ?c\<lparr>sq_phase := ph\<rparr>" by (simp add: sql_arrive_def)
      from route_request_phase [OF Inr] show ?thesis
      proof
        assume "ph = Relaying (resolve_shard_id st (ps_current_shard ses1)) sql
          \<and> app_resolve_route (pe_ring env) (pe_sp env) st sql params = Inr PassthroughRoute"
        then have ph: "ph = Relaying (resolve_shard_id st (ps_current_shard ses1)) sql" ..
        obtain y ses2 where y: "relay_passthrough (pe_fed env) st sql ses1 = (y, ses2)"
          by (cases "relay_passthrough (pe_fed env) st sql ses1")
        from raw Inr ph y have out: "out = Answer y" "st' = st" "ses' = ses2" by (simp_all add: handle_raw_route)
        from run_relaying [of "?c\<lparr>sq_phase := ph\<rparr>" st sql env y ses2] y ph assms(3) arr obtain sent where
          "(c', st'') = (sql_finish (Answer y) (?c\<lparr>sq_phase := ph, sq_session := ses2, sq_sent := sent\<rparr>), st)" by auto
        with out i show ?thesis by (simp add: sql_finish_def)
      next
        assume "\<exists>shard. ph = Querying (task_start (sc_id shard) (backend_sql sql params))
          \<and> app_resolve_route (pe_ring env) (pe_sp env) st sql params = Inr (Single shard)"
        then obtain shard :: ShardConfig where ph: "ph = Querying (task_start (sc_id shard) (backend_sql sql params))" by blast
        obtain t p where t: "run_task (pe_fed env) (as_pg_pool st) (task_start (sc_id shard) (backend_sql sql params)) = (t, p)"
          by (cases "run_task (pe_fed env) (as_pg_pool st) (task_start (sc_id shard) (backend_sql sql params))")
        from tasks_run_query_shard [OF t] raw Inr ph
        have out: "st' = st\<lparr>as_pg_pool := p\<rparr>" "ses' = ses1"
          "out = (case task_answer t of None \<Rightarrow> Waiting | Some x \<Rightarrow> Answer (backend_answer (pe_fed env) x))"
          by (auto simp: handle_raw_route split: option.splits)
        let ?q = "?c\<lparr>sq_phase := ph\<rparr>"
        have "sq_phase ?q = Querying (task_start (sc_id shard) (backend_sql sql params))" using ph by simp
        from run_querying [OF this t] obtain sent where "run_conn env st ?q = (case task_answer t of
             Some x \<Rightarrow> (sql_finish (Answer (backend_answer (pe_fed env) x)) (?q\<lparr>sq_sent := sent\<rparr>), st\<lparr>as_pg_pool := p\<rparr>)
           | None \<Rightarrow> (?q\<lparr>sq_phase := Querying t, sq_sent := sent\<rparr>, st\<lparr>as_pg_pool := p\<rparr>))" by blast
        with assms(3) arr have run: "(c', st'') = \<dots>" by (simp only:)
        show ?thesis
        proof (cases "task_answer t")
          case None
          with run run_task_stuck [OF t] out i show ?thesis by (simp add: sql_conn_step_def)
        next
          case (Some x)
          with run out i show ?thesis by (simp add: sql_finish_def)
        qed
      qed
    qed
  qed
qed

theorem session_steps_are_the_handlers_witness:
  "\<exists>out st' ses' c'. handle_request demo_pg_env (StatementQuery ShowVariables) demo_sql_app conn_state_new = (out, st', ses')
     \<and> run_conn demo_pg_env demo_sql_app (sql_arrive demo_pg_env demo_sql_app (StatementQuery ShowVariables) (sql_conn_start demo_sql_app)) = (c', st')
     \<and> sq_session c' = ses'"
proof -
  let ?req = "StatementQuery ShowVariables" and ?c = "sql_conn_start demo_sql_app"
  obtain out st' ses' where h: "handle_request demo_pg_env ?req demo_sql_app (sq_session ?c) = (out, st', ses')"
    by (cases "handle_request demo_pg_env ?req demo_sql_app (sq_session ?c)") auto
  obtain c' st'' where r: "run_conn demo_pg_env demo_sql_app (sql_arrive demo_pg_env demo_sql_app ?req ?c) = (c', st'')"
    by (cases "run_conn demo_pg_env demo_sql_app (sql_arrive demo_pg_env demo_sql_app ?req ?c)")
  from session_steps_are_the_handlers [OF h _ r] h r show ?thesis by (auto simp: sql_conn_start_def)
qed

end
