(* ===== verification/Pg_Readonly.thy ===== *)
theory Pg_Readonly
  imports Pg_Server
begin

text \<open>
  The endpoint is documented as read-only. What of that the code enforces: which texts can reach a shard in any
  state of the server of \<open>Pg_Server\<close>, and the gap that the dialect test of \<open>pg_handlers.rs\<close> leaves, because it
  looks at the text before any statement is known.
\<close>

section \<open>Specification vocabulary\<close>

text \<open>
  The statements that may be sent to a shard: one SELECT without WITH, or one of the nine statements about the session
  and its transactions.
\<close>

definition read_or_session :: "Statement \<Rightarrow> bool" where
  "read_or_session stmt \<longleftrightarrow>
     (\<exists>query sel. stmt = QueryStatement query \<and> q_with query = None \<and> q_body query = SelectBody sel)
   \<or> stmt \<in> {StartTransaction, Commit, Rollback, SetStatement, ShowVariable, ShowVariables, Discard, Deallocate, CloseStatement}"

text \<open>
  A text the handlers take in: it holds a dialect keyword, or it is the text of a statement that is not a write. A text
  they let through holds a dialect keyword, or is such a text and parses to exactly one statement, which reads or is about the session.
\<close>

definition admitted :: "('r, 'g, 'k, 'd, 'b) pg_env \<Rightarrow> string \<Rightarrow> bool" where
  "admitted env sql \<longleftrightarrow> has_questdb_extension sql
     \<or> (\<exists>stmt. \<not> is_write_statement stmt \<and> sql = sp_show_statement (pe_sp env) stmt)"

definition permitted :: "('r, 'g, 'k, 'd, 'b) pg_env \<Rightarrow> string \<Rightarrow> bool" where
  "permitted env sql \<longleftrightarrow> has_questdb_extension sql
     \<or> (\<exists>stmt. \<not> is_write_statement stmt \<and> sql = sp_show_statement (pe_sp env) stmt)
       \<and> (\<exists>stmt. sp_parse (pe_sp env) sql = Inr [stmt] \<and> read_or_session stmt)"

definition text_ok :: "('r, 'g, 'k, 'd, 'b) pg_env \<Rightarrow> string \<Rightarrow> bool" where
  "text_ok env q \<longleftrightarrow> (\<exists>sql params. q = backend_sql sql params \<and> permitted env sql)
     \<or> (\<exists>table schema limit. q = scan_sql table schema limit)"

fun phase_text :: "'k SqlPhase \<Rightarrow> string option" where
  "phase_text (Querying t) = Some (tk_sql t)"
| "phase_text (Relaying i sql) = Some sql"
| "phase_text (RelayAsking i client sql) = Some sql"
| "phase_text (Scanning t is f rows) = Some (tk_sql t)"
| "phase_text _ = None"

definition stored_ok :: "'k PgSession \<Rightarrow> bool" where
  "stored_ok ses \<longleftrightarrow> (\<forall>sql. ps_dialect ses = Some (Some sql) \<longrightarrow> has_questdb_extension sql)"

definition texts_ok :: "('r, 'g, 'k, 'd, 'b) pg_env \<Rightarrow> ('r, 'c, 'k) SqlConn \<Rightarrow> bool" where
  "texts_ok env c \<longleftrightarrow> stored_ok (sq_session c) \<and> (\<forall>q. phase_text (sq_phase c) = Some q \<longrightarrow> text_ok env q)
     \<and> (\<forall>(i, k, q, r) \<in> set (sq_sent c). text_ok env q)"

definition readonly_inv :: "('r, 'g, 'k, 'd, 'b) pg_env \<Rightarrow> ('r, 'c, 'k) SqlServer \<Rightarrow> bool" where
  "readonly_inv env s \<longleftrightarrow> (\<forall>c \<in> set (sv_conns s). texts_ok env c)"

section \<open>Lemmas\<close>

lemma text_ok_net [simp]: "text_ok (with_net env dial ask) q = text_ok env q" "texts_ok (with_net env dial ask) c = texts_ok env c"
  by (simp_all add: texts_ok_def text_ok_def permitted_def)

lemma permitted_ok: "permitted env sql \<Longrightarrow> text_ok env (backend_sql sql params)" "permitted env sql \<Longrightarrow> text_ok env sql"
proof -
  have "sql = backend_sql sql None" by (simp add: backend_sql_def)
  then show "permitted env sql \<Longrightarrow> text_ok env sql" unfolding text_ok_def by blast
  show "permitted env sql \<Longrightarrow> text_ok env (backend_sql sql params)" unfolding text_ok_def by blast
qed

lemma passthrough_session: "is_passthrough_statement stmt \<Longrightarrow> read_or_session stmt"
  by (cases stmt) (simp_all add: read_or_session_def)

text \<open>Routing to a shard, or to the session's own connection, takes a text of the one or the other kind.\<close>

lemma resolved_reads:
  assumes "app_resolve_route ops sp st sql params = Inr (Single shard) \<or> app_resolve_route ops sp st sql params = Inr PassthroughRoute"
    and "\<not> has_questdb_extension sql"
  shows "\<exists>stmt. sp_parse sp sql = Inr [stmt] \<and> read_or_session stmt"
proof -
  let ?qr = "as_query_router st"
  let ?key = "mh_default_shard_key (qr_metadata ?qr)" and ?reg = "cs_table_registry (mh_snapshot (qr_metadata ?qr))"
  from assms(1) obtain kind where kind: "classify_sql sp sql ?key ?reg (qr_scan_allow_order_by ?qr) = Inr kind"
    by (auto simp: app_resolve_route_def resolve_route_def router_classify_def split: sum.splits)
  from plans_come_from_reads [OF assms(2), where sp = sp and column = ?key and reg = ?reg and allow = "qr_scan_allow_order_by ?qr"] show ?thesis
    unfolding kind by (cases kind) (auto simp: read_or_session_def dest: passthrough_session)
qed

lemma routed_permitted:
  "route_request env sql params st ses = Inr phase \<Longrightarrow> admitted env sql \<Longrightarrow> permitted env sql"
  using route_request_phase [of env sql params st ses phase] resolved_reads [of "pe_ring env" "pe_sp env" st sql params]
  by (auto simp: admitted_def permitted_def)

lemma intake_admitted:
  assumes "intake env req ses = (r, ses')" and "stored_ok ses"
  shows "stored_ok ses' \<and> (\<forall>sql params. r = Route sql params \<longrightarrow> admitted env sql)"
  using assms by (cases req) (auto simp: admitted_def stored_ok_def take_dialect_sql_def split: option.splits if_splits)

lemma finish_texts: "texts_ok env c \<Longrightarrow> texts_ok env (sql_finish out c)"
  by (simp add: texts_ok_def sql_finish_def)

lemma arrive_texts:
  assumes "texts_ok env c" and "sq_phase c = SqlReady"
  shows "texts_ok env (sql_arrive env st req c)"
proof -
  obtain r ses where i: "intake env req (sq_session c) = (r, ses)" by (cases "intake env req (sq_session c)")
  with intake_admitted [OF i] assms have ses: "stored_ok ses" and r: "\<And>sql params. r = Route sql params \<Longrightarrow> admitted env sql"
    by (auto simp: texts_ok_def)
  let ?c = "c\<lparr>sq_session := ses, sq_now := (st, r)\<rparr>"
  have c: "texts_ok env ?c" using assms ses by (simp add: texts_ok_def)
  show ?thesis
  proof (cases r)
    case (Route sql params)
    show ?thesis
    proof (cases "route_request env sql params st ses")
      case (Inl out)
      with i Route finish_texts [OF c] show ?thesis by (simp add: sql_arrive_def)
    next
      case (Inr ph)
      from route_request_phase [OF Inr] permitted_ok [OF routed_permitted [OF Inr r [OF Route]]] have "\<forall>q. phase_text ph = Some q \<longrightarrow> text_ok env q"
        by auto
      with i Route Inr c show ?thesis by (simp add: sql_arrive_def texts_ok_def)
    qed
  qed (use i finish_texts [OF c] in \<open>simp_all add: sql_arrive_def\<close>)
qed

lemma exchange_text: "(i, k, q, r) \<in> set (task_exchange env t) \<Longrightarrow> q = tk_sql t"
  by (auto simp: task_exchange_def split: QueryStage.splits sum.splits)

lemma scan_next_text: "phase_text (scan_next t is f rows rs) = Some q \<Longrightarrow> q = tk_sql t"
  by (auto simp: scan_next_def split: option.splits list.splits prod.splits)

lemma connect_backend_stored: "connect_backend env st i ses = (r, ses') \<Longrightarrow> stored_ok ses \<Longrightarrow> stored_ok ses'"
  using connect_backend_frame [of env st i ses r ses'] by (simp add: stored_ok_def)

lemma sent_texts:
  assumes "texts_ok env c" and "text_ok env (tk_sql t)" and "tk_sql t' = tk_sql t" and "phase_text ph = Some (tk_sql t')"
  shows "texts_ok env (c\<lparr>sq_phase := ph, sq_sent := sq_sent c @ task_exchange fe t\<rparr>)"
  using assms by (auto simp: texts_ok_def dest: exchange_text)

lemma conn_step_texts:
  assumes "sql_conn_step env st c = Some (c', st')" and "texts_ok env c"
  shows "texts_ok env c'"
proof (cases "sq_phase c")
  case (Querying t)
  show ?thesis
  proof (cases "task_answer t")
    case None
    from assms(2) Querying have "text_ok env (tk_sql t)" by (simp add: texts_ok_def)
    with None assms Querying show ?thesis
      by (auto simp: querying_step intro!: sent_texts dest: task_step_frame)
  next
    case (Some r)
    with assms Querying finish_texts [OF assms(2)] show ?thesis by (auto simp: sql_conn_step_def)
  qed
next
  case (Scanning t js f rows)
  show ?thesis
  proof (cases "task_answer t")
    case None
    from assms(2) Scanning have "text_ok env (tk_sql t)" by (simp add: texts_ok_def)
    with None assms Scanning show ?thesis
      by (auto simp: scanning_step intro!: sent_texts dest: task_step_frame)
  next
    case (Some r)
    from assms(2) Scanning have t: "text_ok env (tk_sql t)" by (simp add: texts_ok_def)
    have "texts_ok env (c\<lparr>sq_phase := ScanDone x\<rparr>)" "texts_ok env (c\<lparr>sq_phase := scan_next t js f rows rs\<rparr>)" for x rs
      using assms(2) t by (auto simp: texts_ok_def dest: scan_next_text)
    with Some assms Scanning show ?thesis by (cases r) (auto simp: sql_conn_step_def)
  qed
next
  case (Relaying j sql)
  obtain r ses where conn: "connect_backend (pe_fed env) st j ((sq_session c)\<lparr>ps_current_shard := Some j\<rparr>) = (r, ses)"
    by (cases "connect_backend (pe_fed env) st j ((sq_session c)\<lparr>ps_current_shard := Some j\<rparr>)")
  have "stored_ok ((sq_session c)\<lparr>ps_current_shard := Some j\<rparr>)" using assms(2) by (simp add: texts_ok_def stored_ok_def)
  then have ses: "stored_ok ses" by (rule connect_backend_stored [OF conn])
  show ?thesis
  proof (cases r)
    case (Inl e)
    with assms Relaying conn ses finish_texts [of env "c\<lparr>sq_session := ses\<rparr>"] show ?thesis
      by (auto simp: sql_conn_step_def texts_ok_def)
  next
    case (Inr k)
    with assms Relaying conn ses show ?thesis by (auto simp: sql_conn_step_def texts_ok_def)
  qed
next
  case (RelayAsking j client sql)
  from assms(2) RelayAsking have "texts_ok env (c\<lparr>sq_sent := sq_sent c @ [(j, client, sql, fe_ask (pe_fed env) client sql)]\<rparr>)"
    by (auto simp: texts_ok_def)
  from finish_texts [OF this] assms(1) RelayAsking show ?thesis by (auto simp: sql_conn_step_def Let_def)
qed (use assms in \<open>simp_all add: sql_conn_step_def\<close>)

lemma readonly_update:
  "readonly_inv env s \<Longrightarrow> texts_ok env c' \<Longrightarrow> readonly_inv env (s\<lparr>sv_conns := (sv_conns s)[n := c'], sv_app := st', sv_opened := op\<rparr>)"
  "readonly_inv env s \<Longrightarrow> texts_ok env c' \<Longrightarrow> readonly_inv env (s\<lparr>sv_conns := (sv_conns s)[n := c']\<rparr>)"
  by (auto simp: readonly_inv_def dest!: set_update_subset_insert [THEN subsetD])

lemma readonly_step: "server_step env s s' \<Longrightarrow> readonly_inv env s \<Longrightarrow> readonly_inv env s'"
proof (induction rule: server_step.induct)
  case (serving s s')
  from serving(1) show ?case
  proof cases
    case (served n dial ask c' st' new)
    with serving(2) have "texts_ok (with_net env dial ask) (sv_conns s ! n)" by (simp add: readonly_inv_def)
    from conn_step_texts [OF served(3) this] serving(2) show ?thesis by (simp add: served(1) readonly_update)
  qed
next
  case (joined s)
  then show ?case by (simp add: readonly_inv_def texts_ok_def sql_conn_start_def conn_state_new_def stored_ok_def)
next
  case (arrived i s req)
  then show ?case by (intro readonly_update arrive_texts) (auto simp: readonly_inv_def)
next
  case (prepared i s c sql)
  then have "texts_ok env c" by (simp add: readonly_inv_def)
  then have "texts_ok env (c\<lparr>sq_session := snd (dialect_parse_sql (pe_sp env) sql (sq_session c))\<rparr>)"
    by (auto simp: texts_ok_def stored_ok_def dialect_parse_sql_def Let_def split: sum.splits list.splits if_splits)
  with prepared show ?case by (simp add: readonly_update)
next
  case (engine_scans i s table schema limit)
  moreover have "text_ok env (scan_sql table schema limit)" unfolding text_ok_def by blast
  ultimately show ?case
    by (auto simp: readonly_inv_def texts_ok_def scan_start_def sql_conn_start_def conn_state_new_def stored_ok_def split: list.splits)
next
  case (engine_ends i s)
  then show ?case by (intro readonly_update) (auto simp: readonly_inv_def texts_ok_def)
next
  case (client_left i s)
  then show ?case by (intro readonly_update) (auto simp: readonly_inv_def texts_ok_def conn_state_new_def stored_ok_def)
next
  case (reported s md stream')
  then show ?case by (simp add: readonly_inv_def)
qed

interpretation readonly_sys: step_system "server_step env" "readonly_inv env" for env
  by unfold_locales (rule readonly_step)

section \<open>Properties\<close>

text \<open>
  C11. What reaches a shard. In every interleaving, every text that a session or a scan sends to a shard is the
  selection of a table scan, or a request's text with its parameters written in, and that text either holds one of the
  dialect keywords, whatever statement it is, or is the text of a statement that is not a write and parses to
  exactly one statement: a SELECT without WITH, or one of the nine statements about the session and its transactions. A
  request whose statement is a write is refused at once, with the read-only error, in the simple and in the extended protocol.
\<close>

theorem only_reads_and_dialect_text_are_sent:
  assumes "rtranclp (server_step env) (sql_server_start st) s" and "c \<in> set (sv_conns s)" and "(i, k, q, r) \<in> set (sq_sent c)"
  shows "((\<exists>table schema limit. q = scan_sql table schema limit)
      \<or> (\<exists>sql params. q = backend_sql sql params \<and> (has_questdb_extension sql
           \<or> (\<exists>stmt. \<not> is_write_statement stmt \<and> sql = sp_show_statement (pe_sp env) stmt)
             \<and> (\<exists>stmt. sp_parse (pe_sp env) sql = Inr [stmt] \<and> read_or_session stmt))))
    \<and> (\<forall>stmt params ses. is_write_statement stmt \<longrightarrow>
         handle_simple_query env stmt (sv_app s) ses = (Answer (Inl read_only_err), sv_app s, ses)
       \<and> handle_extended_query env stmt params (sv_app s) ses = (Answer (Inl read_only_err), sv_app s, ses))"
proof -
  have "readonly_inv env (sql_server_start st)" by (simp add: readonly_inv_def sql_server_start_def)
  from readonly_sys.reachable_inv [OF assms(1) this] assms(2,3) have "text_ok env q"
    by (auto simp: readonly_inv_def texts_ok_def)
  then show ?thesis unfolding text_ok_def permitted_def by (auto simp: handle_simple_query_def handle_extended_query_def)
qed

theorem only_reads_and_dialect_text_are_sent_witness:
  "\<exists>s c r. rtranclp (server_step demo_pg_env) (sql_server_start demo_sql_app) s \<and> c \<in> set (sv_conns s)
     \<and> (0, 7, scan_sql ''t'' [] None, r) \<in> set (sq_sent c)
     \<and> handle_simple_query demo_pg_env Drop (sv_app s) (conn_state_new :: nat PgSession) =
         (Answer (Inl read_only_err), sv_app s, conn_state_new)"
proof -
  obtain s c r where s: "rtranclp (server_step demo_pg_env) (sql_server_start demo_sql_app) s" "c \<in> set (sv_conns s)"
    "(0, 7, scan_sql ''t'' [] None, r) \<in> set (sq_sent c)" by (rule demo_sent)
  from only_reads_and_dialect_text_are_sent [OF s] s show ?thesis by (metis is_write_statement.simps(6))
qed

text \<open>
  C12. The gap. Take any text whatsoever and put a comment after it that reads like a keyed query with a dialect
  keyword, for a table that is configured: the whole text is sent, as it is, to the shard of the key in the
  comment, and the client gets its first response. The same statement without the comment is refused.
\<close>

theorem commented_write_reaches_a_shard:
  fixes w v :: string
  defines "sql \<equiv> w @ '' -- FROM trades WHERE symbol = '' @ quote_literal v @ '' SAMPLE BY''"
  assumes "find_sub (to_ascii_uppercase sql) '' FROM '' = Some (length w + 3)"
    and "find_sub (to_ascii_uppercase sql) ''WHERE SYMBOL'' = Some (length w + 16)"
    and "mh_default_shard_key (qr_metadata (as_query_router st)) = ''symbol''"
    and "ensure_datafusion_tables env st sql = None"
    and "app_route_key (pe_ring env) st v Pg = Inr shard"
    and "query_shard (pe_fed env) (as_pg_pool st) (sc_id shard) sql = (Some (Inr (x # xs)), pool')"
  shows "simple_do_query env sql st ses = (Answer (Inr (to_server_response x)), st\<lparr>as_pg_pool := pool'\<rparr>, ses)
    \<and> (\<forall>stmt. is_write_statement stmt \<longrightarrow> handle_simple_query env stmt st ses = (Answer (Inl read_only_err), st, ses))"
proof -
  have up: "to_ascii_uppercase ''symbol'' = ''SYMBOL''" by code_simp
  have "to_ascii_uppercase '' SAMPLE BY'' = '' '' @ ''SAMPLE BY''" by code_simp
  then have "to_ascii_uppercase sql =
      (to_ascii_uppercase (w @ '' -- FROM trades WHERE symbol = '' @ quote_literal v) @ '' '') @ ''SAMPLE BY'' @ []"
    unfolding sql_def to_ascii_uppercase_append by simp
  then have ext: "has_questdb_extension sql" unfolding has_questdb_extension_def Let_def contains_sub_iff by blast
  have plan: "classify_questdb_passthrough sql ''symbol'' = Inr (SingleShard ''trades'' (Some v) None)"
  proof (rule keyed_query_plain [where pre = "w @ '' --''" and wpre = "w @ '' -- FROM trades ''" and col = "''symbol''"
      and rest = "'' SAMPLE BY''" and mid = "''WHERE symbol = '' @ quote_literal v @ '' SAMPLE BY''"])
    show "plain_table ''trades''" by code_simp
  qed (use assms(2,3) in \<open>simp_all add: sql_def up\<close>)
  have "app_resolve_route (pe_ring env) (pe_sp env) st sql None = Inr (Single shard)"
    using ext plan assms(4,6)
    by (simp add: app_resolve_route_def resolve_route_classified router_classify_def classify_sql_def app_route_key_def
        routing_key_def)
  from handle_single [OF this, of "Some (Inr (x # xs))" pool' ses] assms(5,7) ext
  have "simple_do_query env sql st ses = (Answer (Inr (to_server_response x)), st\<lparr>as_pg_pool := pool'\<rparr>, ses)"
    by (simp add: simple_do_query_def handle_raw_sql_def backend_sql_def first_response_def client_to_server_def)
  then show ?thesis by (simp add: handle_simple_query_def)
qed

definition demo_trades_handle :: "VNode list MetadataHandle" where
  "demo_trades_handle = demo_handle\<lparr>mh_snapshot := (mh_snapshot demo_handle)\<lparr>cs_table_registry := registry_from_config
     [\<lparr> tc_name = ''trades'', tc_sharded = True, tc_shard_key = None, tc_columns = [] \<rparr>] ''symbol''\<rparr>\<rparr>"

definition demo_trades_app :: "(VNode list, nat \<times> StreamTick list, nat) AppState" where
  "demo_trades_app = demo_fed_app\<lparr>as_metadata := demo_trades_handle,
     as_query_router := \<lparr> qr_metadata = demo_trades_handle, qr_scan_allow_order_by = False \<rparr>\<rparr>"

lemma registry_routes_alike:
  fixes snap :: "'r ClusterSnapshot"
  shows "shard_for_key ops (snap\<lparr>cs_table_registry := reg\<rparr>) key p = shard_for_key ops snap key p"
proof -
  have ex: "is_excluded (snap\<lparr>cs_table_registry := reg\<rparr>) p = is_excluded snap p" by (rule ext) (simp add: is_excluded_def)
  have min: "ensure_min_healthy (snap\<lparr>cs_table_registry := reg\<rparr>) p = ensure_min_healthy snap p"
    by (simp add: ensure_min_healthy_def healthy_count_def reported_ok_def Let_def)
  have ring: "cs_ring (snap\<lparr>cs_table_registry := reg\<rparr>) = cs_ring snap" by simp
  show ?thesis unfolding shard_for_key_def ex min ring ..
qed

abbreviation demo_drop :: string where
  "demo_drop \<equiv> ''DROP TABLE trades -- FROM trades WHERE symbol = '' @ quote_literal ''BTC'' @ '' SAMPLE BY''"

theorem commented_write_reaches_a_shard_witness:
  "\<exists>r st'. simple_do_query demo_pg_env demo_drop demo_trades_app (conn_state_new :: nat PgSession) = (Answer (Inr r), st', conn_state_new)"
proof -
  have sql: "''DROP TABLE trades'' @ '' -- FROM trades WHERE symbol = '' @ quote_literal ''BTC'' @ '' SAMPLE BY'' = demo_drop" by simp
  have from_pos: "find_sub (to_ascii_uppercase demo_drop) '' FROM '' = Some (length ''DROP TABLE trades'' + 3)" by code_simp
  have where_pos: "find_sub (to_ascii_uppercase demo_drop) ''WHERE SYMBOL'' = Some (length ''DROP TABLE trades'' + 16)" by code_simp
  have key: "mh_default_shard_key (qr_metadata (as_query_router demo_trades_app)) = ''symbol''"
    by (simp add: demo_trades_app_def demo_trades_handle_def demo_handle_def spawn_handle_def demo_config_def)
  have ext: "has_questdb_extension demo_drop" "extract_from_table demo_drop = Some ''trades''" by code_simp+
  have low: "to_ascii_lowercase ''trades'' = ''trades''" "\<not> is_system_relation ''trades''" "bare_table_name ''trades'' = ''trades''"
    by code_simp+
  have tables: "ensure_datafusion_tables demo_pg_env demo_trades_app demo_drop = None"
    using ext low by (simp add: ensure_datafusion_tables_def ensure_tables_in_sql_def demo_pg_env_def demo_df_def app_table_registry_def
        demo_trades_app_def demo_trades_handle_def registry_from_config_def registry_insert_def registry_get_def)
  obtain shard where shard: "app_route_key ref_ring_ops demo_fed_app ''BTC'' Pg = Inr shard" "sc_id shard \<in> {0, 1}"
    by (rule demo_route_key)
  have "app_route_key ref_ring_ops demo_trades_app ''BTC'' Pg = app_route_key ref_ring_ops demo_fed_app ''BTC'' Pg"
    by (simp add: app_route_key_def router_route_key_def demo_trades_app_def demo_trades_handle_def demo_fed_app_def demo_app_def
        registry_routes_alike)
  with shard have route: "app_route_key (pe_ring demo_pg_env) demo_trades_app ''BTC'' Pg = Inr shard" by (simp add: demo_pg_env_def)
  have pool: "as_pg_pool demo_trades_app = as_pg_pool demo_fed_app" "pe_fed demo_pg_env = demo_fed_env"
    by (simp_all add: demo_trades_app_def demo_pg_env_def)
  obtain k rs pool' where ask: "fe_ask demo_fed_env k demo_drop = Inr rs"
    and q: "query_shard demo_fed_env (as_pg_pool demo_fed_app) (sc_id shard) demo_drop = (Some (Inr rs), pool')"
    using query_shard_lives [OF demo_ready [OF shard(2)], of demo_drop] by (auto simp: demo_fed_env_def)
  from ask obtain x xs where "rs = x # xs" by (auto simp: demo_fed_env_def)
  with q pool have q': "query_shard (pe_fed demo_pg_env) (as_pg_pool demo_trades_app) (sc_id shard) demo_drop = (Some (Inr (x # xs)), pool')"
    by simp
  from commented_write_reaches_a_shard [of "''DROP TABLE trades''" "''BTC''", unfolded sql, OF from_pos where_pos key tables route q']
  show ?thesis by blast
qed

end
