(* ===== verification/Pg_Handlers.thy ===== *)
theory Pg_Handlers
  imports Pg_Frontend
begin

text \<open>
  The handlers that the third-party PostgreSQL server calls, \<open>protocol/pg_handlers.rs\<close>. Each wraps the handler of
  the query engine's session service, which is third-party: a record of functions on a state \<open>'w\<close> that the service
  may change together with the state of the application and the session of the client. A result \<open>None\<close> says that
  the handler still waits for a free connection.
\<close>

type_synonym 'p Prepared = "string \<times> (Statement \<times> 'p) option"

record ('r, 'c, 'k, 'w) PgWorld =
  pw_app :: "('r, 'c, 'k) AppState"
  pw_session :: "'k PgSession"
  pw_service :: 'w

record ('y, 'p) query_parser =
  qp_parse_sql :: "string \<Rightarrow> 'y option list \<Rightarrow> PgWireError + 'p Prepared"
  qp_parameter_types :: "'p Prepared \<Rightarrow> PgWireError + 'y list"
  qp_result_schema :: "'p Prepared \<Rightarrow> string option \<Rightarrow> PgWireError + FieldInfo list"

record ('r, 'c, 'k, 'w, 'y, 'p, 'o) df_service =
  ds_do_query :: "string \<Rightarrow> ('r, 'c, 'k, 'w) PgWorld \<Rightarrow> (PgWireError + Response list) option \<times> ('r, 'c, 'k, 'w) PgWorld"
  ds_execute :: "'o \<Rightarrow> nat \<Rightarrow> ('r, 'c, 'k, 'w) PgWorld \<Rightarrow> (PgWireError + Response) option \<times> ('r, 'c, 'k, 'w) PgWorld"
  ds_query_parser :: "('y, 'p) query_parser"

text \<open>\<open>'m\<close> is the connection manager that the start-up and the cancel handler share, \<open>'p\<close> a logical plan, \<open>'o\<close> a portal.\<close>

record ('r, 'g, 'c, 'k, 'd, 'b, 'w, 'y, 'p, 'o, 'm) HandlerFactory =
  hf_session :: "('r, 'c, 'k, 'w, 'y, 'p, 'o) df_service"
  hf_dialect_parser :: "('y, 'p) query_parser"
  hf_router_hook :: "('r, 'g, 'k, 'd, 'b) pg_env"
  hf_cancel_handler :: 'm
  hf_startup_handler :: 'm

definition handler_factory_new ::
    "('r, 'c, 'k, 'w, 'y, 'p, 'o) df_service \<Rightarrow> 'm \<Rightarrow> ('r, 'g, 'k, 'd, 'b) pg_env
       \<Rightarrow> ('r, 'g, 'c, 'k, 'd, 'b, 'w, 'y, 'p, 'o, 'm) HandlerFactory" where
  "handler_factory_new session connection_manager router_hook =
     \<lparr> hf_session = session, hf_dialect_parser = ds_query_parser session, hf_router_hook = router_hook,
       hf_cancel_handler = connection_manager, hf_startup_handler = connection_manager \<rparr>"

definition startup_connection_manager :: "('r, 'g, 'c, 'k, 'd, 'b, 'w, 'y, 'p, 'o, 'm) HandlerFactory \<Rightarrow> 'm option" where
  "startup_connection_manager f = Some (hf_startup_handler f)"

text \<open>The error handler of the server logs an error and leaves it as it is.\<close>

definition on_error :: "PgWireError \<Rightarrow> PgWireError" where
  "on_error e = e"

section \<open>Simple queries\<close>

definition simple_handler_do_query ::
    "('r, 'g, 'c, 'k, 'd, 'b, 'w, 'y, 'p, 'o, 'm) HandlerFactory \<Rightarrow> string \<Rightarrow> ('r, 'c, 'k, 'w) PgWorld
       \<Rightarrow> (PgWireError + Response list) option \<times> ('r, 'c, 'k, 'w) PgWorld" where
  "simple_handler_do_query f query w =
     (if has_questdb_extension query then
        (case handle_raw_sql (hf_router_hook f) query None (pw_app w) (pw_session w) of
           (out, st, ses) \<Rightarrow>
             (let w' = w\<lparr>pw_app := st, pw_session := ses\<rparr>
              in case out of
                   Answer (Inr resp) \<Rightarrow> (Some (Inr [resp]), w')
                 | Answer (Inl e) \<Rightarrow> (Some (Inl e), w')
                 | Waiting \<Rightarrow> (None, w')
                 | Delegate \<Rightarrow> ds_do_query (hf_session f) query w'))
      else ds_do_query (hf_session f) query w)"

section \<open>Prepared statements\<close>

definition extended_handler_do_query ::
    "('r, 'g, 'c, 'k, 'd, 'b, 'w, 'y, 'p, 'o, 'm) HandlerFactory \<Rightarrow> 'o \<Rightarrow> nat \<Rightarrow> ('r, 'c, 'k, 'w) PgWorld
       \<Rightarrow> (PgWireError + Response) option \<times> ('r, 'c, 'k, 'w) PgWorld" where
  "extended_handler_do_query f portal max_rows w = ds_execute (hf_session f) portal max_rows w"

definition parser_parse_sql ::
    "('r, 'g, 'c, 'k, 'd, 'b, 'w, 'y, 'p, 'o, 'm) HandlerFactory \<Rightarrow> 'p \<Rightarrow> string \<Rightarrow> 'y option list \<Rightarrow> 'k PgSession
       \<Rightarrow> (PgWireError + 'p Prepared) \<times> 'k PgSession" where
  "parser_parse_sql f dummy_plan sql types ses =
     (case dialect_parse_sql (pe_sp (hf_router_hook f)) sql ses of
        (Inl e, ses') \<Rightarrow> (Inl e, ses')
      | (Inr (Some dummy_stmt), ses') \<Rightarrow> (Inr (sql, Some (dummy_stmt, dummy_plan)), ses')
      | (Inr None, ses') \<Rightarrow> (qp_parse_sql (hf_dialect_parser f) sql types, ses'))"

definition parser_get_parameter_types ::
    "('r, 'g, 'c, 'k, 'd, 'b, 'w, 'y, 'p, 'o, 'm) HandlerFactory \<Rightarrow> 'p Prepared \<Rightarrow> PgWireError + 'y list" where
  "parser_get_parameter_types f stmt = qp_parameter_types (hf_dialect_parser f) stmt"

definition parser_get_result_schema ::
    "('r, 'g, 'c, 'k, 'd, 'b, 'w, 'y, 'p, 'o, 'm) HandlerFactory \<Rightarrow> 'p Prepared \<Rightarrow> string option \<Rightarrow> PgWireError + FieldInfo list" where
  "parser_get_result_schema f stmt column_format = qp_result_schema (hf_dialect_parser f) stmt column_format"

section \<open>Properties\<close>

text \<open>
  The handlers are transparent for text without a dialect keyword: it goes to the engine's service, in either
  protocol, with application and session unchanged. Dialect text reaches the service only when the hook has left
  it alone; prepared, it never reaches the engine's parser, and the statement that is kept carries the text.
\<close>

theorem handlers_are_transparent:
  "(\<not> has_questdb_extension q \<longrightarrow>
      simple_handler_do_query (handler_factory_new df cm env) q w = ds_do_query df q w
    \<and> parser_parse_sql (handler_factory_new df cm env) plan q types ses = (qp_parse_sql (ds_query_parser df) q types, ses))
   \<and> (has_questdb_extension q \<longrightarrow>
      (fst (handle_raw_sql env q None (pw_app w) (pw_session w)) \<noteq> Delegate \<longrightarrow>
         pw_service (snd (simple_handler_do_query (handler_factory_new df cm env) q w)) = pw_service w)
    \<and> (\<forall>p. fst (parser_parse_sql (handler_factory_new df cm env) plan q types ses) = Inr p \<longrightarrow>
         fst p = q \<and> snd p \<noteq> None
       \<and> ps_dialect (snd (parser_parse_sql (handler_factory_new df cm env) plan q types ses)) = Some (Some q)))"
  by (auto simp: simple_handler_do_query_def parser_parse_sql_def handler_factory_new_def dialect_parse_sql_def Let_def
      split: prod.splits HookOutcome.splits sum.splits list.splits)

lemma cancel_and_startup_share_the_manager:
  "startup_connection_manager (handler_factory_new df cm env) = Some (hf_cancel_handler (handler_factory_new df cm env))"
  by (simp add: startup_connection_manager_def handler_factory_new_def)

end
