(* ===== verification/Spec2Isabelle.thy ===== *)
theory Spec2Isabelle
  imports Stream_Session Stream_Flow Listeners Pg_Readonly Pg_Handlers
begin

text \<open>
  Verification library of the QuestDB router (\<open>quest-router\<close>), a proxy in front of a set of QuestDB shards. It
  takes writes as ILP lines, SQL reads over the PostgreSQL protocol, subscriptions to the written rows over a
  WebSocket, and objects of an object store that a background actor turns into ILP lines. Every component
  routes by the same consistent-hash ring and the same published view of which shards are healthy.

  \<^bold>\<open>How the parts interact.\<close> The configuration is loaded and checked once. The health-check loop dials each shard
  and sends reports to the metadata actor, which publishes a snapshot (ring, health, table registry). The write
  path and the query router read the snapshot for each line and each query. A routed read goes through the
  connection pool to one shard; other reads are left to a query engine, whose table provider scans the shards.
  The write path publishes each line's row to the broadcast hub, whose topics the WebSocket connections read.
  The ingest actor decodes objects, forwards their lines through the write path and records them in a checkpoint.

  \<^bold>\<open>Theories and sources\<close> (paths under \<open>src/src\<close>).
  \<^item> \<open>Router_Prelude\<close>: bytes, UTF-8, text functions of the standard library that the code uses (search,
    splitting, trimming, replacing, number parsing and printing), with the lemmas about them.
  \<^item> \<open>Router_Config\<close> (\<open>config/mod.rs\<close>), \<open>Table_Registry\<close> (\<open>routing/schema.rs\<close>), \<open>Shard_Ring\<close> (\<open>routing/ring.rs\<close>),
    \<open>Cluster_Metadata\<close> (\<open>metadata\<close>), \<open>Routing_Error\<close> (\<open>routing/error.rs\<close>): configuration, ring and snapshot. A
    lookup returns only shards in service and finds one if there is one; a key keeps its home shard while that
    is in service; adding a shard moves keys only to it; the actor publishes the last report about each shard.
  \<^item> \<open>Ilp_Keys\<close> (\<open>routing/keys.rs\<close>), \<open>Route_Plan\<close> (\<open>routing/plan.rs\<close>), \<open>Sql_Dialect\<close> (\<open>routing/dialect.rs\<close>),
    \<open>Sql_Classify\<close> (\<open>routing/sql.rs\<close>), \<open>Query_Router\<close> (\<open>routing/router.rs\<close>), \<open>App_State\<close> (\<open>app/state.rs\<close>): which
    key a line or a query is routed by. Rows accepted by a routed query carry the key it is routed by.
  \<^item> \<open>Ilp_Forward\<close> (\<open>protocol/ilp.rs\<close>, \<open>protocol/ilp_forward.rs\<close>): the write path. On a network without failures
    each shard receives exactly its complete lines, in order, however the bytes were cut into reads.
  \<^item> \<open>Ilp_Server\<close> (\<open>protocol/ilp.rs\<close>): the listener with all its connections as a step relation. In every interleaving with
    health reports and network failures each shard has a prefix of each connection's lines; run alone, the steps
    of a connection are \<open>handle_connection\<close>.
  \<^item> \<open>Pg_Pool\<close> (\<open>pool/pg.rs\<close>): permits and idle connections, as a step relation over the interleavings of clients.
  \<^item> \<open>Pg_Types\<close> (\<open>federated/pg_types.rs\<close>, \<open>federated/arrow.rs\<close>), \<open>Federated_Query\<close> (\<open>federated/mod.rs\<close>, \<open>scan.rs\<close>,
    \<open>arrow.rs\<close>, \<open>error.rs\<close>), \<open>Federated_Catalog\<close> (\<open>catalog.rs\<close>, \<open>provider.rs\<close>, \<open>join.rs\<close>, \<open>aggregate.rs\<close>): wire rows
    and batches, fan-out and merging, the table provider. Typed rows become exactly the columns of their values, where the
    types of values, wire texts and columns are specified apart from the code's tables; a scan is complete or fails; merged aggregates are
    those of the union of the rows; every query gives its permit back.
  \<^item> \<open>Pg_Frontend\<close> (\<open>protocol/pg_backend.rs\<close>, \<open>pg_hook.rs\<close>, \<open>pg_handlers.rs\<close>, \<open>pg_session.rs\<close>): the SQL endpoint. A
    routed read is answered by its shard alone; parameters are written in correctly, or not, as proved.
    \<open>Pg_Handlers\<close> (\<open>pg_handlers.rs\<close>): the handler factory and the handlers that pass on to the third-party service.
  \<^item> \<open>Pg_Tasks\<close> (\<open>federated/arrow.rs\<close>): one query on a shard, step by step; run alone it is \<open>query_shard\<close>. \<open>Pg_Server\<close>
    (\<open>pg_hook.rs\<close>, \<open>pg_backend.rs\<close>, \<open>provider.rs\<close>): all sessions and scans over the shared pool, as a step relation. No
    two of them ever hold the same connection, the pool sees only steps of its own, a request that waits can go
    on, and a session run alone computes what the handlers compute. \<open>Pg_Readonly\<close>: which texts reach a shard - outside
    dialect text, one SELECT or session statement at a time.
  \<^item> \<open>Stream_Row\<close> (\<open>stream/row.rs\<close>, \<open>stream/topic.rs\<close>), \<open>Stream_Hub\<close> (\<open>stream/hub.rs\<close>), \<open>Stream_Ws\<close> and \<open>Stream_Session\<close>
    (\<open>stream/ws.rs\<close>, \<open>stream/control.rs\<close>): rows, topics and replay; the operations of a connection, and its tasks as
    a step relation, in which the writer takes a frame, sends it and waits to be notified in steps of their own. Frames arrive
    in order and at most once in every interleaving; after shutdown the writer ends, within a bound on its own steps that
    grows only with the frames still queued for it. \<open>Stream_Flow\<close> follows the lines of the write path through hub and one
    pass of the fan-out to the outbound queue of a subscriber.
  \<^item> \<open>Ingest_Checkpoint\<close>, \<open>Ingest_Events\<close>, \<open>Ingest_Nautilus\<close>, \<open>Ingest_Actor\<close> (\<open>ingest\<close>): checkpoint file, notifications,
    decoder and actor. A processed object was delivered and recorded; a crash leaves a whole checkpoint.
    \<open>Ingest_Pipeline\<close> (\<open>ingest/reconcile.rs\<close>, \<open>ingest/http.rs\<close>, \<open>ingest/actor.rs\<close>) lets webhook, reconcile loop and actor
    interleave: whatever was added to the checkpoint was delivered completely, and alternating scans and the actor catch up
    as long as fewer objects than the mailbox has places can never be ingested; with more, the rest can starve.
  \<^item> \<open>Observability\<close> (\<open>metrics/mod.rs\<close>, \<open>logging/mod.rs\<close>, \<open>protocol/request_id.rs\<close>): what is handed to the metrics and
    logging libraries, and the request counter. Everything recorded is described; ids are unique for 64 bits.
  \<^item> \<open>Server_Run\<close> (\<open>server/mod.rs\<close>): start-up and the health-check loop; routing follows the last probe. \<open>Listeners\<close>
    (\<open>protocol/pg.rs\<close>, \<open>protocol/pg_gateway.rs\<close>, the \<open>serve\<close> functions, \<open>main.rs\<close>): what ends a listener ends the process.
  \<^item> \<open>Step_System\<close>: the invariant rule for interleaved tasks that \<open>Ilp_Server\<close>, \<open>Ingest_Pipeline\<close>, \<open>Pg_Server\<close>
    and \<open>Pg_Readonly\<close> instantiate.
  \<^item> This theory: properties across components, writes against reads. For a table without a shard key of its own and a parsed
    query that compares the default key with values, a row is read where it was written; and of a connection of the concurrent
    listener, the home shard of a key has every line that carries it and no other shard has one. A table with its own key is the exception, proved as such.

  \<^bold>\<open>How the code is modelled.\<close> Structures are records, enumerations datatypes, fallible functions return a sum
  with the error on the left, and a call that changes state returns the state. Integers have their width where
  it matters: ids and weights are 32-bit words, row limits 64-bit words, and wrap-around is that of the word.
  Text is a list of bytes. Awaiting is a step or an extra value (waiting for a permit, for instance), and where
  interleavings matter (\<open>Pg_Pool\<close>, \<open>Pg_Server\<close>, \<open>Ilp_Server\<close>, \<open>Stream_Session\<close>, \<open>Ingest_Pipeline\<close>) there is a step relation. Recursive
  functions all terminate and are total. The only fuel is that of \<open>conn_steps\<close>, the steps of one ILP connection with
  nothing in between; \<open>conn_fuel\<close> (one step for each byte, two for each read, one more) is proved to be enough.
  The steps of a query on a shard need no fuel: \<open>task_rank\<close> falls, and 13 of them are enough. Loops of the program that run until the process ends (accept loops, the actor
  loops, the probe loop) are functions of the finite list of inputs they have consumed, or of the number of
  rounds, and the theorems hold for every such list or number.

  \<^bold>\<open>Parameters.\<close> Code that is not in the repository is an argument: the hash ring (\<open>hash_ring_ops\<close>), byte search,
  the SQL parser and printer, broadcast channels, dialling and socket writes, the object store, the file system,
  JSON and Arrow readers, floating-point arithmetic and printing, and the query engine. What a theorem needs of
  one of them is a named hypothesis (\<open>hash_ring_laws\<close>, \<open>net_reliable\<close>, \<open>exact_f64\<close>, \<open>try_new_law\<close>, \<open>order_ok\<close>, \<open>json_laws\<close>, \<open>broadcast_log\<close>)
  and each such theorem has a witness at a concrete instance.

  \<^bold>\<open>Interfaces.\<close> Locales state what a client relies on: \<open>shard_selector\<close> (ring lookup), \<open>health_tracker\<close> (snapshot and
  gauges), \<open>query_router\<close>, \<open>bounded_window\<close> (replay window and outbound queue), \<open>bounded_mailbox\<close> (ingest queue) and \<open>step_system\<close> (interleaved tasks).
  Each is interpreted on the definitions that model the code, and the properties use the facts of these
  interpretations.

  \<^bold>\<open>Findings.\<close> Several theorems show where the code does not do what it means to: keyed reads ignore a table's own
  shard key; parameter values are substituted again; prepared dialect text is run by another statement; a session
  stays bound to a shard it cannot reach; a stream connection leaves its fan-out task running; the table provider asks unhealthy shards; a retry sends lines twice;
  a failed connect discards buffered lines; one failed \<open>accept\<close> ends the process, and so does switching federated
  queries off; a dialect keyword, even in a comment, carries a write past the check that refuses writes; objects that can
  never be ingested keep the rest of a listing from being scanned.

  \<^bold>\<open>Not modelled.\<close> The third-party servers, exporters and subscribers that the listeners, the metrics and the logging
  start; the text of log messages; the build without the feature \<open>federated\<close>; the wire formats of WebSocket, HTTP and PostgreSQL messages;
  the query plans of the engine; the actual timing of timeouts and ticks.
\<close>

section \<open>Writes and reads\<close>

text \<open>
  The line that carries a row, as the client writes it: measurement, tags, fields. The row's value in the
  column \<open>c\<close> is that of the first tag with that name.
\<close>

definition carries :: "bytes \<Rightarrow> (bytes \<times> bytes) list \<Rightarrow> bytes \<Rightarrow> string \<Rightarrow> string \<Rightarrow> bool" where
  "carries m tags rest c v \<longleftrightarrow>
     plain_name m \<and> m \<noteq> [] \<and> valid_utf8 m \<and> tags \<noteq> [] \<and> list_all plain_tag tags \<and> NL \<notin> set rest
   \<and> map_option snd (find (\<lambda>nv. tag_name_eq (fst nv) c) tags) = Some v \<and> valid_utf8 v"

text \<open>The same for a line of one table as a shard receives it, and a table without a shard key of its own.\<close>

definition carries_line :: "bytes \<Rightarrow> bytes \<Rightarrow> string \<Rightarrow> string \<Rightarrow> bool" where
  "carries_line table line c v \<longleftrightarrow> (\<exists>tags rest. line = render_line table tags rest @ [NL] \<and> carries table tags rest c v)"

definition written_by_default_key :: "'r MetadataHandle \<Rightarrow> bytes \<Rightarrow> bool" where
  "written_by_default_key md table \<longleftrightarrow>
     shard_key_for (cs_table_registry (mh_snapshot md)) table (mh_default_shard_key md) = mh_default_shard_key md"

text \<open>
  A query that is not dialect text, is parsed, is planned for one shard, and in whose condition the key column is nowhere
  equated with another column by its bare name.
\<close>

definition keyed_read :: "sqlparser \<Rightarrow> ('r, 'c, 'k) AppState \<Rightarrow> string \<Rightarrow> Query \<Rightarrow> Select \<Rightarrow> Expr \<Rightarrow> bool" where
  "keyed_read sp st sql query sel e \<longleftrightarrow>
     \<not> has_questdb_extension sql \<and> sp_parse sp sql = Inr [QueryStatement query] \<and> q_body query = SelectBody sel
   \<and> sel_selection sel = Some e \<and> key_compared_with_values e (mh_default_shard_key (as_metadata st))
   \<and> (case router_classify sp (as_query_router st) sql of
        Inr (Routable (SingleShard _ _ _)) \<Rightarrow> True | _ \<Rightarrow> False)"

definition route_open :: "'r ClusterSnapshot \<Rightarrow> Protocol \<Rightarrow> ShardConfig \<Rightarrow> bool" where
  "route_open snap p s \<longleftrightarrow> \<not> is_excluded snap p (sc_id s) \<and> cs_min_healthy_shards snap \<le> healthy_count snap p"

lemma shard_for_key_home:
  "shard_by_key ops (cs_ring snap) key = Some s \<Longrightarrow> route_open snap p s \<Longrightarrow> shard_for_key ops snap key p = Inr s"
  by (simp add: shard_for_key_def ensure_min_healthy_def route_open_def filtered_primary)

lemma write_key:
  assumes "env_memchr env = memchr_ref" and "carries m tags rest (shard_key_for (cs_table_registry (mh_snapshot metadata)) m
      (mh_default_shard_key metadata)) v"
  shows "route_line env metadata (render_line m tags rest) = shard_for_key (env_ring env) (mh_snapshot metadata) v Ilp"
proof -
  let ?c = "shard_key_for (cs_table_registry (mh_snapshot metadata)) m (mh_default_shard_key metadata)"
  from assms(2) obtain n where line: "plain_name m" "m \<noteq> []" "valid_utf8 m" "tags \<noteq> []" "\<forall>nv \<in> set tags. plain_tag nv"
      "NL \<notin> set rest" "valid_utf8 v" "find (\<lambda>nv. tag_name_eq (fst nv) ?c) tags = Some (n, v)"
    by (auto simp: carries_def list_all_iff)
  have "shard_key_from_ilp_cow memchr_ref (render_line m tags rest) ?c = tag_value v"
    using shard_key_rendered_line [OF line(1,4,5,6), of ?c] line(8) by simp
  with measurement_rendered_line [OF line(1,2,3,5,6)] line(7) show ?thesis
    by (simp add: route_line_def ilp_line_key_def assms(1) into_owned_tag_value from_utf8_lossy_valid)
qed

lemma write_key_line:
  assumes "env_memchr env = memchr_ref" and "carries_line m line (mh_default_shard_key metadata) v" and "written_by_default_key metadata m"
  shows "route_line env metadata line = shard_for_key (env_ring env) (mh_snapshot metadata) v Ilp"
    and "takeWhile (\<lambda>b. b \<noteq> NL) line \<noteq> []"
proof -
  from assms(2) obtain tags rest where line: "line = render_line m tags rest @ [NL]"
      and c: "carries m tags rest (mh_default_shard_key metadata) v" by (auto simp: carries_line_def)
  then have nl: "takeWhile (\<lambda>b. b \<noteq> NL) line = takeWhile (\<lambda>b. b \<noteq> NL) (render_line m tags rest)"
    by (simp add: first_line_append)
  have "ilp_line_key memchr_ref metadata line = ilp_line_key memchr_ref metadata (render_line m tags rest)"
    using shard_key_first_line [of line] shard_key_first_line [of "render_line m tags rest"]
      measurement_first_line [of line] measurement_first_line [of "render_line m tags rest"]
    by (simp add: ilp_line_key_def nl)
  then show "route_line env metadata line = shard_for_key (env_ring env) (mh_snapshot metadata) v Ilp"
    using write_key [OF assms(1), of m tags rest metadata v] c assms(3)
    by (simp add: route_line_def assms(1) written_by_default_key_def)
  from c show "takeWhile (\<lambda>b. b \<noteq> NL) line \<noteq> []"
    unfolding nl by (cases m) (auto simp: carries_def plain_name_def render_line_def)
qed

lemma read_key:
  assumes "qr_metadata (as_query_router st) = as_metadata st" and "keyed_read sp st sql query sel e"
    and "holds oe oc row ps e"
  obtains v where "row (to_ascii_lowercase (mh_default_shard_key (as_metadata st))) = Some v"
    and "app_resolve_route ops sp st sql (Some ps) = map_sum id Single (shard_for_key ops (mh_snapshot (as_metadata st)) v Pg)"
proof -
  let ?col = "mh_default_shard_key (as_metadata st)"
  from assms(2) obtain t k i where q: "\<not> has_questdb_extension sql" "sp_parse sp sql = Inr [QueryStatement query]"
      "q_body query = SelectBody sel" "sel_selection sel = Some e" "key_compared_with_values e ?col"
      and plan: "router_classify sp (as_query_router st) sql = Inr (Routable (SingleShard t k i))"
    by (auto simp: keyed_read_def split: sum.splits SqlClassify.splits RoutePlan.splits)
  have c: "classify_sql sp sql ?col (cs_table_registry (mh_snapshot (as_metadata st)))
      (qr_scan_allow_order_by (as_query_router st)) = Inr (Routable (SingleShard t k i))"
    using plan by (simp add: router_classify_def assms(1))
  from plan_select_cases [OF classify_select [OF q(1,2,3) c]] q(4)
  have m: "shard_key_from_where e ?col = \<lparr>literal = k, param_index = i\<rparr>" "k \<noteq> None \<or> i \<noteq> None" by auto
  with shard_key_from_where_ev [OF assms(3) q(5)] obtain v where
    v: "row (to_ascii_lowercase ?col) = Some v" "match_value ps \<lparr>literal = k, param_index = i\<rparr> = Some v"
    by (auto simp: is_match_def)
  then have "routing_key t k i (Some ps) = v"
    by (auto simp: routing_key_def match_value_def bound_param_def split: option.splits if_splits)
  with plan v(1) that show thesis
    by (auto simp: app_resolve_route_def resolve_route_def router_route_key_def assms(1) split: sum.splits)
qed

subsection \<open>Instances for the witnesses\<close>

definition demo_tables_config :: "TableRoutingConfig list \<Rightarrow> Config" where
  "demo_tables_config tables = (demo_config demo_pair 0)
     \<lparr>cfg_routing := (cfg_routing (demo_config demo_pair 0))\<lparr>rc_tables := tables\<rparr>\<rparr>"

definition demo_tables_app :: "TableRoutingConfig list \<Rightarrow> (VNode list, nat \<times> StreamTick list, nat) AppState" where
  "demo_tables_app tables = (let c = demo_tables_config tables; h = spawn_handle (actor_spawn demo_ring_ops c) c
     in \<lparr> as_config = c, as_metadata = h, as_query_router = \<lparr> qr_metadata = h, qr_scan_allow_order_by = False \<rparr>,
          as_pg_pool = pool_new [] default_pg_auth 1, as_stream = None \<rparr>)"

abbreviation demo_key_parser :: sqlparser where
  "demo_key_parser \<equiv> demo_parser (QueryStatement (demo_query demo_param_where))"

lemma demo_tables_simps [simp]:
  "cfg_shards (demo_tables_config tables) = demo_pair"
  "hc_min_healthy_shards (cfg_health_check (demo_tables_config tables)) = 0"
  "rc_shard_key (cfg_routing (demo_tables_config tables)) = ''symbol''"
  "rc_tables (cfg_routing (demo_tables_config tables)) = tables"
  "qr_metadata (as_query_router (demo_tables_app tables)) = as_metadata (demo_tables_app tables)"
  "mh_default_shard_key (as_metadata (demo_tables_app tables)) = ''symbol''"
  "app_table_registry (demo_tables_app tables) = registry_from_config tables ''symbol''"
  "mh_snapshot (as_metadata (demo_tables_app tables)) = ms_snapshot (actor_run [] (actor_spawn demo_ring_ops (demo_tables_config tables)))"
  "env_memchr (demo_env net) = memchr_ref" "env_ring (demo_env net) = demo_ring_ops"
  by (simp_all add: demo_tables_config_def demo_tables_app_def spawn_handle_def app_table_registry_def Let_def actor_run_def
      demo_env_def)

lemma demo_tables_open: "route_open (mh_snapshot (as_metadata (demo_tables_app tables))) p s"
  by (simp add: route_open_def run_excluded report_simps) (cases p; simp)

lemma demo_tables_home:
  "shard_by_key demo_ring_ops (cs_ring (mh_snapshot (as_metadata (demo_tables_app tables)))) k =
     Some (demo_pair ! (if k = ''A'' then 0 else 1))"
  by (simp add: demo_home)

lemma demo_key_read: "keyed_read demo_key_parser (demo_tables_app tables) ''q'' (demo_query demo_param_where) (demo_select demo_param_where) demo_param_where"
  "holds oe oc [''symbol'' \<mapsto> k] [''x'', k] demo_param_where"
proof -
  have ext: "\<not> has_questdb_extension ''q''" by code_simp
  have l: "to_ascii_lowercase ''symbol'' = ''symbol''" by code_simp
  have p: "placeholder_index ''$2'' = Some 1"
    using placeholder_index_render [of 1] by (simp add: nat_to_string_two)
  have v: "key_compared_with_values demo_param_where ''symbol''" by code_simp
  have "router_classify demo_key_parser (as_query_router (demo_tables_app tables)) ''q'' =
      Inr (Routable (SingleShard ''trades'' None (Some 1)))"
    by (simp add: router_classify_def classify_sql_def ext parse_one_statement_def plan_query_def plan_select_def p
        primary_table_def object_name_def demo_sql_defs demo_param_where_def eq_ignore_ascii_case_def)
  with v ext show "keyed_read demo_key_parser (demo_tables_app tables) ''q'' (demo_query demo_param_where) (demo_select demo_param_where) demo_param_where"
    by (simp add: keyed_read_def) (simp add: demo_sql_defs)
  show "holds oe oc [''symbol'' \<mapsto> k] [''x'', k] demo_param_where"
    by (simp add: demo_param_where_def demo_ident_def p l)
qed

lemma demo_tables_empty: "as_metadata (demo_tables_app []) = as_metadata demo_ilp_app"
proof -
  have "demo_tables_config [] = demo_config demo_pair 0" by (simp add: demo_tables_config_def demo_config_def)
  then show ?thesis by (simp add: demo_tables_app_def demo_ilp_app_def Let_def)
qed

section \<open>Properties\<close>





text \<open>
  C37. A shard key configured for a table separates its writes from its reads. Lines of such a table are routed by
  the tag that is configured for the table, but queries are routed by the default key whatever the table is: a
  row is written to the shard of its value in one column, and a query that selects it by the default key is sent
  to the shard of its value in the other.
\<close>

theorem table_shard_key_separates_writes_from_reads:
  assumes "env_memchr env = memchr_ref" and "qr_metadata (as_query_router st) = as_metadata st"
    and "carries m tags rest (shard_key_for (app_table_registry st) m (mh_default_shard_key (as_metadata st))) w"
    and "row (to_ascii_lowercase (mh_default_shard_key (as_metadata st))) = Some v"
    and "keyed_read sp st sql query sel e" and "holds oe oc row ps e"
  shows "route_line env (as_metadata st) (render_line m tags rest) = shard_for_key (env_ring env) (mh_snapshot (as_metadata st)) w Ilp
    \<and> app_resolve_route (env_ring env) sp st sql (Some ps) =
        map_sum id Single (shard_for_key (env_ring env) (mh_snapshot (as_metadata st)) v Pg)"
proof
  from write_key [OF assms(1), of m tags rest "as_metadata st" w] assms(3)
  show "route_line env (as_metadata st) (render_line m tags rest) = shard_for_key (env_ring env) (mh_snapshot (as_metadata st)) w Ilp"
    by (simp add: app_table_registry_def)
  from read_key [OF assms(2,5,6)] assms(4)
  show "app_resolve_route (env_ring env) sp st sql (Some ps) =
      map_sum id Single (shard_for_key (env_ring env) (mh_snapshot (as_metadata st)) v Pg)"
    by (metis option.inject)
qed

theorem table_shard_key_separates_writes_from_reads_witness:
  "let st = demo_tables_app [\<lparr> tc_name = ''trades'', tc_sharded = True, tc_shard_key = Some ''venue'', tc_columns = [] \<rparr>]
   in route_line (demo_env good_net) (as_metadata st) (render_line ''trades'' [(''symbol'', ''B''), (''venue'', ''A'')] ''px=1'') = Inr (demo_pair ! 0)
    \<and> app_resolve_route demo_ring_ops demo_key_parser st ''q'' (Some [''x'', ''B'']) = Inr (Single (demo_pair ! 1))"
proof -
  let ?tables = "[\<lparr> tc_name = ''trades'', tc_sharded = True, tc_shard_key = Some ''venue'', tc_columns = [] \<rparr>]"
  let ?tags = "[(''symbol'', ''B''), (''venue'', ''A'')]"
  have l: "to_ascii_lowercase ''symbol'' = ''symbol''" by code_simp
  have c: "carries ''trades'' ?tags ''px=1'' ''venue'' ''A''" by code_simp
  have r: "shard_key_for (registry_from_config ?tables ''symbol'') ''trades'' ''symbol'' = ''venue''" by code_simp
  have home: "shard_for_key demo_ring_ops (mh_snapshot (as_metadata (demo_tables_app ?tables))) k p =
      Inr (demo_pair ! (if k = ''A'' then 0 else 1))" for k p
    by (rule shard_for_key_home [OF demo_tables_home demo_tables_open])
  show ?thesis
    using table_shard_key_separates_writes_from_reads [OF _ _ _ _ demo_key_read(1) [of ?tables] demo_key_read(2) [where k = "''B''"],
        where env = "demo_env good_net" and m = "''trades''" and tags = ?tags
          and rest = "''px=1''" and w = "''A''" and v = "''B''"]
      c r l home [of "''A''" Ilp] home [of "''B''" Pg] by (simp add: Let_def)
qed

end
